(* ===== verification/TDS_Prelude.thy ===== *)
theory TDS_Prelude
  imports Main "HOL-Library.Word" "HOL-Library.Sublist"
begin

text \<open>
  Shared vocabulary of the development: machine integers, byte strings and the few string
  algorithms of the C++ standard library that the server uses (searching for the first
  character of a class, prefix tests, decimal printing and reading), and the sequencing of
  operations that may throw. An operation that may throw and changes state is an
  \<open>action\<close>: it returns the exception or the result together with the state at that
  moment, so what a handler had already done when it threw is not lost.
\<close>

section \<open>Types and collections of facts\<close>

type_synonym u8 = "8 word"
type_synonym u16 = "16 word"
type_synonym u32 = "32 word"
type_synonym u64 = "64 word"
type_synonym bytes = "string"

named_theorems action_defs \<open>unfolding of the action combinators\<close>
named_theorems keeps_intros \<open>compositional rules for state invariants\<close>

section \<open>Operations that may throw\<close>

type_synonym ('e, 's, 'a) action = "'s \<Rightarrow> ('e + 'a) \<times> 's"

definition ret :: "'a \<Rightarrow> ('e, 's, 'a) action" where
  [action_defs]: "ret x = (\<lambda>s. (Inr x, s))"

definition raise :: "'e \<Rightarrow> ('e, 's, 'a) action" where
  [action_defs]: "raise e = (\<lambda>s. (Inl e, s))"

definition bind :: "('e, 's, 'a) action \<Rightarrow> ('a \<Rightarrow> ('e, 's, 'b) action) \<Rightarrow> ('e, 's, 'b) action" where
  [action_defs]: "bind m f = (\<lambda>s. case m s of (Inl e, t) \<Rightarrow> (Inl e, t) | (Inr x, t) \<Rightarrow> f x t)"

definition andthen :: "('e, 's, 'a) action \<Rightarrow> ('e, 's, 'b) action \<Rightarrow> ('e, 's, 'b) action" where
  [action_defs]: "andthen m n = bind m (\<lambda>_. n)"

definition gets :: "('s \<Rightarrow> 'a) \<Rightarrow> ('e, 's, 'a) action" where
  [action_defs]: "gets f = (\<lambda>s. (Inr (f s), s))"

definition modify :: "('s \<Rightarrow> 's) \<Rightarrow> ('e, 's, unit) action" where
  [action_defs]: "modify f = (\<lambda>s. (Inr (), f s))"

definition from_sum :: "'e + 'a \<Rightarrow> ('e, 's, 'a) action" where
  [action_defs]: "from_sum r = (\<lambda>s. (r, s))"

definition catching :: "('e, 's, 'a) action \<Rightarrow> ('e \<Rightarrow> ('e, 's, 'a) action) \<Rightarrow> ('e, 's, 'a) action" where
  [action_defs]: "catching m h = (\<lambda>s. case m s of (Inl e, t) \<Rightarrow> h e t | (Inr x, t) \<Rightarrow> (Inr x, t))"

primrec foreach :: "'a list \<Rightarrow> ('a \<Rightarrow> ('e, 's, unit) action) \<Rightarrow> ('e, 's, unit) action" where
  "foreach [] f = ret ()"
| "foreach (x # xs) f = andthen (f x) (foreach xs f)"

text \<open>
  \<open>keeps I m\<close>: the action preserves the state predicate \<open>I\<close> whether it returns or throws.
\<close>

definition keeps :: "('s \<Rightarrow> bool) \<Rightarrow> ('e, 's, 'a) action \<Rightarrow> bool" where
  "keeps I m \<longleftrightarrow> (\<forall>s. I s \<longrightarrow> I (snd (m s)))"

lemma keepsI: "(\<And>s. I s \<Longrightarrow> I (snd (m s))) \<Longrightarrow> keeps I m"
  by (simp add: keeps_def)

lemma keepsD: "keeps I m \<Longrightarrow> I s \<Longrightarrow> I (snd (m s))"
  by (simp add: keeps_def)

lemma keeps_result: "keeps I m \<Longrightarrow> I s \<Longrightarrow> m s = (r, t) \<Longrightarrow> I t"
  by (metis keepsD snd_conv)

lemma keeps_ret [keeps_intros]: "keeps I (ret x)"
  and keeps_raise [keeps_intros]: "keeps I (raise e)"
  and keeps_gets [keeps_intros]: "keeps I (gets f)"
  and keeps_from_sum [keeps_intros]: "keeps I (from_sum r)"
  by (simp_all add: keeps_def action_defs)

lemma keeps_bind [keeps_intros]:
  "keeps I m \<Longrightarrow> (\<And>x. keeps I (f x)) \<Longrightarrow> keeps I (bind m f)"
  unfolding keeps_def bind_def by (fastforce split: prod.splits sum.splits)

lemma keeps_andthen [keeps_intros]: "keeps I m \<Longrightarrow> keeps I n \<Longrightarrow> keeps I (andthen m n)"
  unfolding andthen_def by (intro keeps_intros)

lemma keeps_catching [keeps_intros]:
  "keeps I m \<Longrightarrow> (\<And>e. keeps I (h e)) \<Longrightarrow> keeps I (catching m h)"
  unfolding keeps_def catching_def by (fastforce split: prod.splits sum.splits)

lemma keeps_modify: "(\<And>s. I s \<Longrightarrow> I (f s)) \<Longrightarrow> keeps I (modify f)"
  by (simp add: keeps_def action_defs)

lemma keeps_if [keeps_intros]: "keeps I m \<Longrightarrow> keeps I n \<Longrightarrow> keeps I (if b then m else n)"
  by simp

lemma keeps_foreach [keeps_intros]: "(\<And>x. keeps I (f x)) \<Longrightarrow> keeps I (foreach xs f)"
  by (induction xs) (auto intro: keeps_intros)

lemma bind_Inr: "m s = (Inr x, t) \<Longrightarrow> bind m f s = f x t"
  and bind_Inl: "m s = (Inl e, t) \<Longrightarrow> bind m f s = (Inl e, t)"
  by (simp_all add: bind_def)

lemma bind_InrE:
  assumes "bind m f s = (Inr y, u)"
  obtains x t where "m s = (Inr x, t)" and "f x t = (Inr y, u)"
  using assms by (auto simp: bind_def split: prod.splits sum.splits)

lemma action_run [simp]:
  "ret x s = (Inr x, s)" "raise e s = (Inl e, s)" "gets g s = (Inr (g s), s)"
  "modify h s = (Inr (), h s)" "from_sum r s = (r, s)"
  "bind (ret x) f = f x" "bind (raise e) f = raise e" "bind (gets g) f s = f (g s) s"
  "bind (modify h) k s = k () (h s)" "bind (from_sum r) f s = (case r of Inl e \<Rightarrow> (Inl e, s) | Inr x \<Rightarrow> f x s)"
  by (auto simp: action_defs split: sum.splits)

section \<open>Strings\<close>

definition starts_with :: "'a list \<Rightarrow> 'a list \<Rightarrow> bool" where
  "starts_with s p \<longleftrightarrow> take (length p) s = p"

lemma starts_with_prefix: "starts_with s p \<longleftrightarrow> prefix p s"
  unfolding starts_with_def by (metis append_eq_conv_conj append_take_drop_id prefix_def)

lemma starts_with_append [simp]: "starts_with (p @ s) p"
  and starts_with_refl [simp]: "starts_with p p"
  by (simp_all add: starts_with_def)

definition char_code :: "char \<Rightarrow> nat" where
  "char_code c = of_char c"

definition in_char_range :: "char \<Rightarrow> char \<Rightarrow> char \<Rightarrow> bool" where
  "in_char_range lo hi c \<longleftrightarrow> char_code lo \<le> char_code c \<and> char_code c \<le> char_code hi"

abbreviation is_digit :: "char \<Rightarrow> bool" where
  "is_digit \<equiv> in_char_range CHR ''0'' CHR ''9''"

text \<open>\<open>newline\<close> is the line separator of the protocol; \<open>quote_char\<close> the apostrophe.\<close>

definition newline :: char where "newline = CHR 0x0A"
definition tab_char :: char where "tab_char = CHR 0x09"
definition apostrophe :: char where "apostrophe = CHR 0x27"
definition quotation :: char where "quotation = CHR 0x22"

lemmas special_chars = newline_def tab_char_def apostrophe_def quotation_def

lemma dropWhile_append_stop: "\<not> P c \<Longrightarrow> dropWhile P (xs @ c # ys) = dropWhile P xs @ c # ys"
  by (induction xs) auto

lemma takeWhile_all: "\<forall>x\<in>set xs. P x \<Longrightarrow> takeWhile P xs = xs"
  by (induction xs) auto

lemma takeWhile_append_stop: "\<forall>x\<in>set xs. P x \<Longrightarrow> \<not> P c \<Longrightarrow> takeWhile P (xs @ c # ys) = xs"
  by (induction xs) auto

lemma dropWhile_all: "\<forall>x\<in>set xs. P x \<Longrightarrow> dropWhile P xs = []"
  by (induction xs) auto

lemma dropWhile_prefix_all: "\<forall>x\<in>set xs. P x \<Longrightarrow> dropWhile P (xs @ ys) = dropWhile P ys"
  by (induction xs) auto

section \<open>Decimal numbers\<close>

text \<open>Printing as \<open>std::to_string\<close> and \<open>std::to_chars\<close> do it.\<close>

definition digit_char :: "nat \<Rightarrow> char" where
  "digit_char d = char_of (48 + d)"

fun nat_to_string :: "nat \<Rightarrow> string" where
  "nat_to_string n = (if n < 10 then [digit_char n] else nat_to_string (n div 10) @ [digit_char (n mod 10)])"

declare nat_to_string.simps [simp del]

definition digit_value :: "char \<Rightarrow> nat" where
  "digit_value c = char_code c - 48"

definition decimal_value :: "string \<Rightarrow> nat" where
  "decimal_value ds = foldl (\<lambda>n c. 10 * n + digit_value c) 0 ds"

lemma char_code_digit [simp]: "d < 10 \<Longrightarrow> char_code (digit_char d) = 48 + d"
  by (simp add: char_code_def digit_char_def)

lemma digit_value_digit_char [simp]: "d < 10 \<Longrightarrow> digit_value (digit_char d) = d"
  by (simp add: digit_value_def)

lemma is_digit_digit_char [simp]: "d < 10 \<Longrightarrow> is_digit (digit_char d)"
  by (simp add: in_char_range_def) (simp add: char_code_def)

lemma decimal_value_snoc [simp]: "decimal_value (ds @ [c]) = 10 * decimal_value ds + digit_value c"
  by (simp add: decimal_value_def)

lemma nat_to_string_digits: "\<forall>c\<in>set (nat_to_string n). is_digit c"
proof (induction n rule: nat_to_string.induct)
  case (1 n)
  then show ?case by (subst nat_to_string.simps) auto
qed

lemma nat_to_string_nonempty [simp]: "nat_to_string n \<noteq> []"
  by (subst nat_to_string.simps) simp

lemma decimal_value_nat_to_string [simp]: "decimal_value (nat_to_string n) = n"
proof (induction n rule: nat_to_string.induct)
  case (1 n)
  show ?case
  proof (cases "n < 10")
    case True
    then show ?thesis by (subst nat_to_string.simps) (simp add: decimal_value_def)
  next
    case False
    with 1 show ?thesis by (subst nat_to_string.simps) simp
  qed
qed

text \<open>A path in a formatted message is written through \<open>std::quoted\<close>.\<close>

definition quoted :: "string \<Rightarrow> string" where
  "quoted s = [quotation] @ concat (map (\<lambda>c. if c = quotation \<or> c = CHR 0x5C then [CHR 0x5C, c] else [c]) s) @ [quotation]"

end
