(* ===== verification/Errors.thy ===== *)
theory Errors
  imports TDS_Prelude
begin

text \<open>
  The errors of the server: the protocol codes with their numbers and default messages
  (\<open>protocol_error.hpp\<close>, \<open>protocol_error.cpp\<close>) and the exceptions the code throws. The
  catch clauses of the code tell \<open>ProtocolError\<close>, the \<open>system_error\<close> family and the other
  standard exceptions apart, so these are the constructors of \<open>exn\<close>. The last constructor is
  not an exception of the code: it marks a dereferenced null pointer, which has no defined
  behaviour in C++, so that its absence can be stated and proved.
\<close>

unbundle bit_operations_syntax

section \<open>Protocol codes\<close>

datatype ProtocolCode =
    ok
  | too_long_line | too_many_fields | bad_field | bad_command
  | unknown | not_logged_in | invalid_field_value | not_found | no_upload_to_resume
  | not_enough_perms | user_already_logged | invalid_credentials | file_already_exists
  | invalid_file_type | dls_without_dl | in_use | wrong_upload_path | not_a_directory
  | too_large_file

fun code_value :: "ProtocolCode \<Rightarrow> nat" where
  "code_value ok = 100"
| "code_value too_long_line = 300"
| "code_value too_many_fields = 301"
| "code_value bad_field = 302"
| "code_value bad_command = 303"
| "code_value unknown = 401"
| "code_value not_logged_in = 402"
| "code_value invalid_field_value = 403"
| "code_value not_found = 404"
| "code_value no_upload_to_resume = 405"
| "code_value not_enough_perms = 406"
| "code_value user_already_logged = 407"
| "code_value invalid_credentials = 408"
| "code_value file_already_exists = 409"
| "code_value invalid_file_type = 410"
| "code_value dls_without_dl = 411"
| "code_value in_use = 412"
| "code_value wrong_upload_path = 413"
| "code_value not_a_directory = 414"
| "code_value too_large_file = 415"

text \<open>
  \<open>TdpCategory::message\<close>. The switch runs on the condition cast back to the enumeration;
  every enumerator has a case.
\<close>

fun tdp_message :: "ProtocolCode \<Rightarrow> string" where
  "tdp_message ok = ''no error''"
| "tdp_message too_long_line = ''received line is too long''"
| "tdp_message too_many_fields = ''received too many fields''"
| "tdp_message bad_field = ''invalid field''"
| "tdp_message bad_command = ''invalid command''"
| "tdp_message not_enough_perms = ''not enough permissions''"
| "tdp_message unknown = ''unknown''"
| "tdp_message not_logged_in = ''not logged in''"
| "tdp_message invalid_field_value = ''invalid field value in request''"
| "tdp_message not_found = ''file not found''"
| "tdp_message no_upload_to_resume = ''no upload to resume''"
| "tdp_message user_already_logged = ''user is already logged in''"
| "tdp_message invalid_credentials = ''invalid credentials (login or password)''"
| "tdp_message file_already_exists = ''file or directory already exists''"
| "tdp_message invalid_file_type = ''invalid file type''"
| "tdp_message dls_without_dl = ''download start requested without dl command''"
| "tdp_message in_use = ''file or directory is used by another user''"
| "tdp_message wrong_upload_path = ''wrong upload path''"
| "tdp_message not_a_directory = ''not a directory''"
| "tdp_message too_large_file = ''too large file''"

section \<open>Exceptions\<close>

text \<open>
  The errors of file system calls that the server can meet, with their Linux numbers.
\<close>

datatype errno = ENOENT | EBUSY | EEXIST | ENOTDIR | EISDIR | EINVAL | ENOTEMPTY | EOPNOTSUPP

fun errno_value :: "errno \<Rightarrow> nat" where
  "errno_value ENOENT = 2"
| "errno_value EBUSY = 16"
| "errno_value EEXIST = 17"
| "errno_value ENOTDIR = 20"
| "errno_value EISDIR = 21"
| "errno_value EINVAL = 22"
| "errno_value ENOTEMPTY = 39"
| "errno_value EOPNOTSUPP = 95"

datatype exn =
    ProtocolError ProtocolCode string
  | SystemError nat string
  | RuntimeError string
  | NullDereference string

definition protocol_error :: "ProtocolCode \<Rightarrow> exn" where
  "protocol_error code = ProtocolError code (tdp_message code)"

fun what :: "exn \<Rightarrow> string" where
  "what (ProtocolError code msg) = msg"
| "what (SystemError n msg) = msg"
| "what (RuntimeError msg) = msg"
| "what (NullDereference msg) = msg"

lemma code_value_inject [simp]: "code_value a = code_value b \<longleftrightarrow> a = b"
  by (cases a; cases b; simp)

lemma code_value_range: "100 \<le> code_value c \<and> code_value c < 1000"
  by (cases c) auto

end
