(* ===== verification/Permissions.thy ===== *)
theory Permissions
  imports Errors
begin

text \<open>
  User permissions (\<open>permissions.hpp\<close>, \<open>permissions.cpp\<close>): an 8-bit flag enumeration with its
  bitwise operators and its conversion to and from the letters \<open>wcmdu\<close>. The round trips are
  proved once for any table of letters and single-bit flags and reach the code through an
  interpretation on its table.
\<close>

section \<open>The enumeration\<close>

type_synonym Permissions = u8

definition perm_none :: Permissions where "perm_none = 0"
definition perm_write :: Permissions where "perm_write = push_bit 1 1"
definition perm_copy :: Permissions where "perm_copy = push_bit 2 1"
definition perm_move :: Permissions where "perm_move = push_bit 3 1"
definition perm_download :: Permissions where "perm_download = push_bit 4 1"
definition perm_upload :: Permissions where "perm_upload = push_bit 5 1"
definition perm_initial :: Permissions where "perm_initial = perm_download"
definition perm_all :: Permissions where
  "perm_all = perm_write OR perm_copy OR perm_move OR perm_download OR perm_upload"

lemmas perm_defs = perm_none_def perm_write_def perm_copy_def perm_move_def perm_download_def
  perm_upload_def perm_initial_def perm_all_def

definition perms_not :: "Permissions \<Rightarrow> Permissions" where "perms_not perms = NOT perms"
definition perms_or :: "Permissions \<Rightarrow> Permissions \<Rightarrow> Permissions" where "perms_or lhs rhs = lhs OR rhs"
definition perms_and :: "Permissions \<Rightarrow> Permissions \<Rightarrow> Permissions" where "perms_and lhs rhs = lhs AND rhs"
definition perms_xor :: "Permissions \<Rightarrow> Permissions \<Rightarrow> Permissions" where "perms_xor lhs rhs = lhs XOR rhs"

lemmas perms_op_defs = perms_not_def perms_or_def perms_and_def perms_xor_def

section \<open>Letters\<close>

definition permission_list :: "Permissions list" where
  "permission_list = [perm_write, perm_copy, perm_move, perm_download, perm_upload]"

definition permission_symbols :: string where
  "permission_symbols = ''wcmdu''"

primrec perms_to_string_loop :: "Permissions \<Rightarrow> nat \<Rightarrow> Permissions list \<Rightarrow> string \<Rightarrow> string" where
  "perms_to_string_loop perms i [] result = result"
| "perms_to_string_loop perms i (perm # rest) result =
     perms_to_string_loop perms (i + 1) rest
       (if perms_and perms perm \<noteq> 0 then result @ [permission_symbols ! i] else result)"

definition perms_to_string :: "Permissions \<Rightarrow> string" where
  "perms_to_string perms = perms_to_string_loop perms 0 permission_list []"

primrec find_char :: "string \<Rightarrow> char \<Rightarrow> nat option" where
  "find_char [] c = None"
| "find_char (x # xs) c = (if x = c then Some 0 else map_option Suc (find_char xs c))"

primrec perms_from_string_loop :: "string \<Rightarrow> Permissions \<Rightarrow> exn + Permissions" where
  "perms_from_string_loop [] result = Inr result"
| "perms_from_string_loop (perm_symbol # rest) result =
     (case find_char permission_symbols perm_symbol of
        Some pos \<Rightarrow> perms_from_string_loop rest (perms_or result (permission_list ! pos))
      | None \<Rightarrow> Inl (RuntimeError (''Invalid permission symbol '' @ [apostrophe, perm_symbol, apostrophe])))"

definition perms_from_string :: "string \<Rightarrow> exn + Permissions" where
  "perms_from_string str = perms_from_string_loop str 0"

section \<open>Tables of single-bit flags\<close>

definition shown :: "(char \<times> 'a::len word) list \<Rightarrow> 'a word \<Rightarrow> string" where
  "shown tbl x = map fst (filter (\<lambda>(s, f). x AND f \<noteq> 0) tbl)"

primrec flags_of :: "(char \<times> 'a::len word) list \<Rightarrow> string \<Rightarrow> 'a word option" where
  "flags_of tbl [] = Some 0"
| "flags_of tbl (c # cs) =
     (case map_of tbl c of None \<Rightarrow> None | Some f \<Rightarrow> map_option (\<lambda>r. f OR r) (flags_of tbl cs))"

definition all_flags :: "(char \<times> 'a::len word) list \<Rightarrow> 'a word" where
  "all_flags tbl = fold (\<lambda>(s, f) r. f OR r) tbl 0"

lemma single_bit_and:
  fixes x :: "'a::len word"
  shows "x AND push_bit n 1 \<noteq> 0 \<Longrightarrow> x AND push_bit n 1 = push_bit n 1"
  by (rule bit_word_eqI) (auto simp: bit_simps intro: bit_word_eqI)

lemma fold_or: "fold (\<lambda>(s, f) r. f OR r) tbl r = r OR fold (\<lambda>(s, f) r. f OR r) tbl (0 :: 'a::len word)"
proof (induction tbl arbitrary: r)
  case Nil
  then show ?case by simp
next
  case (Cons p tbl)
  obtain s f where "p = (s, f)" by (cases p)
  then show ?case
    using Cons.IH [of "f OR r"] Cons.IH [of f] by (simp add: or.assoc or.commute or.left_commute)
qed

lemma all_flags_Cons: "all_flags ((s, f) # tbl) = f OR all_flags tbl"
  unfolding all_flags_def by (simp add: fold_or [of tbl f])

lemma and_or_absorb: "(x :: 'a::len word) AND (x OR y) = x"
  and or_and_absorb: "((x :: 'a::len word) AND y) OR x = x"
  by (auto intro: bit_word_eqI simp: bit_simps)

lemma all_flags_absorb: "(s, f) \<in> set tbl \<Longrightarrow> f AND all_flags tbl = f"
proof (induction tbl)
  case Nil
  then show ?case by simp
next
  case (Cons p tbl)
  show ?case
  proof (cases "p = (s, f)")
    case True
    then show ?thesis by (simp add: all_flags_Cons and_or_absorb)
  next
    case False
    with Cons have "f AND all_flags tbl = f" by simp
    then show ?thesis
      by (cases p) (simp add: all_flags_Cons bit.conj_disj_distrib or_and_absorb)
  qed
qed

locale flag_table =
  fixes tbl :: "(char \<times> 'a::len word) list"
  assumes distinct_letters: "distinct (map fst tbl)"
    and single_bits: "(s, f) \<in> set tbl \<Longrightarrow> \<exists>n. f = push_bit n 1"
begin

lemma flags_of_shown_part:
  "set part \<subseteq> set tbl \<Longrightarrow> flags_of tbl (shown part x) = Some (x AND all_flags part)"
proof (induction part)
  case Nil
  then show ?case by (simp add: shown_def all_flags_def)
next
  case (Cons p part)
  obtain s f where p: "p = (s, f)" by (cases p)
  with Cons.prems have mem: "(s, f) \<in> set tbl" by simp
  then have look: "map_of tbl s = Some f"
    using distinct_letters by simp
  have IH: "flags_of tbl (shown part x) = Some (x AND all_flags part)"
    using Cons by simp
  have dist: "x AND (f OR all_flags part) = (x AND f) OR (x AND all_flags part)"
    by (rule bit.conj_disj_distrib)
  show ?case
  proof (cases "x AND f = 0")
    case True
    with IH dist show ?thesis by (simp add: p shown_def all_flags_Cons)
  next
    case False
    with single_bits [OF mem] have "x AND f = f" using single_bit_and by blast
    with False IH look dist show ?thesis by (simp add: p shown_def all_flags_Cons)
  qed
qed

lemma flags_of_shown: "flags_of tbl (shown tbl x) = Some (x AND all_flags tbl)"
  by (rule flags_of_shown_part) simp

lemma flags_of_subset: "flags_of tbl cs = Some x \<Longrightarrow> x AND all_flags tbl = x"
proof (induction cs arbitrary: x)
  case Nil
  then show ?case by simp
next
  case (Cons c cs)
  then obtain f r where f: "map_of tbl c = Some f" and r: "flags_of tbl cs = Some r"
    and x: "x = f OR r"
    by (auto split: option.splits)
  have "f AND all_flags tbl = f"
    using map_of_SomeD [OF f] by (rule all_flags_absorb)
  with Cons.IH [OF r] show ?case by (simp add: x bit.conj_disj_distrib2)
qed

lemma flags_of_None: "flags_of tbl cs = None \<longleftrightarrow> \<not> set cs \<subseteq> fst ` set tbl"
proof (induction cs)
  case (Cons c cs)
  then show ?case
    using map_of_eq_None_iff [of tbl c] by (cases "map_of tbl c") auto
qed simp

end

section \<open>The code's table\<close>

definition permission_table :: "(char \<times> Permissions) list" where
  "permission_table = zip permission_symbols permission_list"

lemma permission_table_eq:
  "permission_table = [(CHR ''w'', 2), (CHR ''c'', 4), (CHR ''m'', 8), (CHR ''d'', 16), (CHR ''u'', 32)]"
  by (simp add: permission_table_def permission_symbols_def permission_list_def perm_defs push_bit_eq_mult)

interpretation perm_flags: flag_table permission_table
proof unfold_locales
  show "distinct (map fst permission_table)" by (simp add: permission_table_eq)
next
  fix s f
  assume "(s, f) \<in> set permission_table"
  then have "f \<in> set permission_list"
    unfolding permission_table_def by (rule set_zip_rightD)
  then show "\<exists>n. f = push_bit n 1"
    unfolding permission_list_def perm_write_def perm_copy_def perm_move_def perm_download_def
      perm_upload_def
    by (metis empty_iff empty_set set_ConsD)
qed

lemma perms_to_string_shown: "perms_to_string perms = shown permission_table perms"
  by (simp add: perms_to_string_def permission_list_def shown_def permission_table_def
      permission_symbols_def perms_and_def)

lemma all_flags_permission_table: "all_flags permission_table = perm_all"
  by (simp add: all_flags_def permission_table_def permission_list_def permission_symbols_def
      perm_all_def or.commute or.left_commute)

lemma find_char_table:
  "(case find_char permission_symbols c of Some pos \<Rightarrow> Some (permission_list ! pos) | None \<Rightarrow> None) =
   map_of permission_table c"
  by (simp add: permission_table_def permission_symbols_def permission_list_def)

lemma perms_from_string_flags:
  "perms_from_string_loop cs r =
     (case flags_of permission_table cs of
        Some x \<Rightarrow> Inr (r OR x)
      | None \<Rightarrow> perms_from_string_loop cs r)"
proof (induction cs arbitrary: r)
  case Nil
  then show ?case by simp
next
  case (Cons c cs)
  show ?case
    using Cons.IH find_char_table [of c]
    by (auto simp: perms_or_def or.assoc split: option.splits)
qed

lemma perms_from_string_Inr:
  "perms_from_string cs = Inr p \<longleftrightarrow> flags_of permission_table cs = Some p"
proof (cases "flags_of permission_table cs")
  case None
  have "\<exists>e. perms_from_string_loop cs r = Inl e" for r
    using None
  proof (induction cs arbitrary: r)
    case (Cons c cs)
    then show ?case
      using find_char_table [of c] by (auto split: option.splits)
  qed simp
  then show ?thesis using None by (auto simp: perms_from_string_def) (metis sum.distinct(1))
next
  case (Some x)
  then show ?thesis
    by (subst perms_from_string_def, subst perms_from_string_flags) auto
qed

lemma perms_from_string_Inl:
  "perms_from_string cs = Inl e \<Longrightarrow> \<exists>msg. e = RuntimeError msg"
proof -
  have "perms_from_string_loop cs r = Inl e \<Longrightarrow> \<exists>msg. e = RuntimeError msg" for r
    by (induction cs arbitrary: r) (auto split: option.splits)
  then show "perms_from_string cs = Inl e \<Longrightarrow> \<exists>msg. e = RuntimeError msg"
    by (simp add: perms_from_string_def)
qed

lemma perms_to_from_string: "perms_from_string (perms_to_string perms) = Inr (perms_and perms perm_all)"
  using perm_flags.flags_of_shown [of perms]
  by (simp add: perms_from_string_Inr perms_to_string_shown perms_and_def all_flags_permission_table)

section \<open>Properties\<close>

text \<open>
  Writing a permission set as letters and reading the letters back gives the set again,
  less the bits that are no permission; and a string is refused (with a runtime error)
  exactly when some character of it is not a permission letter.
\<close>

lemma perms_string_roundtrip:
  "perms_from_string (perms_to_string perms) = Inr (perms_and perms perm_all) \<and>
   ((\<exists>msg. perms_from_string str = Inl (RuntimeError msg)) \<longleftrightarrow> \<not> set str \<subseteq> set permission_symbols)"
proof
  show "perms_from_string (perms_to_string perms) = Inr (perms_and perms perm_all)"
    by (rule perms_to_from_string)
next
  have "fst ` set permission_table = set permission_symbols"
    by (simp add: permission_table_eq permission_symbols_def)
  then have none: "flags_of permission_table str = None \<longleftrightarrow> \<not> set str \<subseteq> set permission_symbols"
    by (simp add: perm_flags.flags_of_None)
  show "(\<exists>msg. perms_from_string str = Inl (RuntimeError msg)) \<longleftrightarrow> \<not> set str \<subseteq> set permission_symbols"
  proof (cases "perms_from_string str")
    case (Inl e)
    then have "flags_of permission_table str = None"
      using perms_from_string_Inr [of str] by (cases "flags_of permission_table str") auto
    with Inl none perms_from_string_Inl [OF Inl] show ?thesis by simp
  next
    case (Inr p)
    then have "flags_of permission_table str = Some p" by (simp add: perms_from_string_Inr)
    with Inr none show ?thesis by simp
  qed
qed

end
