(* ===== verification/Paths.thy ===== *)
theory Paths
  imports Errors
begin

text \<open>
  The lexical half of \<open>std::filesystem::path\<close> on a POSIX system, as far as the server uses it:
  appending and concatenating, the file name and the parent of a path, iteration over its
  elements and the element-wise equality, and the normal form. A path is its native string.
\<close>

type_synonym path = string

abbreviation sep :: char where "sep \<equiv> CHR ''/''"

section \<open>Splitting\<close>

primrec split_on :: "char \<Rightarrow> string \<Rightarrow> string list" where
  "split_on c [] = [[]]"
| "split_on c (x # xs) =
     (if x = c then [] # split_on c xs
      else (case split_on c xs of [] \<Rightarrow> [[x]] | w # ws \<Rightarrow> (x # w) # ws))"

lemma split_on_nonempty [simp]: "split_on c s \<noteq> []"
  by (cases s) (auto split: list.splits)

lemma split_on_no_sep: "c \<notin> set s \<Longrightarrow> split_on c s = [s]"
  by (induction s) auto

lemma split_on_append: "c \<notin> set s \<Longrightarrow> split_on c (s @ c # t) = s # split_on c t"
  by (induction s) (auto split: list.splits)

lemma split_on_parts: "w \<in> set (split_on c s) \<Longrightarrow> c \<notin> set w"
  by (induction s arbitrary: w) (auto split: if_splits list.splits)

primrec join_with :: "char \<Rightarrow> string list \<Rightarrow> string" where
  "join_with c [] = []"
| "join_with c (w # ws) = w @ (if ws = [] then [] else c # join_with c ws)"

lemma split_on_join:
  "ws \<noteq> [] \<Longrightarrow> \<forall>w\<in>set ws. c \<notin> set w \<Longrightarrow> split_on c (join_with c ws) = ws"
  by (induction ws) (auto simp: split_on_append split_on_no_sep)

lemma split_on_append_general:
  "split_on c (s @ c # t) = split_on c s @ split_on c t"
  by (induction s) (auto split: list.splits)

lemma split_on_snoc:
  "split_on c (s @ [x]) =
     (if x = c then split_on c s @ [[]]
      else butlast (split_on c s) @ [last (split_on c s) @ [x]])"
  by (induction s) (auto split: list.splits)

lemma last_split_on: "last (split_on c s) = rev (takeWhile (\<lambda>x. x \<noteq> c) (rev s))"
  by (induction s rule: rev_induct) (auto simp: split_on_snoc)

section \<open>Path operations\<close>

definition is_absolute :: "path \<Rightarrow> bool" where
  "is_absolute p = (case p of [] \<Rightarrow> False | c # _ \<Rightarrow> c = sep)"

definition has_filename :: "path \<Rightarrow> bool" where
  "has_filename p \<longleftrightarrow> p \<noteq> [] \<and> last p \<noteq> sep"

text \<open>\<open>operator/\<close>: an absolute right operand replaces the path.\<close>

definition path_append :: "path \<Rightarrow> path \<Rightarrow> path" where
  "path_append p q = (if is_absolute q then q else if has_filename p then p @ [sep] @ q else p @ q)"

text \<open>\<open>operator+=\<close>: plain concatenation of the native strings.\<close>

definition path_concat :: "path \<Rightarrow> path \<Rightarrow> path" where
  "path_concat p q = p @ q"

definition filename :: "path \<Rightarrow> path" where
  "filename p = rev (takeWhile (\<lambda>c. c \<noteq> sep) (rev p))"

definition parent_path :: "path \<Rightarrow> path" where
  "parent_path p =
     (let dir = rev (dropWhile (\<lambda>c. c = sep) (dropWhile (\<lambda>c. c \<noteq> sep) (rev p)))
      in if dir = [] \<and> is_absolute p then [sep] else dir)"

text \<open>
  The elements a path iterates over: the root directory, the file names, and an empty
  element after a separator that ends the path. Equality of paths compares elements.
\<close>

definition names_of :: "path \<Rightarrow> string list" where
  "names_of p = filter (\<lambda>w. w \<noteq> []) (split_on sep p)"

definition path_elems :: "path \<Rightarrow> string list" where
  "path_elems p =
     (if is_absolute p then [[sep]] else []) @ names_of p @
     (if p \<noteq> [] \<and> last p = sep \<and> names_of p \<noteq> [] then [[]] else [])"

definition path_eq :: "path \<Rightarrow> path \<Rightarrow> bool" where
  "path_eq p q \<longleftrightarrow> path_elems p = path_elems q"

section \<open>Normal form\<close>

text \<open>
  \<open>lexically_normal\<close>: dots and repeated separators go, a name followed by dot-dot goes, and
  dot-dots right after the root directory go. The names are collected on a stack (last name
  first). A separator stays at the end where the last element was a dot, empty or a dot-dot
  that removed a name, unless what is left ends in a dot-dot.
\<close>

fun normal_stack :: "bool \<Rightarrow> string list \<Rightarrow> string list \<Rightarrow> string list" where
  "normal_stack absolute stack [] = stack"
| "normal_stack absolute stack (w # ws) =
     (if w = [] \<or> w = ''.'' then normal_stack absolute stack ws
      else if w = ''..'' then
        (case stack of
           [] \<Rightarrow> normal_stack absolute (if absolute then [] else [w]) ws
         | t # rest \<Rightarrow>
             if t = ''..'' then normal_stack absolute (w # stack) ws
             else normal_stack absolute rest ws)
      else normal_stack absolute (w # stack) ws)"

definition lexically_normal :: "path \<Rightarrow> path" where
  "lexically_normal p =
     (if p = [] then []
      else
        let absolute = is_absolute p;
            words = split_on sep p;
            stack = normal_stack absolute [] words;
            body = join_with sep (rev stack);
            trailing = (case stack of [] \<Rightarrow> False
                        | t # _ \<Rightarrow> last words \<in> {[], ''.'', ''..''} \<and> t \<noteq> ''..'');
            full = (if absolute then [sep] else []) @ body @ (if trailing then [sep] else [])
        in if full = [] then ''.'' else full)"

text \<open>\<open>lexically_relative\<close>, element by element.\<close>

fun drop_common :: "string list \<Rightarrow> string list \<Rightarrow> string list \<times> string list" where
  "drop_common (a # as) (b # bs) = (if a = b then drop_common as bs else (a # as, b # bs))"
| "drop_common as bs = (as, bs)"

primrec up_count :: "string list \<Rightarrow> int" where
  "up_count [] = 0"
| "up_count (w # ws) =
     (if w = ''..'' then - 1 else if w = [] \<or> w = ''.'' then 0 else 1) + up_count ws"

definition lexically_relative :: "path \<Rightarrow> path \<Rightarrow> path" where
  "lexically_relative p base =
     (if is_absolute p \<noteq> is_absolute base then []
      else
        let (as, bs) = drop_common (path_elems p) (path_elems base); n = up_count bs
        in if as = [] \<and> bs = [] then ''.''
           else if n = 0 \<and> (as = [] \<or> hd as = []) then ''.''
           else if n \<ge> 0 then foldl path_append [] (replicate (nat n) ''..'' @ as)
           else [])"

section \<open>Facts\<close>

lemma is_absolute_Cons [simp]: "is_absolute (c # p) \<longleftrightarrow> c = sep"
  and is_absolute_Nil [simp]: "\<not> is_absolute []"
  by (simp_all add: is_absolute_def)

lemma is_absolute_append [simp]: "is_absolute p \<Longrightarrow> is_absolute (p @ q)"
  by (cases p) auto

lemma is_absolute_path_append [simp]: "is_absolute p \<Longrightarrow> is_absolute (path_append p q)"
  by (simp add: path_append_def)

lemma filename_no_sep: "sep \<notin> set (filename p)"
  unfolding filename_def by (auto dest: set_takeWhileD)

lemma filename_id: "sep \<notin> set p \<Longrightarrow> filename p = p"
proof -
  assume "sep \<notin> set p"
  then have "\<forall>c\<in>set (rev p). c \<noteq> sep" by auto
  then have "takeWhile (\<lambda>c. c \<noteq> sep) (rev p) = rev p" by (rule takeWhile_all)
  then show "filename p = p" by (simp only: filename_def rev_rev_ident)
qed

lemma names_no_sep: "sep \<notin> set p \<Longrightarrow> names_of p = (if p = [] then [] else [p])"
  by (simp add: names_of_def split_on_no_sep)

lemma path_elems_no_sep:
  assumes "sep \<notin> set p"
  shows "path_elems p = (if p = [] then [] else [p])"
proof -
  have "p \<noteq> [] \<Longrightarrow> last p \<noteq> sep" using assms last_in_set by metis
  with assms show ?thesis
    by (cases p) (auto simp: path_elems_def names_no_sep)
qed

lemma filename_last: "filename p = last (split_on sep p)"
  by (simp add: filename_def last_split_on)

lemma names_of_last:
  assumes "q \<noteq> []" and "last q \<noteq> sep"
  shows "names_of q \<noteq> []"
proof -
  have "filename q \<noteq> []"
    using assms by (cases q rule: rev_cases) (auto simp: filename_def)
  moreover have "filename q \<in> set (split_on sep q)"
    by (simp add: filename_last)
  ultimately show ?thesis by (auto simp: names_of_def filter_empty_conv)
qed

lemma names_of_sep_cases:
  assumes "sep \<in> set p"
  shows "is_absolute p \<or> (\<exists>w q. w \<noteq> [] \<and> sep \<notin> set w \<and> p = w @ sep # q)"
proof -
  obtain w q where "p = w @ sep # q" and "sep \<notin> set w"
    using assms split_list_first by metis
  then show ?thesis by (cases "w = []") auto
qed

text \<open>
  The test \<open>p != p.filename()\<close>, by which the commands refuse names that are paths, is the
  test whether the string holds a separator.
\<close>

lemma path_eq_filename: "path_eq p (filename p) \<longleftrightarrow> sep \<notin> set p"
proof
  assume eq: "path_eq p (filename p)"
  show "sep \<notin> set p"
  proof
    assume mem: "sep \<in> set p"
    have elems: "path_elems p = (if filename p = [] then [] else [filename p])"
      using eq by (simp add: path_eq_def path_elems_no_sep [OF filename_no_sep])
    from names_of_sep_cases [OF mem] show False
    proof
      assume "is_absolute p"
      then have "[sep] \<in> set (path_elems p)" by (simp add: path_elems_def)
      with elems have "filename p = [sep]" by (auto split: if_splits)
      then have "sep \<in> set (filename p)" by simp
      then show False using filename_no_sep by simp
    next
      assume "\<exists>w q. w \<noteq> [] \<and> sep \<notin> set w \<and> p = w @ sep # q"
      then obtain w q where w: "w \<noteq> []" "sep \<notin> set w" and p: "p = w @ sep # q" by blast
      have names: "names_of p = w # names_of q"
        using w by (simp add: p names_of_def split_on_append)
      have "2 \<le> length (path_elems p)"
      proof (cases "names_of q")
        case Nil
        then have "q = [] \<or> last q = sep" using names_of_last by blast
        then have "last p = sep" by (auto simp: p)
        then show ?thesis using names Nil by (simp add: path_elems_def) (simp add: p)
      next
        case Cons
        then show ?thesis by (simp add: path_elems_def names)
      qed
      with elems show False by (auto split: if_splits)
    qed
  qed
next
  assume "sep \<notin> set p"
  then show "path_eq p (filename p)" by (simp add: path_eq_def filename_id)
qed

text \<open>A name a directory entry can have: no separator, not empty, no dot and no dot-dot.\<close>

definition plain_name :: "string \<Rightarrow> bool" where
  "plain_name w \<longleftrightarrow> w \<noteq> [] \<and> w \<noteq> ''.'' \<and> w \<noteq> ''..'' \<and> sep \<notin> set w"

lemma normal_stack_names:
  "list_all plain_name stack \<Longrightarrow> \<forall>w\<in>set ws. sep \<notin> set w \<Longrightarrow>
   list_all plain_name (normal_stack True stack ws)"
proof (induction ws arbitrary: stack)
  case Nil
  then show ?case by simp
next
  case (Cons w ws)
  show ?case
  proof (cases "w = [] \<or> w = ''.'' \<or> w = ''..''")
    case True
    with Cons show ?thesis by (cases stack) (auto simp: plain_name_def)
  next
    case False
    with Cons.prems have "list_all plain_name (w # stack)" by (simp add: plain_name_def [of w])
    with Cons.IH Cons.prems False show ?thesis by simp
  qed
qed

lemma lexically_normal_absolute:
  assumes "is_absolute p"
  obtains ns e where "lexically_normal p = sep # join_with sep ns @ e"
    and "list_all plain_name ns"
    and "e = [] \<or> e = [sep] \<and> ns \<noteq> []"
proof -
  let ?st = "normal_stack True [] (split_on sep p)"
  have "p \<noteq> []" using assms by auto
  define e where "e = (case ?st of [] \<Rightarrow> [] | t # _ \<Rightarrow>
      if last (split_on sep p) \<in> {[], ''.'', ''..''} \<and> t \<noteq> ''..'' then [sep] else [])"
  have "lexically_normal p = sep # join_with sep (rev ?st) @ e"
    using assms \<open>p \<noteq> []\<close> by (auto simp: lexically_normal_def Let_def e_def split: list.splits)
  moreover have "list_all plain_name (rev ?st)"
    using normal_stack_names [of "[]" "split_on sep p"] split_on_parts [of _ sep p] by auto
  moreover have "e = [] \<or> e = [sep] \<and> rev ?st \<noteq> []"
    by (auto simp: e_def split: list.splits)
  ultimately show thesis by (rule that)
qed

lemma is_absolute_lexically_normal: "is_absolute p \<Longrightarrow> is_absolute (lexically_normal p)"
  by (erule lexically_normal_absolute) simp

end
