(* ===== verification/Filesystem.thy ===== *)
theory Filesystem
  imports Paths "HOL-Library.AList"
begin

text \<open>
  The file system under the server, as \<open>std::filesystem\<close> and the POSIX calls below it present
  it: a tree of directories and regular files without links. A location is the list of names
  from the root of the tree; a path string is resolved component by component. The
  operations are the ones the server calls, with the errors that the structure of the tree
  can cause; a device that fails or refuses access is not modelled, and neither are a NUL
  byte inside a path and the length limits on names. The free space of the device is an
  input. The tree refines a map from locations to entries (\<open>obs\<close>).
\<close>

type_synonym loc = "string list"

datatype node = File bytes | Dir "(string \<times> node) list"

datatype entry = Regular bytes | Directory

record disk =
  tree :: node
  working_dir :: loc
  available :: u64

section \<open>Locations\<close>

primrec lookup :: "node \<Rightarrow> loc \<Rightarrow> node option" where
  "lookup t [] = Some t"
| "lookup t (c # cs) =
     (case t of File b \<Rightarrow> None
      | Dir es \<Rightarrow> (case map_of es c of None \<Rightarrow> None | Some n \<Rightarrow> lookup n cs))"

fun entry_of :: "node \<Rightarrow> entry" where
  "entry_of (File b) = Regular b"
| "entry_of (Dir es) = Directory"

definition obs :: "node \<Rightarrow> loc \<Rightarrow> entry option" where
  "obs t l = map_option entry_of (lookup t l)"

primrec map_dir :: "loc \<Rightarrow> ((string \<times> node) list \<Rightarrow> (string \<times> node) list) \<Rightarrow> node \<Rightarrow> node" where
  "map_dir [] f t = (case t of File b \<Rightarrow> File b | Dir es \<Rightarrow> Dir (f es))"
| "map_dir (c # cs) f t =
     (case t of File b \<Rightarrow> File b
      | Dir es \<Rightarrow> Dir (map (\<lambda>(n, x). (n, if n = c then map_dir cs f x else x)) es))"

definition put_entry :: "loc \<Rightarrow> string \<Rightarrow> node \<Rightarrow> node \<Rightarrow> node" where
  "put_entry d n x t = map_dir d (AList.update n x) t"

definition del_entry :: "loc \<Rightarrow> string \<Rightarrow> node \<Rightarrow> node" where
  "del_entry d n t = map_dir d (AList.delete n) t"

fun node_count :: "node \<Rightarrow> nat" where
  "node_count (File b) = 1"
| "node_count (Dir es) = 1 + sum_list (map (\<lambda>p. node_count (snd p)) es)"

fun wf_node :: "node \<Rightarrow> bool" where
  "wf_node (File b) = True"
| "wf_node (Dir es) =
     (distinct (map fst es) \<and> (\<forall>p\<in>set es. plain_name (fst p) \<and> wf_node (snd p)))"

section \<open>Path resolution\<close>

fun walk :: "node \<Rightarrow> loc \<Rightarrow> string list \<Rightarrow> errno + loc" where
  "walk t cur [] = Inr cur"
| "walk t cur (c # cs) =
     (case obs t cur of
        Some Directory \<Rightarrow>
          if c = [] \<or> c = ''.'' then walk t cur cs
          else if c = ''..'' then walk t (butlast cur) cs
          else if obs t (cur @ [c]) = None then Inl ENOENT
          else walk t (cur @ [c]) cs
      | Some (Regular b) \<Rightarrow> Inl ENOTDIR
      | None \<Rightarrow> Inl ENOENT)"

definition start_dir :: "disk \<Rightarrow> path \<Rightarrow> loc" where
  "start_dir d p = (if is_absolute p then [] else working_dir d)"

definition resolve :: "disk \<Rightarrow> path \<Rightarrow> errno + loc" where
  "resolve d p = (if p = [] then Inl ENOENT else walk (tree d) (start_dir d p) (split_on sep p))"

definition strip_trailing :: "string list \<Rightarrow> string list" where
  "strip_trailing ws = rev (dropWhile (\<lambda>w. w = []) (rev ws))"

text \<open>The last component, and the directory it is looked up in.\<close>

definition last_component :: "path \<Rightarrow> string" where
  "last_component p = (case rev (strip_trailing (split_on sep p)) of [] \<Rightarrow> [] | w # _ \<Rightarrow> w)"

definition resolve_parent :: "disk \<Rightarrow> path \<Rightarrow> errno + loc" where
  "resolve_parent d p =
     (if p = [] then Inl ENOENT
      else case walk (tree d) (start_dir d p) (butlast (strip_trailing (split_on sep p))) of
             Inl e \<Rightarrow> Inl e
           | Inr l \<Rightarrow> (case obs (tree d) l of
                        Some Directory \<Rightarrow> Inr l | Some (Regular b) \<Rightarrow> Inl ENOTDIR | None \<Rightarrow> Inl ENOENT))"

definition canonical_of :: "loc \<Rightarrow> path" where
  "canonical_of l = sep # join_with sep l"

section \<open>Operations of \<open>std::filesystem\<close>\<close>

definition node_at :: "disk \<Rightarrow> path \<Rightarrow> node option" where
  "node_at d p = (case resolve d p of Inl e \<Rightarrow> None | Inr l \<Rightarrow> lookup (tree d) l)"

definition fs_exists :: "disk \<Rightarrow> path \<Rightarrow> bool" where
  "fs_exists d p \<longleftrightarrow> node_at d p \<noteq> None"

definition fs_is_directory :: "disk \<Rightarrow> path \<Rightarrow> bool" where
  "fs_is_directory d p = (case node_at d p of Some (Dir es) \<Rightarrow> True | _ \<Rightarrow> False)"

definition fs_is_regular_file :: "disk \<Rightarrow> path \<Rightarrow> bool" where
  "fs_is_regular_file d p = (case node_at d p of Some (File b) \<Rightarrow> True | _ \<Rightarrow> False)"

definition fs_file_size :: "disk \<Rightarrow> path \<Rightarrow> errno + u64" where
  "fs_file_size d p =
     (case resolve d p of Inl e \<Rightarrow> Inl e
      | Inr l \<Rightarrow> (case lookup (tree d) l of
                   Some (File b) \<Rightarrow> Inr (of_nat (length b)) | Some (Dir es) \<Rightarrow> Inl EISDIR | None \<Rightarrow> Inl ENOENT))"

definition fs_canonical :: "disk \<Rightarrow> path \<Rightarrow> errno + path" where
  "fs_canonical d p = map_sum id canonical_of (resolve d p)"

text \<open>
  \<open>weakly_canonical\<close> resolves the leading elements that exist and appends the others;
  \<open>relative\<close> compares two such paths.
\<close>

primrec existing_prefix :: "disk \<Rightarrow> path \<Rightarrow> string list \<Rightarrow> path \<times> string list" where
  "existing_prefix d result [] = (result, [])"
| "existing_prefix d result (e # es) =
     (if fs_exists d (path_append result e) then existing_prefix d (path_append result e) es
      else (result, e # es))"

definition fs_weakly_canonical :: "disk \<Rightarrow> path \<Rightarrow> path" where
  "fs_weakly_canonical d p =
     (case fs_canonical d p of
        Inr q \<Rightarrow> q
      | Inl e \<Rightarrow>
          let (result, rest) = existing_prefix d [] (path_elems p);
              start = (case fs_canonical d result of Inr q \<Rightarrow> q | Inl e \<Rightarrow> result)
          in lexically_normal (foldl path_append start rest))"

definition fs_relative :: "disk \<Rightarrow> path \<Rightarrow> path \<Rightarrow> path" where
  "fs_relative d p base = lexically_relative (fs_weakly_canonical d p) (fs_weakly_canonical d base)"

definition dir_entries :: "disk \<Rightarrow> path \<Rightarrow> errno + (string \<times> node) list" where
  "dir_entries d p =
     (case resolve d p of Inl e \<Rightarrow> Inl e
      | Inr l \<Rightarrow> (case lookup (tree d) l of
                   Some (Dir es) \<Rightarrow> Inr es | Some (File b) \<Rightarrow> Inl ENOTDIR | None \<Rightarrow> Inl ENOENT))"

definition fs_create_directory :: "disk \<Rightarrow> path \<Rightarrow> (errno + bool) \<times> disk" where
  "fs_create_directory d p =
     (case node_at d p of
        Some (Dir es) \<Rightarrow> (Inr False, d)
      | Some (File b) \<Rightarrow> (Inl EEXIST, d)
      | None \<Rightarrow>
          (case resolve_parent d p of
             Inl e \<Rightarrow> (Inl e, d)
           | Inr l \<Rightarrow> if plain_name (last_component p)
                      then (Inr True, d\<lparr>tree := put_entry l (last_component p) (Dir []) (tree d)\<rparr>)
                      else (Inl ENOENT, d)))"

text \<open>
  \<open>rename(2)\<close>: a directory does not move into itself, a directory replaces only an empty
  directory, a file only a file.
\<close>

definition rename_onto :: "node \<Rightarrow> node option \<Rightarrow> errno option" where
  "rename_onto src dst =
     (case (src, dst) of
        (_, None) \<Rightarrow> None
      | (Dir _, Some (Dir es)) \<Rightarrow> if es = [] then None else Some ENOTEMPTY
      | (Dir _, Some (File _)) \<Rightarrow> Some ENOTDIR
      | (File _, Some (Dir _)) \<Rightarrow> Some EISDIR
      | (File _, Some (File _)) \<Rightarrow> None)"

definition ends_in_sep :: "path \<Rightarrow> bool" where
  "ends_in_sep p \<longleftrightarrow> p \<noteq> [] \<and> last p = sep"

definition move_entry :: "node \<Rightarrow> loc \<Rightarrow> node \<Rightarrow> loc \<Rightarrow> string \<Rightarrow> node" where
  "move_entry t src x l n = put_entry l n x (del_entry (butlast src) (last src) t)"

definition fs_rename :: "disk \<Rightarrow> path \<Rightarrow> path \<Rightarrow> errno option \<times> disk" where
  "fs_rename d p q =
     (case resolve d p of
        Inl e \<Rightarrow> (Some e, d)
      | Inr src \<Rightarrow>
          (case (lookup (tree d) src, resolve_parent d q) of
             (Some x, Inr l) \<Rightarrow>
               if \<not> plain_name (last_component p) \<or> \<not> plain_name (last_component q) \<or> src = []
               then (Some EBUSY, d)
               else
                 let dst = l @ [last_component q] in
                 if dst = src then (None, d)
                 else if prefix src dst then (Some EINVAL, d)
                 else if ends_in_sep q \<and> entry_of x \<noteq> Directory then (Some ENOTDIR, d)
                 else (case rename_onto x (lookup (tree d) dst) of
                         Some e \<Rightarrow> (Some e, d)
                       | None \<Rightarrow> (None, d\<lparr>tree := move_entry (tree d) src x l (last_component q)\<rparr>))
           | (Some x, Inl e) \<Rightarrow> (Some e, d)
           | (None, _) \<Rightarrow> (Some ENOENT, d)))"

text \<open>\<open>copy_file\<close> without options: the source is a regular file and the target does not exist.\<close>

definition fs_copy_file :: "disk \<Rightarrow> path \<Rightarrow> path \<Rightarrow> errno option \<times> disk" where
  "fs_copy_file d p q =
     (case resolve d p of
        Inl e \<Rightarrow> (Some e, d)
      | Inr src \<Rightarrow>
          (case lookup (tree d) src of
             None \<Rightarrow> (Some ENOENT, d)
           | Some (Dir es) \<Rightarrow> (Some EOPNOTSUPP, d)
           | Some (File b) \<Rightarrow>
               (case node_at d q of
                  Some (Dir es) \<Rightarrow> (Some EOPNOTSUPP, d)
                | Some (File c) \<Rightarrow> (Some EEXIST, d)
                | None \<Rightarrow>
                    (case resolve_parent d q of
                       Inl e \<Rightarrow> (Some e, d)
                     | Inr l \<Rightarrow>
                         if \<not> plain_name (last_component q) then (Some ENOENT, d)
                         else if ends_in_sep q then (Some EISDIR, d)
                         else (None, d\<lparr>tree := put_entry l (last_component q) (File b) (tree d)\<rparr>)))))"

text \<open>
  \<open>remove_all\<close> deletes the contents of a directory and then the path itself as \<open>remove(3)\<close>
  does, which fails on a path that ends in a dot or a dot-dot.
\<close>

definition remove_path :: "disk \<Rightarrow> path \<Rightarrow> nat \<Rightarrow> (errno + nat) \<times> disk" where
  "remove_path d p count =
     (case resolve d p of
        Inl e \<Rightarrow> (Inr count, d)
      | Inr l \<Rightarrow>
          if last_component p = ''.'' then (Inl EINVAL, d)
          else if last_component p = ''..'' then (Inl ENOTEMPTY, d)
          else if l = [] then (Inl EBUSY, d)
          else (Inr (count + 1), d\<lparr>tree := del_entry (butlast l) (last l) (tree d)\<rparr>))"

definition fs_remove_all :: "disk \<Rightarrow> path \<Rightarrow> (errno + nat) \<times> disk" where
  "fs_remove_all d p =
     (case resolve d p of
        Inl e \<Rightarrow> (Inr 0, d)
      | Inr l \<Rightarrow>
          (case lookup (tree d) l of
             None \<Rightarrow> (Inr 0, d)
           | Some (File b) \<Rightarrow> remove_path d p 0
           | Some (Dir es) \<Rightarrow>
               remove_path (d\<lparr>tree := map_dir l (\<lambda>_. []) (tree d)\<rparr>) p (node_count (Dir es) - 1)))"

text \<open>\<open>remove\<close> of a regular file (the server removes its own backup files this way).\<close>

definition fs_remove :: "disk \<Rightarrow> path \<Rightarrow> (errno + bool) \<times> disk" where
  "fs_remove d p =
     (case resolve d p of
        Inl e \<Rightarrow> (Inr False, d)
      | Inr l \<Rightarrow>
          (case lookup (tree d) l of
             Some (Dir (e # es)) \<Rightarrow> (Inl ENOTEMPTY, d)
           | _ \<Rightarrow> map_prod (map_sum id (\<lambda>n. n > 0)) id (remove_path d p 0)))"

text \<open>Opening and writing an \<open>std::ofstream\<close>.\<close>

definition file_open_trunc :: "disk \<Rightarrow> path \<Rightarrow> (errno + unit) \<times> disk" where
  "file_open_trunc d p =
     (case node_at d p of
        Some (Dir es) \<Rightarrow> (Inl EISDIR, d)
      | _ \<Rightarrow>
          (case resolve_parent d p of
             Inl e \<Rightarrow> (Inl e, d)
           | Inr l \<Rightarrow> if plain_name (last_component p) \<and> \<not> ends_in_sep p
                      then (Inr (), d\<lparr>tree := put_entry l (last_component p) (File []) (tree d)\<rparr>)
                      else (Inl EISDIR, d)))"

definition file_append :: "disk \<Rightarrow> path \<Rightarrow> bytes \<Rightarrow> disk" where
  "file_append d p b =
     (case resolve_parent d p of
        Inl e \<Rightarrow> d
      | Inr l \<Rightarrow>
          (case lookup (tree d) (l @ [last_component p]) of
             Some (File c) \<Rightarrow> d\<lparr>tree := put_entry l (last_component p) (File (c @ b)) (tree d)\<rparr>
           | _ \<Rightarrow> d))"

definition file_open_append :: "disk \<Rightarrow> path \<Rightarrow> (errno + unit) \<times> disk" where
  "file_open_append d p =
     (case node_at d p of
        Some (File b) \<Rightarrow> (Inr (), d)
      | _ \<Rightarrow> file_open_trunc d p)"

definition read_file :: "disk \<Rightarrow> path \<Rightarrow> bytes option" where
  "read_file d p = (case node_at d p of Some (File b) \<Rightarrow> Some b | _ \<Rightarrow> None)"

section \<open>Refinement of the map of entries\<close>

lemma obs_Nil [simp]: "obs t [] = Some (entry_of t)"
  by (simp add: obs_def)

lemma obs_File_Cons [simp]: "obs (File b) (c # cs) = None"
  by (simp add: obs_def)

lemma obs_Dir_Cons: "obs (Dir es) (c # cs) = (case map_of es c of None \<Rightarrow> None | Some n \<Rightarrow> obs n cs)"
  by (simp add: obs_def split: option.splits)

lemma obs_Directory: "obs t l = Some Directory \<longleftrightarrow> (\<exists>es. lookup t l = Some (Dir es))"
  unfolding obs_def by (auto elim: entry_of.elims)

lemma obs_Regular: "obs t l = Some (Regular b) \<longleftrightarrow> lookup t l = Some (File b)"
  unfolding obs_def by (auto elim: entry_of.elims)

lemma obs_None: "obs t l = None \<longleftrightarrow> lookup t l = None"
  by (simp add: obs_def)

lemma map_of_map_at:
  "map_of (map (\<lambda>(n, x). (n, if n = c then f x else x)) es) k =
     (if k = c then map_option f (map_of es c) else map_of es k)"
  by (induction es) auto

lemma obs_map_dir:
  "obs (map_dir d f t) l =
     (case lookup t d of
        Some (Dir es) \<Rightarrow> if prefix d l then obs (Dir (f es)) (drop (length d) l) else obs t l
      | _ \<Rightarrow> obs t l)"
proof (induction d arbitrary: t l)
  case Nil
  then show ?case by (cases t) simp_all
next
  case (Cons c d)
  show ?case
  proof (cases t)
    case (File b)
    then show ?thesis by simp
  next
    case (Dir es)
    show ?thesis
    proof (cases l)
      case Nil
      with Dir show ?thesis by (simp split: option.splits node.splits)
    next
      case (Cons k ks)
      with Dir Cons.IH show ?thesis
        by (auto simp: obs_Dir_Cons map_of_map_at split: option.splits node.splits)
    qed
  qed
qed

lemma lookup_append:
  "lookup t (d @ r) = (case lookup t d of None \<Rightarrow> None | Some n \<Rightarrow> lookup n r)"
  by (induction d arbitrary: t) (auto split: node.splits option.splits)

lemma obs_append:
  "obs t (d @ r) = (case lookup t d of None \<Rightarrow> None | Some n \<Rightarrow> obs n r)"
  by (simp add: obs_def lookup_append split: option.splits)

lemma prefix_snoc_drop:
  "prefix (d @ [n]) l \<longleftrightarrow> prefix d l \<and> (\<exists>r. drop (length d) l = n # r)"
  by (auto simp: prefix_def)

lemma obs_put_entry:
  assumes "obs t d = Some Directory"
  shows "obs (put_entry d n x t) l =
           (if prefix (d @ [n]) l then obs x (drop (Suc (length d)) l) else obs t l)"
proof -
  obtain es where es: "lookup t d = Some (Dir es)" using assms obs_Directory by blast
  show ?thesis
  proof (cases "prefix d l")
    case True
    then obtain r where l: "l = d @ r" by (auto simp: prefix_def)
    show ?thesis
      using es assms obs_append [of t d r]
      by (cases r) (auto simp: l put_entry_def obs_map_dir AList.update_conv' obs_Dir_Cons)
  next
    case False
    then have "\<not> prefix (d @ [n]) l" by (auto simp: prefix_def)
    with False es show ?thesis by (simp add: put_entry_def obs_map_dir)
  qed
qed

lemma obs_del_entry:
  assumes "obs t d = Some Directory"
  shows "obs (del_entry d n t) l = (if prefix (d @ [n]) l then None else obs t l)"
proof -
  obtain es where es: "lookup t d = Some (Dir es)" using assms obs_Directory by blast
  show ?thesis
  proof (cases "prefix d l")
    case True
    then obtain r where l: "l = d @ r" by (auto simp: prefix_def)
    show ?thesis
      using es assms obs_append [of t d r]
      by (cases r) (auto simp: l del_entry_def obs_map_dir AList.delete_conv' obs_Dir_Cons)
  next
    case False
    then have "\<not> prefix (d @ [n]) l" by (auto simp: prefix_def)
    with False es show ?thesis by (simp add: del_entry_def obs_map_dir)
  qed
qed

lemma obs_clear_dir:
  assumes "obs t d = Some Directory"
  shows "obs (map_dir d (\<lambda>_. []) t) l = (if strict_prefix d l then None else obs t l)"
proof -
  obtain es where es: "lookup t d = Some (Dir es)" using assms obs_Directory by blast
  show ?thesis
  proof (cases "prefix d l")
    case True
    then obtain r where l: "l = d @ r" by (auto simp: prefix_def)
    show ?thesis
      using es assms by (cases r) (auto simp: l obs_map_dir obs_Dir_Cons strict_prefix_def)
  next
    case False
    with es show ?thesis by (simp add: obs_map_dir strict_prefix_def)
  qed
qed

lemma obs_parent:
  "obs t (d @ n # r) \<noteq> None \<Longrightarrow> obs t d = Some Directory"
  by (auto simp: lookup_append obs_def split: option.splits node.splits)

lemma obs_prefix_closed: "obs t l \<noteq> None \<Longrightarrow> prefix d l \<Longrightarrow> obs t d \<noteq> None"
  by (auto simp: prefix_def lookup_append obs_def split: option.splits)

text \<open>
  The interface the operations rely on: storing and deleting an entry of a directory changes
  the map of entries below that entry and nowhere else.
\<close>

locale entry_store =
  fixes entries :: "'t \<Rightarrow> loc \<Rightarrow> entry option"
    and sub :: "'x \<Rightarrow> loc \<Rightarrow> entry option"
    and put :: "loc \<Rightarrow> string \<Rightarrow> 'x \<Rightarrow> 't \<Rightarrow> 't"
    and del :: "loc \<Rightarrow> string \<Rightarrow> 't \<Rightarrow> 't"
  assumes entries_put: "entries t d = Some Directory \<Longrightarrow>
      entries (put d n x t) l = (if prefix (d @ [n]) l then sub x (drop (Suc (length d)) l) else entries t l)"
    and entries_del: "entries t d = Some Directory \<Longrightarrow>
      entries (del d n t) l = (if prefix (d @ [n]) l then None else entries t l)"
begin

lemma put_same: "entries t d = Some Directory \<Longrightarrow> entries (put d n x t) (d @ [n]) = sub x []"
  by (simp add: entries_put)

lemma put_frame: "entries t d = Some Directory \<Longrightarrow> \<not> prefix (d @ [n]) l \<Longrightarrow> entries (put d n x t) l = entries t l"
  by (simp add: entries_put)

lemma del_frame: "entries t d = Some Directory \<Longrightarrow> \<not> prefix (d @ [n]) l \<Longrightarrow> entries (del d n t) l = entries t l"
  by (simp add: entries_del)

lemma put_del:
  assumes "entries t d = Some Directory" and "entries t (d @ [n]) = None"
    and closed: "\<And>l. prefix (d @ [n]) l \<Longrightarrow> entries t l = None"
  shows "entries (del d n (put d n x t)) = entries t"
proof
  fix l
  have dir: "entries (put d n x t) d = Some Directory"
    using assms(1) by (simp add: entries_put)
  show "entries (del d n (put d n x t)) l = entries t l"
    using closed [of l] by (simp add: entries_del [OF dir] entries_put [OF assms(1)])
qed

lemma move_entries:
  assumes src: "entries t d = Some Directory" and dst: "entries t e = Some Directory"
    and outside: "\<not> prefix (d @ [n]) e"
  shows "entries (put e m x (del d n t)) l =
     (if prefix (e @ [m]) l then sub x (drop (Suc (length e)) l)
      else if prefix (d @ [n]) l then None else entries t l)"
proof -
  have "entries (del d n t) e = Some Directory"
    using src dst outside by (simp add: entries_del)
  then show ?thesis using src by (simp add: entries_put entries_del)
qed

end

interpretation tree_store: entry_store obs obs put_entry del_entry
  by unfold_locales (simp_all add: obs_put_entry obs_del_entry)

section \<open>Well-formed trees\<close>

lemma wf_Dir_map_of: "wf_node (Dir es) \<Longrightarrow> map_of es c = Some x \<Longrightarrow> wf_node x \<and> plain_name c"
  using map_of_SomeD [of es c x] by fastforce

lemma wf_map_dir:
  assumes "wf_node t" and f: "\<And>es. wf_node (Dir es) \<Longrightarrow> wf_node (Dir (f es))"
  shows "wf_node (map_dir d f t)"
  using assms(1)
proof (induction d arbitrary: t)
  case Nil
  show ?case
  proof (cases t)
    case (Dir es)
    with Nil f [of es] show ?thesis by simp
  qed simp
next
  case (Cons c d)
  show ?case
  proof (cases t)
    case (Dir es)
    with Cons show ?thesis by (auto simp: case_prod_unfold comp_def)
  qed simp
qed

lemma wf_put_entry:
  assumes "wf_node t" and "wf_node x" and "plain_name n"
  shows "wf_node (put_entry d n x t)"
  unfolding put_entry_def
proof (rule wf_map_dir [OF assms(1)])
  fix es
  assume wf: "wf_node (Dir es)"
  have "set (AList.update n x es) \<subseteq> insert (n, x) (set es)"
    by (induction es) (auto split: if_splits)
  then have "\<forall>p\<in>set (AList.update n x es). plain_name (fst p) \<and> wf_node (snd p)"
    using wf assms by fastforce
  with wf show "wf_node (Dir (AList.update n x es))"
    by (simp add: distinct_update)
qed

lemma wf_del_entry: "wf_node t \<Longrightarrow> wf_node (del_entry d n t)"
  unfolding del_entry_def
  by (rule wf_map_dir) (auto simp: AList.delete_eq distinct_map_filter)

lemma wf_lookup: "wf_node t \<Longrightarrow> lookup t l = Some x \<Longrightarrow> wf_node x"
proof (induction l arbitrary: t)
  case (Cons c l)
  then show ?case
    by (auto split: node.splits option.splits dest: wf_Dir_map_of)
qed simp

lemma wf_move_entry: "wf_node t \<Longrightarrow> wf_node x \<Longrightarrow> plain_name n \<Longrightarrow> wf_node (move_entry t src x l n)"
  by (simp add: move_entry_def wf_put_entry wf_del_entry)

section \<open>Resolution\<close>

lemma walk_append:
  "walk t cur (ws @ vs) = (case walk t cur ws of Inl e \<Rightarrow> Inl e | Inr l \<Rightarrow> walk t l vs)"
  by (induction t cur ws rule: walk.induct) (auto split: option.splits entry.splits)

lemma walk_exists:
  "walk t cur ws = Inr l \<Longrightarrow> obs t cur \<noteq> None \<Longrightarrow> obs t l \<noteq> None"
proof (induction t cur ws rule: walk.induct)
  case (2 t cur c cs)
  have "obs t (butlast cur) \<noteq> None" if "obs t cur \<noteq> None"
    using that by (rule obs_prefix_closed) (simp add: butlast_conv_take take_is_prefix)
  with 2 show ?case by (auto split: option.splits entry.splits if_splits)
qed simp

lemma walk_single_plain:
  "plain_name n \<Longrightarrow> obs t l = Some Directory \<Longrightarrow>
   walk t l [n] = (if obs t (l @ [n]) = None then Inl ENOENT else Inr (l @ [n]))"
  by (simp add: plain_name_def)

lemma walk_empty_component:
  assumes "vs \<noteq> []"
  shows "walk t cur (ws @ [] # vs) = walk t cur (ws @ vs)"
proof -
  obtain v vs' where "vs = v # vs'" using assms by (cases vs) auto
  then show ?thesis
    by (auto simp: walk_append split: sum.splits option.splits entry.splits)
qed

lemma split_path_append:
  assumes "p \<noteq> []" and "sep \<notin> set n"
  shows "split_on sep (path_append p n) =
    (if has_filename p then split_on sep p @ [n] else butlast (split_on sep p) @ [n])"
proof (cases "has_filename p")
  case True
  with assms show ?thesis
    by (cases n) (auto simp: path_append_def split_on_append_general split_on_no_sep)
next
  case False
  with assms(1) obtain q where p: "p = q @ [sep]"
    by (cases p rule: rev_cases) (auto simp: has_filename_def)
  from False assms have "path_append p n = q @ sep # n"
    by (cases n) (auto simp: path_append_def p)
  with False assms(2) show ?thesis
    by (simp add: p split_on_append_general split_on_no_sep)
qed

lemma start_dir_path_append: "p \<noteq> [] \<Longrightarrow> sep \<notin> set n \<Longrightarrow> start_dir d (path_append p n) = start_dir d p"
  by (cases p; cases n) (auto simp: start_dir_def path_append_def)

lemma resolve_path_append:
  assumes "p \<noteq> []" and "sep \<notin> set n"
  shows "resolve d (path_append p n) =
    (case resolve d p of Inl e \<Rightarrow> Inl e | Inr l \<Rightarrow> walk (tree d) l [n])"
proof -
  have ne: "path_append p n \<noteq> []" using assms by (auto simp: path_append_def)
  have "walk (tree d) (start_dir d p) (split_on sep (path_append p n)) =
        walk (tree d) (start_dir d p) (split_on sep p @ [n])"
  proof (cases "has_filename p")
    case True
    then show ?thesis by (simp only: split_path_append [OF assms] if_True)
  next
    case False
    have "last (split_on sep p) = []"
      using False assms(1) by (cases p rule: rev_cases) (auto simp: has_filename_def split_on_snoc)
    then have "split_on sep p = butlast (split_on sep p) @ [[]]"
      by (metis append_butlast_last_id split_on_nonempty)
    then have "walk (tree d) (start_dir d p) (split_on sep p @ [n]) =
        walk (tree d) (start_dir d p) (butlast (split_on sep p) @ [n])"
      using walk_empty_component [of "[n]" "tree d" "start_dir d p" "butlast (split_on sep p)"]
      by (metis append.assoc append_Cons append_Nil list.distinct(1))
    with False show ?thesis by (simp only: split_path_append [OF assms] if_False)
  qed
  then show ?thesis
    using assms ne by (simp only: resolve_def start_dir_path_append [OF assms] walk_append if_False)
qed

lemma strip_trailing_snoc: "w \<noteq> [] \<Longrightarrow> strip_trailing (ws @ [w]) = ws @ [w]"
  by (simp add: strip_trailing_def)

lemma last_component_path_append:
  assumes "p \<noteq> []" and "sep \<notin> set n" and "n \<noteq> []"
  shows "last_component (path_append p n) = n"
  using assms by (simp add: last_component_def split_path_append strip_trailing_snoc)

lemma walk_butlast_empty:
  assumes "walk t cur (ws @ [[]]) = Inr l"
  shows "walk t cur ws = Inr l"
  using assms by (auto simp: walk_append split: sum.splits option.splits entry.splits)

lemma resolve_parent_path_append:
  assumes "p \<noteq> []" and "sep \<notin> set n" and "n \<noteq> []"
    and "resolve d p = Inr l" and "obs (tree d) l = Some Directory"
  shows "resolve_parent d (path_append p n) = Inr l"
proof -
  have ne: "path_append p n \<noteq> []" using assms(1) by (auto simp: path_append_def)
  have walk: "walk (tree d) (start_dir d p) (split_on sep p) = Inr l"
    using assms(1,4) by (simp add: resolve_def)
  have "walk (tree d) (start_dir d p) (butlast (strip_trailing (split_on sep (path_append p n)))) = Inr l"
  proof (cases "has_filename p")
    case True
    with walk assms(1-3) show ?thesis
      by (simp add: split_path_append strip_trailing_snoc)
  next
    case False
    have "last (split_on sep p) = []"
      using False assms(1) by (cases p rule: rev_cases) (auto simp: has_filename_def split_on_snoc)
    then have "split_on sep p = butlast (split_on sep p) @ [[]]"
      by (metis append_butlast_last_id split_on_nonempty)
    with walk have "walk (tree d) (start_dir d p) (butlast (split_on sep p)) = Inr l"
      using walk_butlast_empty by metis
    with False assms(1-3) show ?thesis
      by (simp add: split_path_append strip_trailing_snoc)
  qed
  with ne assms show ?thesis
    by (simp add: resolve_parent_def start_dir_path_append)
qed

lemma walk_plain_names:
  "list_all plain_name ns \<Longrightarrow> obs t (cur @ ns) \<noteq> None \<Longrightarrow> walk t cur ns = Inr (cur @ ns)"
proof (induction ns arbitrary: cur)
  case Nil
  then show ?case by simp
next
  case (Cons n ns)
  have dir: "obs t cur = Some Directory" using Cons.prems(2) by (rule obs_parent)
  have ex: "obs t (cur @ [n]) \<noteq> None"
    using Cons.prems(2) by (rule obs_prefix_closed) simp
  from Cons.IH [of "cur @ [n]"] Cons.prems dir ex show ?case
    by (simp add: plain_name_def [of n])
qed

lemma resolve_canonical:
  assumes "list_all plain_name l" and "obs (tree d) l \<noteq> None" and "obs (tree d) [] = Some Directory"
  shows "resolve d (canonical_of l) = Inr l"
proof -
  have no_sep: "\<forall>w\<in>set l. sep \<notin> set w"
    using assms(1) by (auto simp: plain_name_def list_all_iff)
  have "split_on sep (canonical_of l) = [] # (if l = [] then [[]] else l)"
    using split_on_join [OF _ no_sep] by (simp add: canonical_of_def)
  then show ?thesis
    using assms walk_plain_names [of l "tree d" "[]"]
    by (auto simp: resolve_def canonical_of_def start_dir_def)
qed

lemma fs_exists_resolve:
  assumes "obs (tree d) (start_dir d p) \<noteq> None"
  shows "fs_exists d p \<longleftrightarrow> (\<exists>l. resolve d p = Inr l)"
  using walk_exists [of "tree d" "start_dir d p" "split_on sep p"] assms
  by (auto simp: fs_exists_def node_at_def resolve_def obs_None split: sum.splits)

lemma obs_root_abs: "obs (tree d) [] \<noteq> None"
  by simp

section \<open>Files that are open for writing\<close>

text \<open>\<open>opened d p l c\<close>: the path names the regular file of content \<open>c\<close> in the directory \<open>l\<close>.\<close>

definition opened :: "disk \<Rightarrow> path \<Rightarrow> loc \<Rightarrow> bytes \<Rightarrow> bool" where
  "opened d p l c \<longleftrightarrow> resolve_parent d p = Inr l \<and> plain_name (last_component p) \<and> \<not> ends_in_sep p \<and>
     obs (tree d) (l @ [last_component p]) = Some (Regular c)"

lemma walk_dirs_mono:
  assumes "\<And>k. obs t k = Some Directory \<Longrightarrow> obs t' k = Some Directory"
  shows "walk t cur ws = Inr l \<Longrightarrow> obs t l = Some Directory \<Longrightarrow> walk t' cur ws = Inr l"
proof (induction ws arbitrary: cur)
  case (Cons w ws)
  then have cur: "obs t cur = Some Directory" by (auto split: option.splits entry.splits)
  then have cur': "obs t' cur = Some Directory" by (rule assms)
  have "obs t (cur @ [w]) = Some Directory"
    if "walk t (cur @ [w]) ws = Inr l" and "obs t (cur @ [w]) \<noteq> None"
    using that Cons.prems(2) by (cases ws) (auto split: option.splits entry.splits)
  with Cons cur cur' assms show ?case by (auto split: if_splits)
qed simp

lemma parent_components:
  assumes "plain_name (last_component p)" and "\<not> ends_in_sep p"
  shows "split_on sep p = butlast (strip_trailing (split_on sep p)) @ [last_component p]"
proof -
  have "p \<noteq> []" using assms(1) by (auto simp: last_component_def strip_trailing_def plain_name_def)
  then have "last (split_on sep p) \<noteq> []" using assms(2) by (simp add: last_split_on ends_in_sep_def hd_rev
    takeWhile_eq_Nil_iff)
  moreover obtain ws w where sp: "split_on sep p = ws @ [w]" by (metis rev_exhaust split_on_nonempty)
  ultimately have "w \<noteq> []" by simp
  with sp show ?thesis by (simp add: strip_trailing_snoc last_component_def)
qed

lemma resolve_via_parent:
  assumes "plain_name (last_component p)" and "\<not> ends_in_sep p" and "resolve_parent d p = Inr l"
  shows "resolve d p = (if obs (tree d) (l @ [last_component p]) = None then Inl ENOENT
                        else Inr (l @ [last_component p]))" and "obs (tree d) l = Some Directory"
proof -
  show dir: "obs (tree d) l = Some Directory"
    using assms(3) by (auto simp: resolve_parent_def split: if_splits sum.splits option.splits entry.splits)
  have "p \<noteq> []" and "walk (tree d) (start_dir d p) (butlast (strip_trailing (split_on sep p))) = Inr l"
    using assms(3) by (auto simp: resolve_parent_def split: if_splits sum.splits option.splits entry.splits)
  then show "resolve d p = (if obs (tree d) (l @ [last_component p]) = None then Inl ENOENT
                        else Inr (l @ [last_component p]))"
    using dir walk_single_plain [OF assms(1) dir] arg_cong [OF parent_components [OF assms(1,2)],
        of "walk (tree d) (start_dir d p)"]
    by (simp add: resolve_def walk_append del: walk.simps)
qed

lemma opened_lookup: "opened d p l c \<Longrightarrow> lookup (tree d) (l @ [last_component p]) = Some (File c)"
  by (simp add: opened_def obs_Regular)

lemma opened_read_file: "opened d p l c \<Longrightarrow> read_file d p = Some c"
  using resolve_via_parent(1) [of p d l] opened_lookup [of d p l c]
  by (simp add: opened_def read_file_def node_at_def)

lemma resolve_parent_put:
  assumes "resolve_parent d p = Inr l" and "obs (tree d) k = Some Directory"
    and "obs (tree d) (k @ [n]) \<noteq> Some Directory"
  shows "resolve_parent (d\<lparr>tree := put_entry k n x (tree d)\<rparr>) p = Inr l"
proof -
  have mono: "obs (put_entry k n x (tree d)) j = Some Directory" if j: "obs (tree d) j = Some Directory" for j
  proof -
    have "\<not> prefix (k @ [n]) j"
    proof
      assume pre: "prefix (k @ [n]) j"
      then have "k @ [n] = j \<or> (\<exists>m r. j = (k @ [n]) @ m # r)"
        by (auto simp: prefix_def) (metis append_Nil2 list.exhaust)
      with j assms(3) obs_parent [of "tree d" "k @ [n]"] show False by auto
    qed
    with j show ?thesis by (simp add: obs_put_entry [OF assms(2)])
  qed
  have w: "p \<noteq> []" "walk (tree d) (start_dir d p) (butlast (strip_trailing (split_on sep p))) = Inr l"
    and dir: "obs (tree d) l = Some Directory"
    using assms(1) by (auto simp: resolve_parent_def split: if_splits sum.splits option.splits entry.splits)
  have "walk (put_entry k n x (tree d)) (start_dir d p) (butlast (strip_trailing (split_on sep p))) = Inr l"
    using walk_dirs_mono [OF mono w(2) dir] .
  with w(1) mono [OF dir] show ?thesis by (auto simp: resolve_parent_def start_dir_def)
qed

lemma opened_put:
  assumes "resolve_parent d p = Inr l" and "plain_name (last_component p)" and "\<not> ends_in_sep p"
    and "obs (tree d) (l @ [last_component p]) \<noteq> Some Directory"
  shows "opened (d\<lparr>tree := put_entry l (last_component p) (File c) (tree d)\<rparr>) p l c"
  using resolve_parent_put [OF assms(1) resolve_via_parent(2) [OF assms(2,3,1)] assms(4)] assms(2,3)
    obs_put_entry [OF resolve_via_parent(2) [OF assms(2,3,1)]]
  by (simp add: opened_def)

lemma opened_append: "opened d p l c \<Longrightarrow> opened (file_append d p b) p l (c @ b)"
  using opened_put [of d p l "c @ b"] opened_lookup [of d p l c]
  by (simp add: opened_def file_append_def)

lemma open_trunc_opened:
  assumes "file_open_trunc d p = (Inr (), d')"
  obtains l where "opened d' p l []" and "d' = d\<lparr>tree := put_entry l (last_component p) (File []) (tree d)\<rparr>"
    and "resolve_parent d p = Inr l" and "\<not> fs_is_directory d p"
proof -
  obtain l where l: "resolve_parent d p = Inr l" "plain_name (last_component p)" "\<not> ends_in_sep p"
    "d' = d\<lparr>tree := put_entry l (last_component p) (File []) (tree d)\<rparr>"
    and nodir: "\<forall>es. node_at d p \<noteq> Some (Dir es)"
    using assms by (auto simp: file_open_trunc_def split: option.splits node.splits sum.splits if_splits)
  have "obs (tree d) (l @ [last_component p]) \<noteq> Some Directory"
    using nodir resolve_via_parent(1) [OF l(2,3,1)] by (auto simp: node_at_def obs_Directory obs_None)
  with that l opened_put [OF l(1-3), of "[]"] nodir show thesis
    by (auto simp: fs_is_directory_def split: option.splits node.splits)
qed

lemma write_whole_file:
  "file_open_trunc d p = (Inr (), d') \<Longrightarrow> read_file (file_append d' p b) p = Some b"
  by (metis append_Nil open_trunc_opened opened_append opened_read_file)

section \<open>Finiteness\<close>

lemma finite_locations: "finite {l. lookup t l \<noteq> None}"
proof (induction t)
  case (File b)
  have "l = []" if "lookup (File b) l \<noteq> None" for l using that by (cases l) auto
  then have "{l. lookup (File b) l \<noteq> None} \<subseteq> {[]}" by blast
  then show ?case using finite_subset by blast
next
  case (Dir es)
  have "{l. lookup (Dir es) l \<noteq> None} \<subseteq> {[]} \<union> (\<Union>p\<in>set es. (#) (fst p) ` {l. lookup (snd p) l \<noteq> None})"
  proof
    fix l
    assume "l \<in> {l. lookup (Dir es) l \<noteq> None}"
    then show "l \<in> {[]} \<union> (\<Union>p\<in>set es. (#) (fst p) ` {l. lookup (snd p) l \<noteq> None})"
      by (cases l) (auto 0 3 split: option.splits dest!: map_of_SomeD intro!: bexI [of _ "(_, _)"])
  qed
  moreover have "finite (\<Union>p\<in>set es. (#) (fst p) ` {l. lookup (snd p) l \<noteq> None})"
    using Dir by (fastforce simp: snds.simps)
  ultimately show ?case using finite_subset by blast
qed

lemma split_on_append_word:
  "c \<notin> set s \<Longrightarrow> split_on c (q @ s) = butlast (split_on c q) @ [last (split_on c q) @ s]"
  by (induction q) (auto simp: split_on_no_sep split: list.splits)

lemma resolve_last_word:
  assumes "plain_name (last (split_on sep q) @ s)" and "sep \<notin> set s" and "resolve d (q @ s) = Inr l"
  shows "l \<noteq> []" and "last l = last (split_on sep q) @ s"
proof -
  let ?w = "last (split_on sep q) @ s"
  have "walk (tree d) (start_dir d (q @ s)) (butlast (split_on sep q) @ [?w]) = Inr l"
    using assms(3) by (simp add: resolve_def split_on_append_word [OF assms(2)] split: if_splits)
  then obtain k where "walk (tree d) k [?w] = Inr l" by (auto simp: walk_append split: sum.splits)
  with assms(1) have "l = k @ [?w]" by (auto simp: plain_name_def split: option.splits entry.splits if_splits)
  then show "l \<noteq> []" and "last l = ?w" by simp_all
qed

section \<open>Appending in pieces\<close>

lemma map_dir_twice: "map_dir d f (map_dir d g t) = map_dir d (f \<circ> g) t"
proof (induction d arbitrary: t)
  case Nil
  then show ?case by (cases t) simp_all
next
  case (Cons c d)
  then show ?case by (cases t) (simp_all add: case_prod_unfold comp_def)
qed

lemma update_twice: "AList.update n x (AList.update n y es) = AList.update n x es"
  by (induction es) auto

lemma put_entry_twice: "put_entry l n x (put_entry l n y t) = put_entry l n x t"
  by (simp add: put_entry_def map_dir_twice comp_def update_twice)

lemma file_append_opened:
  "opened d p l c \<Longrightarrow> file_append d p a = d\<lparr>tree := put_entry l (last_component p) (File (c @ a)) (tree d)\<rparr>"
  using opened_lookup [of d p l c] by (simp add: opened_def file_append_def)

lemma file_append_pieces:
  assumes "opened d p l c"
  shows "file_append (file_append d p a) p b = file_append d p (a @ b)"
  using file_append_opened [OF opened_append [OF assms]] 
  by (simp add: file_append_opened [OF assms] put_entry_twice)

section \<open>Renaming a file\<close>

lemma below_file: "obs t k = Some Directory \<Longrightarrow> obs t l = Some (Regular c) \<Longrightarrow> \<not> prefix l k"
proof
  assume "obs t k = Some Directory" "obs t l = Some (Regular c)" "prefix l k"
  moreover from this obtain r where "k = l @ r" by (auto simp: prefix_def)
  ultimately show False using obs_parent [of t l] by (cases r) auto
qed

lemma nothing_below_file:
  assumes "obs t f = Some (Regular c)" and "prefix f x" and "x \<noteq> f"
  shows "obs t x = None"
proof -
  obtain n r where "x = f @ n # r" using assms(2,3) by (auto simp: prefix_def) (metis append_Nil2 list.exhaust)
  then show ?thesis using obs_parent [of t f n r] assms(1) by fastforce
qed

lemma obs_of_file:
  assumes "prefix (k @ [n]) x"
  shows "obs (File b) (drop (Suc (length k)) x) = (if x = k @ [n] then Some (Regular b) else None)"
proof -
  obtain r where "x = k @ n # r" using assms by (auto simp: prefix_def)
  then show ?thesis by (cases r) auto
qed

lemma fs_rename_file:
  assumes "opened d p l c" and "resolve_parent d q = Inr k" and "plain_name (last_component q)" and "\<not> ends_in_sep q"
    and "obs (tree d) (k @ [last_component q]) = None"
  shows "\<exists>t. fs_rename d p q = (None, d\<lparr>tree := t\<rparr>) \<and>
    obs t = (obs (tree d))(l @ [last_component p] := None, k @ [last_component q] \<mapsto> Regular c)"
proof -
  let ?src = "l @ [last_component p]" and ?dst = "k @ [last_component q]"
  have p: "plain_name (last_component p)" "\<not> ends_in_sep p" "resolve_parent d p = Inr l" "obs (tree d) ?src = Some (Regular c)"
    using assms(1) by (simp_all add: opened_def)
  have dirs: "obs (tree d) l = Some Directory" "obs (tree d) k = Some Directory"
    using resolve_via_parent(2) [OF p(1-3)] resolve_via_parent(2) [OF assms(3,4,2)] by simp_all
  have src: "resolve d p = Inr ?src" "lookup (tree d) ?src = Some (File c)"
    using resolve_via_parent(1) [OF p(1-3)] p(4) by (simp_all add: obs_Regular)
  have apart: "\<not> prefix ?src k" using below_file [OF dirs(2) p(4)] .
  have ne: "?dst \<noteq> ?src" using assms(5) p(4) by (metis option.distinct(1))
  then have out: "\<not> prefix ?src ?dst" using apart by (metis append_butlast_last_id butlast_snoc prefix_snoc)
  have none: "lookup (tree d) ?dst = None" using assms(5) by (simp add: obs_None)
  let ?t = "move_entry (tree d) ?src (File c) k (last_component q)"
  have run: "fs_rename d p q = (None, d\<lparr>tree := ?t\<rparr>)"
    using src none assms(2,3,4) p(1) ne out by (auto simp: fs_rename_def Let_def rename_onto_def)
  have "obs ?t x = ((obs (tree d))(?src := None, ?dst \<mapsto> Regular c)) x" for x
  proof -
    have "obs (tree d) x = None" if "prefix ?dst x"
      using obs_prefix_closed [of "tree d" x] that assms(5) by blast
    moreover have "obs (tree d) x = None" if "prefix ?src x" "x \<noteq> ?src"
      using nothing_below_file [OF p(4) that] .
    moreover note obs_of_file [of k "last_component q" x c]
    ultimately show ?thesis
      using tree_store.move_entries [OF dirs apart, of "last_component q" "File c" x] out ne
      by (auto simp: move_entry_def)
  qed
  then show ?thesis using run by blast
qed


lemma file_append_obs:
  assumes "opened d p l c"
  shows "obs (tree (file_append d p b)) = (obs (tree d))(l @ [last_component p] \<mapsto> Regular (c @ b))"
proof -
  let ?f = "l @ [last_component p]"
  have dir: "obs (tree d) l = Some Directory" using assms resolve_via_parent(2) by (auto simp: opened_def)
  have reg: "obs (tree d) ?f = Some (Regular c)" using assms by (simp add: opened_def)
  show ?thesis
    using nothing_below_file [OF reg] obs_of_file [of l "last_component p" _ "c @ b"]
    by (auto simp: file_append_opened [OF assms] obs_put_entry [OF dir] fun_eq_iff)
qed

lemma resolve_parent_append:
  assumes "opened d p l c" and "resolve_parent d q = Inr k"
  shows "resolve_parent (file_append d p b) q = Inr k"
  using assms resolve_via_parent(2) [of p d l] resolve_parent_put [OF assms(2), of l "last_component p"]
  by (auto simp: file_append_opened [OF assms(1)] opened_def)

lemma wf_plain_names: "wf_node t \<Longrightarrow> lookup t l \<noteq> None \<Longrightarrow> list_all plain_name l"
proof (induction l arbitrary: t)
  case (Cons c l)
  then obtain es n where t: "t = Dir es" "map_of es c = Some n" "lookup n l \<noteq> None"
    by (cases t) (auto split: option.splits)
  with wf_Dir_map_of [of es c n] Cons.prems(1) Cons.IH [of n] show ?case by simp
qed simp

lemma create_directory_run:
  assumes "resolve d p = Inr l" and "obs (tree d) l = Some Directory" and "p \<noteq> []" and "plain_name n"
    and "obs (tree d) (l @ [n]) = None"
  shows "\<not> fs_exists d (path_append p n) \<and>
    (\<exists>d'. fs_create_directory d (path_append p n) = (Inr True, d') \<and> working_dir d' = working_dir d \<and>
      obs (tree d') = (obs (tree d))(l @ [n] \<mapsto> Directory))"
proof -
  have n: "n \<noteq> []" "sep \<notin> set n" using assms(4) by (auto simp: plain_name_def)
  have par: "resolve_parent d (path_append p n) = Inr l" by (rule resolve_parent_path_append [OF assms(3) n(2,1) assms(1,2)])
  have last: "last_component (path_append p n) = n" by (rule last_component_path_append [OF assms(3) n(2,1)])
  have "resolve d (path_append p n) = Inl ENOENT"
    using resolve_path_append [OF assms(3) n(2)] assms(1) walk_single_plain [OF assms(4,2)] assms(5) by simp
  then have none: "node_at d (path_append p n) = None" by (simp add: node_at_def)
  let ?d = "d\<lparr>tree := put_entry l n (Dir []) (tree d)\<rparr>"
  have "obs (tree ?d) = (obs (tree d))(l @ [n] \<mapsto> Directory)"
  proof
    fix x
    have "obs (tree d) x = None" if "prefix (l @ [n]) x" using obs_prefix_closed [of "tree d" x] that assms(5) by blast
    moreover have "obs (Dir []) (drop (Suc (length l)) x) = (if x = l @ [n] then Some Directory else None)" if pre: "prefix (l @ [n]) x"
    proof -
      from pre obtain r where "x = l @ n # r" by (auto simp: prefix_def)
      then show ?thesis by (cases r) (auto simp: obs_Dir_Cons)
    qed
    ultimately show "obs (tree ?d) x = ((obs (tree d))(l @ [n] \<mapsto> Directory)) x"
      by (auto simp: obs_put_entry [OF assms(2)])
  qed
  moreover have "fs_create_directory d (path_append p n) = (Inr True, ?d)"
    using none par last assms(4) by (simp add: fs_create_directory_def)
  ultimately show ?thesis using none by (auto simp: fs_exists_def)
qed

lemma walk_mono: "walk t cur ws = Inr l \<Longrightarrow> obs t \<subseteq>\<^sub>m obs t' \<Longrightarrow> walk t' cur ws = Inr l"
proof (induction ws arbitrary: cur)
  case (Cons c ws)
  have le: "obs t x = Some y \<Longrightarrow> obs t' x = Some y" for x y
    using Cons.prems(2) by (auto simp: map_le_def dom_def)
  from Cons.prems(1) have dir: "obs t cur = Some Directory"
    by (auto split: option.splits entry.splits)
  with le have "obs t' cur = Some Directory" by blast
  with dir Cons le show ?case by (auto split: if_splits)
qed simp

lemma resolve_mono:
  "resolve d p = Inr l \<Longrightarrow> obs (tree d) \<subseteq>\<^sub>m obs (tree d') \<Longrightarrow> working_dir d' = working_dir d \<Longrightarrow> resolve d' p = Inr l"
  by (auto simp: resolve_def start_dir_def split: if_splits intro: walk_mono)

lemma canonical_nonempty: "canonical_of l \<noteq> []"
  by (simp add: canonical_of_def)

end
