(* ===== verification/User_Table.thy ===== *)
theory User_Table
  imports Permissions Filesystem
begin

text \<open>
  The table of users (\<open>user_table.hpp\<close>, \<open>user_table.cpp\<close>) and the password hash
  (\<open>hash.cpp\<close>). The hash function of the C library and the TOML library are inputs: \<open>crypt\<close>
  gives the hash of a word under a salt, or the error number of a null result; \<open>toml_parse\<close> and
  \<open>toml_print\<close> read and write TOML documents. The table refines a map from names to password
  hashes and permissions.
\<close>

section \<open>Inputs\<close>

type_synonym crypt_fn = "string \<Rightarrow> string \<Rightarrow> nat + string"

datatype toml =
    Toml_string string
  | Toml_integer int
  | Toml_boolean bool
  | Toml_array "toml list"
  | Toml_table "(string \<times> toml) list"

type_synonym toml_reader = "bytes \<Rightarrow> (string \<times> toml) list option"
type_synonym toml_writer = "(string \<times> toml) list \<Rightarrow> bytes"

section \<open>Password hashes\<close>

definition salt_chars :: string where
  "salt_chars = ''abcdefghijklmnopqrstuvwxyzABCDEFGHIJKLMNOPQRSTUVWXYZ0123456789./''"

definition c_str :: "string \<Rightarrow> string" where
  "c_str s = takeWhile (\<lambda>c. c \<noteq> CHR 0x00) s"

definition make_salt :: "string \<Rightarrow> string" where
  "make_salt str =
     (if length str \<ge> 2 then
        (let first = char_code (hd str); lst = char_code (last str)
         in [salt_chars ! ((first XOR lst) mod length salt_chars),
             salt_chars ! ((first * lst) mod length salt_chars)])
      else ''.0'')"

definition hash :: "crypt_fn \<Rightarrow> string \<Rightarrow> exn + string" where
  "hash crypt word =
     (case crypt (c_str word) (make_salt word) of
        Inl errno \<Rightarrow> Inl (SystemError errno ''linux::hash'')
      | Inr h \<Rightarrow> Inr h)"

section \<open>The table\<close>

record UserData =
  m_name :: string
  m_password_hash :: string
  m_perms :: Permissions

record UserTable =
  m_users_file :: path
  m_users :: "UserData list"

definition max_username_length :: nat where "max_username_length = 40"
definition max_password_length :: nat where "max_password_length = 40"

definition is_char_ok :: "char \<Rightarrow> bool" where
  "is_char_ok symbol \<longleftrightarrow>
     in_char_range CHR ''a'' CHR ''z'' symbol \<or> in_char_range CHR ''A'' CHR ''Z'' symbol \<or>
     in_char_range CHR ''0'' CHR ''9'' symbol \<or> symbol = CHR ''_''"

definition is_username_ok :: "string \<Rightarrow> bool" where
  "is_username_ok username \<longleftrightarrow> length username \<le> max_username_length \<and> list_all is_char_ok username"

definition is_password_ok :: "string \<Rightarrow> bool" where
  "is_password_ok password \<longleftrightarrow> length password \<le> max_password_length"

definition no_such_user :: "string \<Rightarrow> exn" where
  "no_such_user username =
     RuntimeError (''user '' @ [apostrophe] @ username @ [apostrophe] @ '' does not exist'')"

definition has_user :: "UserTable \<Rightarrow> string \<Rightarrow> bool" where
  "has_user t username \<longleftrightarrow> find (\<lambda>u. m_name u = username) (m_users t) \<noteq> None"

definition get_user :: "UserTable \<Rightarrow> string \<Rightarrow> exn + UserData" where
  "get_user t username =
     (case find (\<lambda>u. m_name u = username) (m_users t) of
        Some u \<Rightarrow> Inr u | None \<Rightarrow> Inl (no_such_user username))"

text \<open>Writing through the reference \<open>get_user\<close> returns changes the first entry of that name.\<close>

primrec update_first :: "string \<Rightarrow> (UserData \<Rightarrow> UserData) \<Rightarrow> UserData list \<Rightarrow> UserData list" where
  "update_first username f [] = []"
| "update_first username f (u # us) =
     (if m_name u = username then f u # us else u # update_first username f us)"

definition add_user :: "crypt_fn \<Rightarrow> UserTable \<Rightarrow> string \<Rightarrow> string \<Rightarrow> exn + UserTable" where
  "add_user crypt t username password =
     (if \<not> has_user t username then
        (case hash crypt password of
           Inl e \<Rightarrow> Inl e
         | Inr h \<Rightarrow> Inr (t\<lparr>m_users := m_users t @
             [\<lparr>m_name = username, m_password_hash = h, m_perms = perm_initial\<rparr>]\<rparr>))
      else Inr t)"

definition remove_user :: "UserTable \<Rightarrow> string \<Rightarrow> exn + UserTable" where
  "remove_user t username =
     (if has_user t username then Inr (t\<lparr>m_users := filter (\<lambda>u. m_name u \<noteq> username) (m_users t)\<rparr>)
      else Inl (no_such_user username))"

definition get_password_hash_of_user :: "UserTable \<Rightarrow> string \<Rightarrow> exn + string" where
  "get_password_hash_of_user t username = map_sum id m_password_hash (get_user t username)"

definition verify_password_of_user :: "crypt_fn \<Rightarrow> UserTable \<Rightarrow> string \<Rightarrow> string \<Rightarrow> exn + bool" where
  "verify_password_of_user crypt t username password =
     (case hash crypt password of
        Inl e \<Rightarrow> Inl e
      | Inr h \<Rightarrow> map_sum id (\<lambda>u. h = m_password_hash u) (get_user t username))"

definition set_password_of_user :: "crypt_fn \<Rightarrow> UserTable \<Rightarrow> string \<Rightarrow> string \<Rightarrow> exn + UserTable" where
  "set_password_of_user crypt t username new_password =
     (case hash crypt new_password of
        Inl e \<Rightarrow> Inl e
      | Inr h \<Rightarrow> (case get_user t username of
                   Inl e \<Rightarrow> Inl e
                 | Inr u \<Rightarrow> Inr (t\<lparr>m_users := update_first username (\<lambda>u. u\<lparr>m_password_hash := h\<rparr>) (m_users t)\<rparr>)))"

definition get_perms_of_user :: "UserTable \<Rightarrow> string \<Rightarrow> exn + Permissions" where
  "get_perms_of_user t username = map_sum id m_perms (get_user t username)"

definition set_perms_of_user :: "UserTable \<Rightarrow> string \<Rightarrow> Permissions \<Rightarrow> exn + UserTable" where
  "set_perms_of_user t username new_perms =
     (case get_user t username of
        Inl e \<Rightarrow> Inl e
      | Inr u \<Rightarrow> Inr (t\<lparr>m_users := update_first username (\<lambda>u. u\<lparr>m_perms := new_perms\<rparr>) (m_users t)\<rparr>))"

section \<open>The users file\<close>

definition create_toml_user :: "UserData \<Rightarrow> toml" where
  "create_toml_user u =
     Toml_table [(''name'', Toml_string (m_name u)), (''passwd'', Toml_string (m_password_hash u)),
       (''perms'', Toml_string (perms_to_string (m_perms u)))]"

definition create_toml_table :: "UserTable \<Rightarrow> (string \<times> toml) list" where
  "create_toml_table t = [(''users'', Toml_array (map create_toml_user (m_users t)))]"

definition commit_table :: "toml_writer \<Rightarrow> UserTable \<Rightarrow> disk \<Rightarrow> (exn + unit) \<times> disk" where
  "commit_table toml_print t d =
     (case file_open_trunc d (m_users_file t) of
        (Inl e, d') \<Rightarrow>
          (Inl (RuntimeError (''failed to open output file ('' @ m_users_file t @ '')'')), d')
      | (Inr _, d') \<Rightarrow> (Inr (), file_append d' (m_users_file t) (toml_print (create_toml_table t))))"

fun toml_as_string :: "toml option \<Rightarrow> string option" where
  "toml_as_string (Some (Toml_string s)) = Some s"
| "toml_as_string _ = None"

definition invalid_user_field :: "string \<Rightarrow> exn" where
  "invalid_user_field f =
     RuntimeError (''invalid required filed '' @ [apostrophe] @ f @ [apostrophe])"

definition fetch_one_user :: "(string \<times> toml) list \<Rightarrow> exn + UserData" where
  "fetch_one_user tab =
     (case toml_as_string (map_of tab ''name'') of
        None \<Rightarrow> Inl (invalid_user_field ''name'')
      | Some n \<Rightarrow>
     (case toml_as_string (map_of tab ''passwd'') of
        None \<Rightarrow> Inl (invalid_user_field ''passwd'')
      | Some h \<Rightarrow>
     (case toml_as_string (map_of tab ''perms'') of
        None \<Rightarrow> Inl (invalid_user_field ''perms'')
      | Some p \<Rightarrow> map_sum id (\<lambda>perms. \<lparr>m_name = n, m_password_hash = h, m_perms = perms\<rparr>)
                   (perms_from_string p))))"

primrec fetch_users :: "toml list \<Rightarrow> UserTable \<Rightarrow> exn + UserTable" where
  "fetch_users [] t = Inr t"
| "fetch_users (x # xs) t =
     (case x of
        Toml_table tab \<Rightarrow>
          (case fetch_one_user tab of
             Inl e \<Rightarrow> Inl e
           | Inr u \<Rightarrow> fetch_users xs (t\<lparr>m_users := m_users t @ [u]\<rparr>))
      | _ \<Rightarrow> Inl (RuntimeError ''invalid user''))"

definition fetch_table :: "toml_reader \<Rightarrow> disk \<Rightarrow> UserTable \<Rightarrow> exn + UserTable" where
  "fetch_table toml_parse d t =
     (case Option.bind (read_file d (m_users_file t)) toml_parse of
        None \<Rightarrow> Inl (RuntimeError ''toml::parse_error'')
      | Some tab \<Rightarrow>
          (case map_of tab ''users'' of
             Some (Toml_array xs) \<Rightarrow> fetch_users xs t
           | _ \<Rightarrow> Inl (RuntimeError (''TOML object '' @ [apostrophe] @ ''users'' @ [apostrophe] @ '' is invalid''))))"

definition open_table :: "toml_reader \<Rightarrow> disk \<Rightarrow> path \<Rightarrow> UserTable \<Rightarrow> exn + UserTable" where
  "open_table toml_parse d users_file t = fetch_table toml_parse d (t\<lparr>m_users_file := users_file\<rparr>)"

definition empty_table :: UserTable where
  "empty_table = \<lparr>m_users_file = [], m_users = []\<rparr>"


section \<open>Refinement of a map\<close>

definition users_map :: "UserTable \<Rightarrow> string \<Rightarrow> (string \<times> Permissions) option" where
  "users_map t = map_of (map (\<lambda>u. (m_name u, m_password_hash u, m_perms u)) (m_users t))"

definition wf_table :: "UserTable \<Rightarrow> bool" where
  "wf_table t \<longleftrightarrow> distinct (map m_name (m_users t))"

text \<open>
  The interface the server and the administration commands rely on: a store of users seen as
  a map, whose changes touch the named user only and fail exactly when the user is missing.
\<close>

locale user_store =
  fixes view :: "'t \<Rightarrow> string \<Rightarrow> (string \<times> Permissions) option"
    and valid :: "'t \<Rightarrow> bool"
    and add :: "string \<Rightarrow> string \<Rightarrow> 't \<Rightarrow> exn + 't"
    and remove :: "string \<Rightarrow> 't \<Rightarrow> exn + 't"
    and set_hash :: "string \<Rightarrow> string \<Rightarrow> 't \<Rightarrow> exn + 't"
    and set_perms :: "string \<Rightarrow> Permissions \<Rightarrow> 't \<Rightarrow> exn + 't"
  assumes add_new: "valid t \<Longrightarrow> view t n = None \<Longrightarrow>
        \<exists>t'. add n h t = Inr t' \<and> valid t' \<and> view t' = (view t)(n \<mapsto> (h, perm_initial))"
    and add_old: "valid t \<Longrightarrow> view t n \<noteq> None \<Longrightarrow> add n h t = Inr t"
    and remove_old: "valid t \<Longrightarrow> view t n \<noteq> None \<Longrightarrow>
        \<exists>t'. remove n t = Inr t' \<and> valid t' \<and> view t' = (view t)(n := None)"
    and remove_new: "view t n = None \<Longrightarrow> \<exists>e. remove n t = Inl e"
    and set_hash_old: "valid t \<Longrightarrow> view t n = Some (h, p) \<Longrightarrow>
        \<exists>t'. set_hash n k t = Inr t' \<and> valid t' \<and> view t' = (view t)(n \<mapsto> (k, p))"
    and set_perms_old: "valid t \<Longrightarrow> view t n = Some (h, p) \<Longrightarrow>
        \<exists>t'. set_perms n q t = Inr t' \<and> valid t' \<and> view t' = (view t)(n \<mapsto> (h, q))"
begin

lemma add_then_remove:
  assumes "valid t" and "view t n = None"
  shows "\<exists>t1 t2. add n h t = Inr t1 \<and> remove n t1 = Inr t2 \<and> view t2 = view t"
proof -
  obtain t1 where t1: "add n h t = Inr t1" "valid t1" "view t1 = (view t)(n \<mapsto> (h, perm_initial))"
    using add_new [OF assms] by blast
  then obtain t2 where "remove n t1 = Inr t2" "view t2 = (view t1)(n := None)"
    using remove_old [of t1 n] by auto
  with t1 assms(2) show ?thesis by (auto simp: fun_upd_idem)
qed

lemma set_hash_set_perms_commute:
  assumes "valid t" and "view t n = Some (h, p)"
  shows "\<exists>t1 t2. set_hash n k t = Inr t1 \<and> set_perms n q t1 = Inr t2 \<and> view t2 = (view t)(n \<mapsto> (k, q))"
proof -
  obtain t1 where t1: "set_hash n k t = Inr t1" "valid t1" "view t1 = (view t)(n \<mapsto> (k, p))"
    using set_hash_old [OF assms] by blast
  then obtain t2 where "set_perms n q t1 = Inr t2" "view t2 = (view t1)(n \<mapsto> (k, q))"
    using set_perms_old [of t1 n k p q] by auto
  with t1 show ?thesis by auto
qed

end

lemma users_map_find:
  "users_map t n = map_option (\<lambda>u. (m_password_hash u, m_perms u)) (find (\<lambda>u. m_name u = n) (m_users t))"
proof -
  have "map_of (map (\<lambda>u. (m_name u, m_password_hash u, m_perms u)) us) n =
      map_option (\<lambda>u. (m_password_hash u, m_perms u)) (find (\<lambda>u. m_name u = n) us)" for us :: "UserData list"
    by (induction us) auto
  then show ?thesis by (simp add: users_map_def)
qed

lemma has_user_map: "has_user t n \<longleftrightarrow> users_map t n \<noteq> None"
  by (simp add: has_user_def users_map_find)

lemma has_user_names: "has_user t n \<longleftrightarrow> n \<in> m_name ` set (m_users t)"
  by (auto simp: has_user_def find_None_iff)

lemma get_user_map:
  "users_map t n = (case get_user t n of Inl e \<Rightarrow> None | Inr u \<Rightarrow> Some (m_password_hash u, m_perms u))"
  by (simp add: get_user_def users_map_find split: option.splits)

lemma get_user_error: "users_map t n = None \<longleftrightarrow> get_user t n = Inl (no_such_user n)"
  by (auto simp: get_user_def users_map_find no_such_user_def split: option.splits)

lemma users_map_append:
  "users_map (t\<lparr>m_users := m_users t @ [u]\<rparr>) =
   (if has_user t (m_name u) then users_map t else (users_map t)(m_name u \<mapsto> (m_password_hash u, m_perms u)))"
proof
  fix n
  have "find P (xs @ [x]) = (case find P xs of None \<Rightarrow> if P x then Some x else None | Some y \<Rightarrow> Some y)"
    for P :: "UserData \<Rightarrow> bool" and xs x
    by (induction xs) auto
  then show "users_map (t\<lparr>m_users := m_users t @ [u]\<rparr>) n =
    (if has_user t (m_name u) then users_map t else (users_map t)(m_name u \<mapsto> (m_password_hash u, m_perms u))) n"
    by (auto simp: users_map_find has_user_def split: option.splits)
qed

lemma users_map_filter:
  "users_map (t\<lparr>m_users := filter (\<lambda>u. m_name u \<noteq> n) (m_users t)\<rparr>) = (users_map t)(n := None)"
proof
  fix k
  have "find (\<lambda>u. m_name u = k) (filter (\<lambda>u. m_name u \<noteq> n) us) =
      (if k = n then None else find (\<lambda>u. m_name u = k) us)" for us :: "UserData list"
    by (induction us) auto
  then show "users_map (t\<lparr>m_users := filter (\<lambda>u. m_name u \<noteq> n) (m_users t)\<rparr>) k = ((users_map t)(n := None)) k"
    by (simp add: users_map_find)
qed

lemma names_update_first: "(\<And>u. m_name (f u) = m_name u) \<Longrightarrow> map m_name (update_first n f us) = map m_name us"
  by (induction us) auto

lemma users_map_update_first:
  assumes "\<And>u. m_name (f u) = m_name u" and "get_user t n = Inr u"
  shows "users_map (t\<lparr>m_users := update_first n f (m_users t)\<rparr>) =
    (users_map t)(n \<mapsto> (m_password_hash (f u), m_perms (f u)))"
proof
  fix k
  have "find (\<lambda>u. m_name u = n) us = Some u \<Longrightarrow> find (\<lambda>u. m_name u = k) (update_first n f us) =
      (if k = n then Some (f u) else find (\<lambda>u. m_name u = k) us)" for us :: "UserData list"
    by (induction us) (auto simp: assms(1) split: if_splits)
  then show "users_map (t\<lparr>m_users := update_first n f (m_users t)\<rparr>) k =
      ((users_map t)(n \<mapsto> (m_password_hash (f u), m_perms (f u)))) k"
    using assms(2) by (auto simp: users_map_find get_user_def split: option.splits)
qed

lemma wf_table_edits:
  "wf_table t \<Longrightarrow> \<not> has_user t (m_name u) \<Longrightarrow> wf_table (t\<lparr>m_users := m_users t @ [u]\<rparr>)"
  "wf_table t \<Longrightarrow> wf_table (t\<lparr>m_users := filter P (m_users t)\<rparr>)"
  "wf_table t \<Longrightarrow> (\<And>u. m_name (f u) = m_name u) \<Longrightarrow> wf_table (t\<lparr>m_users := update_first n f (m_users t)\<rparr>)"
  by (auto simp: wf_table_def has_user_names distinct_map_filter names_update_first)

text \<open>
  The table provides the interface. The interface speaks of stored hashes, so the operations
  that take a password are used with a hash function that gives the hash in question.
\<close>

lemma add_user_new:
  "\<not> has_user t n \<Longrightarrow> hash crypt w = Inr h \<Longrightarrow>
   add_user crypt t n w = Inr (t\<lparr>m_users := m_users t @ [\<lparr>m_name = n, m_password_hash = h, m_perms = perm_initial\<rparr>]\<rparr>)"
  by (simp add: add_user_def)

interpretation user_table: user_store users_map wf_table
  "\<lambda>n h t. add_user (\<lambda>_ _. Inr h) t n []" "\<lambda>n t. remove_user t n"
  "\<lambda>n h t. set_password_of_user (\<lambda>_ _. Inr h) t n []" "\<lambda>n p t. set_perms_of_user t n p"
proof (unfold_locales, goal_cases)
  case (1 t n h)
  then have new: "\<not> has_user t n" by (simp add: has_user_map)
  with 1 show ?case
    by (simp add: add_user_new hash_def users_map_append wf_table_edits)
next
  case (2 t n h)
  then show ?case by (simp add: add_user_def has_user_map)
next
  case (3 t n)
  then show ?case by (simp add: remove_user_def has_user_map users_map_filter wf_table_edits)
next
  case (4 t n)
  then show ?case by (simp add: remove_user_def has_user_map)
next
  case (5 t n h p k)
  then obtain u where "get_user t n = Inr u" "h = m_password_hash u" "p = m_perms u"
    by (auto simp: get_user_map split: sum.splits)
  with 5 show ?case
    by (simp add: set_password_of_user_def hash_def users_map_update_first wf_table_edits)
next
  case (6 t n h p q)
  then obtain u where "get_user t n = Inr u" "h = m_password_hash u" "p = m_perms u"
    by (auto simp: get_user_map split: sum.splits)
  with 6 show ?case
    by (simp add: set_perms_of_user_def users_map_update_first wf_table_edits)
qed

lemma fetch_created_users:
  "fetch_users (map create_toml_user us) t =
     Inr (t\<lparr>m_users := m_users t @ map (\<lambda>u. u\<lparr>m_perms := perms_and (m_perms u) perm_all\<rparr>) us\<rparr>)"
  by (induction us arbitrary: t)
    (simp_all add: create_toml_user_def fetch_one_user_def perms_to_from_string)

lemma verify_map:
  "users_map t n = Some (h, p) \<Longrightarrow>
   verify_password_of_user crypt t n w = map_sum id (\<lambda>k. k = h) (hash crypt w)"
  by (auto simp: verify_password_of_user_def get_user_map split: sum.splits)

lemma add_user_hash: "hash crypt w = Inr h \<Longrightarrow> add_user crypt t n w = add_user (\<lambda>_ _. Inr h) t n []"
  and set_password_hash:
    "hash crypt w = Inr h \<Longrightarrow> set_password_of_user crypt t n w = set_password_of_user (\<lambda>_ _. Inr h) t n []"
  by (simp_all add: add_user_def set_password_of_user_def hash_def split: sum.splits)

section \<open>Properties\<close>

text \<open>
  C26: the table of users implements a map from names to password hashes and permissions.
  With distinct names, adding a user binds a new name to the hash of the password and the
  initial permissions and leaves an existing user alone; removing deletes the binding;
  setting the password or the permissions changes that component of that user alone; the
  last three fail, with the error that names the user, exactly for an unknown user. Every
  operation keeps the names distinct.
\<close>

theorem user_table_refines_map:
  assumes "wf_table t" and "hash crypt password = Inr h"
  shows "(\<exists>t'. add_user crypt t n password = Inr t' \<and> wf_table t' \<and>
            users_map t' = (if users_map t n = None then (users_map t)(n \<mapsto> (h, perm_initial)) else users_map t)) \<and>
         (case users_map t n of
            None \<Rightarrow> remove_user t n = Inl (no_such_user n) \<and>
              set_password_of_user crypt t n password = Inl (no_such_user n) \<and>
              set_perms_of_user t n perms = Inl (no_such_user n)
          | Some (k, q) \<Rightarrow>
              (\<exists>t'. remove_user t n = Inr t' \<and> wf_table t' \<and> users_map t' = (users_map t)(n := None)) \<and>
              (\<exists>t'. set_password_of_user crypt t n password = Inr t' \<and> wf_table t' \<and>
                 users_map t' = (users_map t)(n \<mapsto> (h, q))) \<and>
              (\<exists>t'. set_perms_of_user t n perms = Inr t' \<and> wf_table t' \<and>
                 users_map t' = (users_map t)(n \<mapsto> (k, perms))))"
proof (cases "users_map t n")
  case None
  then have missing: "get_user t n = Inl (no_such_user n)" by (simp add: get_user_error)
  have "\<not> has_user t n" using None by (simp add: has_user_map)
  with None missing assms user_table.add_new [OF assms(1) None, of h] show ?thesis
    by (simp add: add_user_hash remove_user_def set_password_of_user_def set_perms_of_user_def)
next
  case (Some kq)
  obtain k q where "kq = (k, q)" by (cases kq)
  with Some have u: "users_map t n = Some (k, q)" by simp
  then have "users_map t n \<noteq> None" by simp
  from user_table.add_old [OF assms(1) this, of h] user_table.remove_old [OF assms(1) this]
    user_table.set_hash_old [OF assms(1) u, of h] user_table.set_perms_old [OF assms(1) u, of perms]
  show ?thesis using u assms by (simp add: add_user_hash set_password_hash)
qed

theorem user_table_refines_map_witness:
  "\<exists>t'. add_user (\<lambda>w s. Inr (s @ w)) empty_table ''ann'' ''pw'' = Inr t' \<and> wf_table t' \<and>
     users_map t' ''ann'' \<noteq> None"
proof -
  have "wf_table empty_table" and "users_map empty_table ''ann'' = None"
    by (simp_all add: wf_table_def empty_table_def users_map_def)
  then show ?thesis
    using user_table_refines_map [of empty_table "\<lambda>w s. Inr (s @ w)" "''pw''" _ "''ann''"]
    by (fastforce simp: hash_def)
qed

text \<open>
  After \<open>set_password_of_user\<close>, exactly the passwords with the hash of the new one are
  accepted for that user (the salt of a password is computed from the password, so the
  outcome depends on the words alone), and the answers for the other users do not change.
\<close>

lemma password_verification:
  assumes "wf_table t" and "users_map t n = Some (k, p)" and "hash crypt new = Inr h"
  shows "\<exists>t'. set_password_of_user crypt t n new = Inr t' \<and>
           (\<forall>w. verify_password_of_user crypt t' n w = map_sum id (\<lambda>x. x = h) (hash crypt w)) \<and>
           verify_password_of_user crypt t' n new = Inr True \<and>
           get_perms_of_user t' n = Inr p \<and>
           (m = n \<or> verify_password_of_user crypt t' m w = verify_password_of_user crypt t m w)"
proof -
  obtain t' where t': "set_password_of_user crypt t n new = Inr t'" "users_map t' = (users_map t)(n \<mapsto> (h, p))"
    using user_table.set_hash_old [OF assms(1,2), of h] assms(3) by (auto simp: set_password_hash)
  then have u: "users_map t' n = Some (h, p)" by simp
  have perms: "get_perms_of_user t' n = Inr p"
    using u by (auto simp: get_user_map get_perms_of_user_def split: sum.splits)
  have "verify_password_of_user crypt t' m w = verify_password_of_user crypt t m w" if "m \<noteq> n"
  proof (cases "users_map t m")
    case None
    moreover from this that t'(2) have "users_map t' m = None" by simp
    ultimately show ?thesis by (simp add: verify_password_of_user_def get_user_error split: sum.splits)
  next
    case (Some hq)
    with that t'(2) show ?thesis using verify_map [of t m "fst hq" "snd hq"] verify_map [of t' m "fst hq" "snd hq"]
      by simp
  qed
  with t' perms verify_map [OF u] assms(3) show ?thesis by auto
qed

lemma password_verification_witness:
  "\<exists>t'. set_password_of_user (\<lambda>w s. Inr (s @ w))
      \<lparr>m_users_file = [], m_users = [\<lparr>m_name = ''ann'', m_password_hash = ''x'', m_perms = perm_all\<rparr>]\<rparr>
      ''ann'' ''new'' = Inr t' \<and> verify_password_of_user (\<lambda>w s. Inr (s @ w)) t' ''ann'' ''new'' = Inr True"
proof -
  let ?t = "\<lparr>m_users_file = [], m_users = [\<lparr>m_name = ''ann'', m_password_hash = ''x'', m_perms = perm_all\<rparr>]\<rparr>"
  have "wf_table ?t" and "users_map ?t ''ann'' = Some (''x'', perm_all)"
    by (simp_all add: wf_table_def users_map_def)
  from password_verification [OF this, of "\<lambda>w s. Inr (s @ w)" "''new''" "make_salt ''new'' @ c_str ''new''" "''ann''"] show ?thesis
    by (auto simp: hash_def)
qed

text \<open>
  C27: writing the table to the users file and opening that file in a fresh table gives the
  same users in the same order with the same hashes and permissions (less bits that are no
  permission), for every TOML library that reads back what it writes.
\<close>

theorem users_file_roundtrip:
  assumes "toml_parse (toml_print (create_toml_table t)) = Some (create_toml_table t)"
    and "file_open_trunc d (m_users_file t) = (Inr (), d1)"
  shows "\<exists>d2. commit_table toml_print t d = (Inr (), d2) \<and>
     open_table toml_parse d2 (m_users_file t) empty_table =
       Inr (t\<lparr>m_users := map (\<lambda>u. u\<lparr>m_perms := perms_and (m_perms u) perm_all\<rparr>) (m_users t)\<rparr>)"
proof -
  let ?d2 = "file_append d1 (m_users_file t) (toml_print (create_toml_table t))"
  have "commit_table toml_print t d = (Inr (), ?d2)" using assms(2) by (simp add: commit_table_def)
  moreover have "read_file ?d2 (m_users_file t) = Some (toml_print (create_toml_table t))"
    using assms(2) by (rule write_whole_file)
  ultimately show ?thesis using assms(1)
    by (simp add: open_table_def fetch_table_def create_toml_table_def fetch_created_users empty_table_def)
qed

theorem users_file_roundtrip_witness:
  "\<exists>d2. commit_table (\<lambda>_. ''x'') \<lparr>m_users_file = ''/users'', m_users = []\<rparr>
           \<lparr>tree = Dir [], working_dir = [], available = 0\<rparr> = (Inr (), d2) \<and>
     open_table (\<lambda>b. if b = ''x'' then Some [(''users'', Toml_array [])] else None) d2 ''/users'' empty_table =
       Inr \<lparr>m_users_file = ''/users'', m_users = []\<rparr>"
proof -
  let ?d = "\<lparr>tree = Dir [], working_dir = [], available = 0\<rparr>"
  have "file_open_trunc ?d ''/users'' = (Inr (), \<lparr>tree = Dir [(''users'', File [])], working_dir = [], available = 0\<rparr>)"
    by code_simp
  then show ?thesis
    using users_file_roundtrip [of "\<lambda>b. if b = ''x'' then Some [(''users'', Toml_array [])] else None"
        "\<lambda>_. ''x''" "\<lparr>m_users_file = ''/users'', m_users = []\<rparr>" ?d]
    by (simp add: create_toml_table_def)
qed

end
