(* ===== verification/Tokens.thy ===== *)
theory Tokens
  imports Permissions Filesystem
begin

text \<open>
  The objects that clients hold and the server watches: authorisation tokens
  (\<open>auth_token.cpp\<close>), path locks (\<open>path_lock.cpp\<close>) and the two kinds of lock that describe a
  running transfer (\<open>download_token.cpp\<close>, \<open>upload_token.cpp\<close>). They live in a heap. A
  \<open>shared_ptr\<close> is the number of an object; every object has one owner at a time in this
  program, and it is freed where its owner drops it. A \<open>weak_ptr\<close> is a number too, and it has
  expired when the heap no longer has the object.
\<close>

type_synonym oid = nat

record AuthToken =
  at_username :: string
  at_perms :: Permissions

record DownloadToken =
  dt_path :: path
  dt_size :: u64
  dt_offset :: u64

record UploadToken =
  ut_path :: path
  ut_destination_path :: path
  ut_file_name :: path
  ut_temporary_filename_stem :: path
  ut_size :: u64
  ut_offset :: u64

datatype lock_object = PathLock path | Download_lock DownloadToken | Upload_lock UploadToken

record heap =
  auth_objects :: "oid \<Rightarrow> AuthToken option"
  lock_objects :: "oid \<Rightarrow> lock_object option"
  next_oid :: oid

definition empty_heap :: heap where
  "empty_heap = \<lparr>auth_objects = Map.empty, lock_objects = Map.empty, next_oid = 0\<rparr>"

section \<open>The heap\<close>

definition new_auth :: "AuthToken \<Rightarrow> heap \<Rightarrow> oid \<times> heap" where
  "new_auth a h = (next_oid h, h\<lparr>auth_objects := (auth_objects h)(next_oid h \<mapsto> a), next_oid := next_oid h + 1\<rparr>)"

definition new_lock :: "lock_object \<Rightarrow> heap \<Rightarrow> oid \<times> heap" where
  "new_lock l h = (next_oid h, h\<lparr>lock_objects := (lock_objects h)(next_oid h \<mapsto> l), next_oid := next_oid h + 1\<rparr>)"

definition free_auth :: "oid option \<Rightarrow> heap \<Rightarrow> heap" where
  "free_auth p h = (case p of None \<Rightarrow> h | Some i \<Rightarrow> h\<lparr>auth_objects := (auth_objects h)(i := None)\<rparr>)"

definition free_lock :: "oid option \<Rightarrow> heap \<Rightarrow> heap" where
  "free_lock p h = (case p of None \<Rightarrow> h | Some i \<Rightarrow> h\<lparr>lock_objects := (lock_objects h)(i := None)\<rparr>)"

definition set_lock :: "oid \<Rightarrow> lock_object \<Rightarrow> heap \<Rightarrow> heap" where
  "set_lock i l h = h\<lparr>lock_objects := (lock_objects h)(i \<mapsto> l)\<rparr>"

section \<open>Path locks\<close>

fun get_locked_path :: "lock_object \<Rightarrow> path" where
  "get_locked_path (PathLock p) = p"
| "get_locked_path (Download_lock t) = dt_path t"
| "get_locked_path (Upload_lock t) = ut_path t"

fun set_locked_path :: "path \<Rightarrow> lock_object \<Rightarrow> lock_object" where
  "set_locked_path p (PathLock q) = PathLock p"
| "set_locked_path p (Download_lock t) = Download_lock (t\<lparr>dt_path := p\<rparr>)"
| "set_locked_path p (Upload_lock t) = Upload_lock (t\<lparr>ut_path := p\<rparr>)"

definition construct_path_lock :: "path \<Rightarrow> exn + path" where
  "construct_path_lock p =
     (if \<not> is_absolute p then Inl (RuntimeError ''PathLock: path must be absolute'') else Inr p)"

definition has_locked_path :: "lock_object \<Rightarrow> path \<Rightarrow> exn + bool" where
  "has_locked_path l p =
     (if \<not> is_absolute p then Inl (RuntimeError ''PathLock::has_locked_path: path must be absolute'')
      else Inr (starts_with (get_locked_path l) p))"

definition make_path_lock :: "path \<Rightarrow> exn + lock_object" where
  "make_path_lock p = map_sum id PathLock (construct_path_lock p)"

section \<open>Transfer tokens\<close>

definition make_download_token :: "disk \<Rightarrow> path \<Rightarrow> exn + DownloadToken" where
  "make_download_token d file =
     (case construct_path_lock file of
        Inl e \<Rightarrow> Inl e
      | Inr p \<Rightarrow>
          if \<not> fs_is_regular_file d p then
            Inl (ProtocolError invalid_file_type ''invalid file (should be regular one)'')
          else
            (case fs_file_size d p of
               Inl e \<Rightarrow> Inl (SystemError (errno_value e) ''file_size'')
             | Inr n \<Rightarrow> Inr \<lparr>dt_path = p, dt_size = n, dt_offset = 0\<rparr>))"

definition download_set_file_offset :: "u64 \<Rightarrow> DownloadToken \<Rightarrow> exn + DownloadToken" where
  "download_set_file_offset offset t =
     (if offset \<le> dt_size t then Inr (t\<lparr>dt_offset := offset\<rparr>)
      else Inl (ProtocolError invalid_field_value ''invalid offset (greater than file size)''))"

definition make_upload_token :: "path \<Rightarrow> u64 \<Rightarrow> exn + UploadToken" where
  "make_upload_token file file_size =
     (case construct_path_lock file of
        Inl e \<Rightarrow> Inl e
      | Inr p \<Rightarrow> Inr \<lparr>ut_path = p, ut_destination_path = parent_path file, ut_file_name = filename file,
                      ut_temporary_filename_stem = [], ut_size = file_size, ut_offset = 0\<rparr>)"

definition set_temporary_filename_stem :: "path \<Rightarrow> UploadToken \<Rightarrow> UploadToken" where
  "set_temporary_filename_stem stem t = t\<lparr>ut_temporary_filename_stem := stem\<rparr>"

definition add_file_offset :: "u64 \<Rightarrow> UploadToken \<Rightarrow> UploadToken" where
  "add_file_offset change t = t\<lparr>ut_offset := ut_offset t + change\<rparr>"

section \<open>Facts\<close>

definition heap_fresh :: "heap \<Rightarrow> bool" where
  "heap_fresh h \<longleftrightarrow> (\<forall>i. auth_objects h i \<noteq> None \<or> lock_objects h i \<noteq> None \<longrightarrow> i < next_oid h)"

lemma heap_fresh_ops:
  "heap_fresh h \<Longrightarrow> heap_fresh (snd (new_auth a h))"
  "heap_fresh h \<Longrightarrow> heap_fresh (snd (new_lock l h))"
  "heap_fresh h \<Longrightarrow> heap_fresh (free_auth p h)"
  "heap_fresh h \<Longrightarrow> heap_fresh (free_lock p h)"
  "heap_fresh h \<Longrightarrow> lock_objects h i \<noteq> None \<Longrightarrow> heap_fresh (set_lock i l h)"
  by (auto simp: heap_fresh_def new_auth_def new_lock_def free_auth_def free_lock_def set_lock_def less_Suc_eq
      split: option.splits if_splits)

end
