(* ===== verification/Server_Context.thy ===== *)
theory Server_Context
  imports User_Table Tokens
begin

text \<open>
  The state all clients share (\<open>server_context.hpp\<close>, \<open>server_context.cpp\<close>): the root
  directory, the table of users, and the weak lists of authorisation tokens and path locks.
  The \<open>world\<close> adds the heap of the tokens and the disk. Each operation is one step on the
  world: the mutexes of the class make its parts atomic, and the threads of the server run
  disjoint sets of clients.
\<close>

section \<open>State\<close>

record ServerContext =
  m_root :: path
  m_config_directory :: path
  m_upload_max_size :: u64
  m_user_table :: UserTable
  m_auth_tokens :: "oid list"
  m_path_locks :: "oid list"

record world =
  w_server :: ServerContext
  w_heap :: heap
  w_disk :: disk

definition construct_server_context ::
    "toml_reader \<Rightarrow> path \<Rightarrow> u64 \<Rightarrow> disk \<Rightarrow> exn + ServerContext" where
  "construct_server_context toml_parse root upload_max_size d =
     (let config_directory = path_append root ''.tds''
      in case open_table toml_parse d (path_append config_directory ''users'') empty_table of
           Inl e \<Rightarrow> Inl e
         | Inr t \<Rightarrow> Inr \<lparr>m_root = root, m_config_directory = config_directory,
             m_upload_max_size = upload_max_size, m_user_table = t, m_auth_tokens = [], m_path_locks = []\<rparr>)"

definition set_auth_tokens :: "oid list \<Rightarrow> world \<Rightarrow> world" where
  "set_auth_tokens ts w = w\<lparr>w_server := (w_server w)\<lparr>m_auth_tokens := ts\<rparr>\<rparr>"

definition set_path_locks :: "oid list \<Rightarrow> world \<Rightarrow> world" where
  "set_path_locks ls w = w\<lparr>w_server := (w_server w)\<lparr>m_path_locks := ls\<rparr>\<rparr>"

definition set_heap :: "heap \<Rightarrow> world \<Rightarrow> world" where
  "set_heap h w = w\<lparr>w_heap := h\<rparr>"

definition set_disk :: "disk \<Rightarrow> world \<Rightarrow> world" where
  "set_disk d w = w\<lparr>w_disk := d\<rparr>"

section \<open>Paths\<close>

definition get_relative_path_to :: "world \<Rightarrow> path \<Rightarrow> path" where
  "get_relative_path_to w subpath =
     (let result = fs_relative (w_disk w) subpath (m_root (w_server w))
      in path_append [sep] (if path_eq result ''.'' then [] else result))"

definition is_path_forbidden :: "ServerContext \<Rightarrow> path \<Rightarrow> exn + bool" where
  "is_path_forbidden sc p =
     (if \<not> is_absolute p then
        Inl (ProtocolError unknown
          ''Server context requires absolute paths. Please send this to server developer.'')
      else Inr (starts_with p (m_config_directory sc)))"

definition get_partial_file_path :: "ServerContext \<Rightarrow> path \<Rightarrow> path" where
  "get_partial_file_path sc stem = path_append (m_config_directory sc) (stem @ ''.partial'')"

definition get_backup_file_path :: "ServerContext \<Rightarrow> path \<Rightarrow> path" where
  "get_backup_file_path sc stem = path_append (m_config_directory sc) (stem @ ''.upload'')"

definition throw_on_invalid_path :: "world \<Rightarrow> path \<Rightarrow> exn + unit" where
  "throw_on_invalid_path w p =
     (if \<not> starts_with p (m_root (w_server w)) \<or> \<not> fs_exists (w_disk w) p
      then Inl (RuntimeError ''ServerContext: invalid path to lock (not subpath of root)'') else Inr ())"

section \<open>Authorisation\<close>

definition remove_expired_auth_tokens :: "world \<Rightarrow> world" where
  "remove_expired_auth_tokens w =
     set_auth_tokens (filter (\<lambda>i. auth_objects (w_heap w) i \<noteq> None) (m_auth_tokens (w_server w))) w"

definition authorized_names :: "world \<Rightarrow> string list" where
  "authorized_names w =
     List.map_filter (\<lambda>i. map_option at_username (auth_objects (w_heap w) i)) (m_auth_tokens (w_server w))"

definition credentials_ok :: "crypt_fn \<Rightarrow> UserTable \<Rightarrow> string \<Rightarrow> string \<Rightarrow> exn + bool" where
  "credentials_ok crypt t username password =
     (if \<not> has_user t username then Inr False else verify_password_of_user crypt t username password)"

definition allocate_auth :: "AuthToken \<Rightarrow> world \<Rightarrow> oid \<times> world" where
  "allocate_auth a w =
     (let (i, h) = new_auth a (w_heap w)
      in (i, set_auth_tokens (m_auth_tokens (w_server w) @ [i]) (set_heap h w)))"

definition authorize_user :: "crypt_fn \<Rightarrow> string \<Rightarrow> string \<Rightarrow> (exn, world, oid) action" where
  "authorize_user crypt username password =
     andthen (modify remove_expired_auth_tokens)
     (bind (gets (\<lambda>w. credentials_ok crypt (m_user_table (w_server w)) username password)) (\<lambda>r.
      bind (from_sum r) (\<lambda>good.
        if \<not> good then raise (protocol_error invalid_credentials)
        else bind (gets (\<lambda>w. username \<in> set (authorized_names w))) (\<lambda>already_authorized.
          if already_authorized then raise (protocol_error user_already_logged)
          else bind (gets (\<lambda>w. get_perms_of_user (m_user_table (w_server w)) username)) (\<lambda>p.
            bind (from_sum p) (\<lambda>perms w.
              let (i, w') = allocate_auth \<lparr>at_username = username, at_perms = perms\<rparr> w in ret i w'))))))"

section \<open>Locks\<close>

definition remove_expired_path_locks :: "world \<Rightarrow> world" where
  "remove_expired_path_locks w =
     set_path_locks (filter (\<lambda>i. lock_objects (w_heap w) i \<noteq> None) (m_path_locks (w_server w))) w"

definition insert_path_lock :: "oid \<Rightarrow> world \<Rightarrow> world" where
  "insert_path_lock i w =
     (let w' = remove_expired_path_locks w in set_path_locks (m_path_locks (w_server w') @ [i]) w')"

definition allocate_lock :: "lock_object \<Rightarrow> world \<Rightarrow> oid \<times> world" where
  "allocate_lock l w = (let (i, h) = new_lock l (w_heap w) in (i, insert_path_lock i (set_heap h w)))"

definition make_shared_lock :: "lock_object \<Rightarrow> (exn, world, oid) action" where
  "make_shared_lock l = (\<lambda>w. let (i, w') = allocate_lock l w in ret i w')"

definition lock_path :: "path \<Rightarrow> (exn, world, oid) action" where
  "lock_path p =
     bind (gets (\<lambda>w. throw_on_invalid_path w p)) (\<lambda>r.
     andthen (from_sum r)
     (bind (from_sum (make_path_lock p)) make_shared_lock))"

definition download_file :: "path \<Rightarrow> (exn, world, oid) action" where
  "download_file p =
     bind (gets (\<lambda>w. throw_on_invalid_path w p)) (\<lambda>r.
     andthen (from_sum r)
     (bind (gets (\<lambda>w. make_download_token (w_disk w) p)) (\<lambda>t.
      bind (from_sum t) (\<lambda>token. make_shared_lock (Download_lock token)))))"

definition live_locks :: "world \<Rightarrow> lock_object list" where
  "live_locks w = List.map_filter (lock_objects (w_heap w)) (m_path_locks (w_server w))"

definition throw_if_file_is_already_uploaded :: "world \<Rightarrow> path \<Rightarrow> exn + unit" where
  "throw_if_file_is_already_uploaded w p =
     (if list_ex (\<lambda>l. path_eq (get_locked_path l) p) (live_locks w)
      then Inl (protocol_error in_use) else Inr ())"

definition upload_guard :: "world \<Rightarrow> path \<Rightarrow> u64 \<Rightarrow> exn + unit" where
  "upload_guard w p file_size =
     (if \<not> is_absolute p then Inl (protocol_error invalid_file_type)
      else if fs_exists (w_disk w) p then Inl (protocol_error file_already_exists)
      else if \<not> fs_exists (w_disk w) (parent_path p) then Inl (protocol_error not_found)
      else if \<not> fs_exists (w_disk w) (m_root (w_server w)) then Inl (SystemError (errno_value ENOENT) ''space'')
      else if file_size > m_upload_max_size (w_server w) \<or> file_size > available (w_disk w)
      then Inl (protocol_error too_large_file)
      else throw_if_file_is_already_uploaded w p)"

definition upload_file :: "path \<Rightarrow> u64 \<Rightarrow> (exn, world, oid) action" where
  "upload_file p file_size =
     bind (gets (\<lambda>w. upload_guard w p file_size)) (\<lambda>r.
     andthen (from_sum r)
     (bind (from_sum (make_upload_token p file_size)) (\<lambda>token. make_shared_lock (Upload_lock token))))"

primrec any_locked :: "lock_object list \<Rightarrow> path \<Rightarrow> exn + bool" where
  "any_locked [] p = Inr False"
| "any_locked (l # ls) p =
     (case has_locked_path l p of
        Inl e \<Rightarrow> Inl e
      | Inr b \<Rightarrow> if b then Inr True else any_locked ls p)"

definition is_path_locked :: "world \<Rightarrow> path \<Rightarrow> exn + bool" where
  "is_path_locked w p = any_locked (live_locks w) p"


section \<open>Registries of weak pointers\<close>

text \<open>
  Both lists follow one contract: entering a new object makes it live under a fresh number
  and puts the number in the list, purging drops expired numbers only. So every live object
  is listed, and a search through the list sees exactly the live objects.
\<close>

locale weak_registry =
  fixes objects :: "'w \<Rightarrow> oid \<Rightarrow> 'o option"
    and entries :: "'w \<Rightarrow> oid list"
    and fresh :: "'w \<Rightarrow> bool"
    and purge :: "'w \<Rightarrow> 'w"
    and enter :: "'o \<Rightarrow> 'w \<Rightarrow> oid \<times> 'w"
  assumes purge_objects: "objects (purge w) = objects w"
    and purge_entries: "set (entries (purge w)) = {i \<in> set (entries w). objects w i \<noteq> None}"
    and purge_fresh: "fresh w \<Longrightarrow> fresh (purge w)"
    and enter_new: "fresh w \<Longrightarrow> enter x w = (i, w') \<Longrightarrow> objects w i = None"
    and enter_objects: "enter x w = (i, w') \<Longrightarrow> objects w' = (objects w)(i \<mapsto> x)"
    and enter_entries: "enter x w = (i, w') \<Longrightarrow> j = i \<or> j \<in> set (entries w) \<and> objects w j \<noteq> None \<Longrightarrow>
          j \<in> set (entries w')"
    and enter_fresh: "fresh w \<Longrightarrow> enter x w = (i, w') \<Longrightarrow> fresh w'"
begin

lemma purge_registered:
  "\<forall>i. objects w i \<noteq> None \<longrightarrow> i \<in> set (entries w) \<Longrightarrow>
   \<forall>i. objects (purge w) i \<noteq> None \<longrightarrow> i \<in> set (entries (purge w))"
  by (simp add: purge_objects purge_entries)

lemma enter_registered:
  assumes "\<forall>i. objects w i \<noteq> None \<longrightarrow> i \<in> set (entries w)" and "enter x w = (k, w')"
  shows "\<forall>i. objects w' i \<noteq> None \<longrightarrow> i \<in> set (entries w')"
  using assms enter_entries [OF assms(2)] by (auto simp: enter_objects [OF assms(2)])

lemma search_sees_live_objects:
  "\<forall>i. objects w i \<noteq> None \<longrightarrow> i \<in> set (entries w) \<Longrightarrow>
   set (List.map_filter (objects w) (entries w)) = ran (objects w)"
  by (force simp: List.map_filter_def ran_def)

end

interpretation auth_registry: weak_registry "\<lambda>w. auth_objects (w_heap w)" "\<lambda>w. m_auth_tokens (w_server w)"
  "\<lambda>w. heap_fresh (w_heap w)" remove_expired_auth_tokens allocate_auth
  by unfold_locales
    (auto simp: remove_expired_auth_tokens_def allocate_auth_def set_auth_tokens_def set_heap_def new_auth_def
      heap_fresh_def less_Suc_eq split: if_splits)

interpretation lock_registry: weak_registry "\<lambda>w. lock_objects (w_heap w)" "\<lambda>w. m_path_locks (w_server w)"
  "\<lambda>w. heap_fresh (w_heap w)" remove_expired_path_locks allocate_lock
  by unfold_locales
    (auto simp: remove_expired_path_locks_def allocate_lock_def insert_path_lock_def set_path_locks_def set_heap_def
      new_lock_def heap_fresh_def less_Suc_eq split: if_splits)


section \<open>Invariants of the world\<close>

text \<open>
  Every live token is listed, no two live authorisation tokens name the same user, and every
  locked path is absolute.
\<close>

definition sessions_ok :: "world \<Rightarrow> bool" where
  "sessions_ok w \<longleftrightarrow> (\<forall>i. auth_objects (w_heap w) i \<noteq> None \<longrightarrow> i \<in> set (m_auth_tokens (w_server w))) \<and>
     (\<forall>i j a b. auth_objects (w_heap w) i = Some a \<longrightarrow> auth_objects (w_heap w) j = Some b \<longrightarrow>
        at_username a = at_username b \<longrightarrow> i = j)"

definition locks_ok :: "world \<Rightarrow> bool" where
  "locks_ok w \<longleftrightarrow> (\<forall>i. lock_objects (w_heap w) i \<noteq> None \<longrightarrow> i \<in> set (m_path_locks (w_server w))) \<and>
     (\<forall>i l. lock_objects (w_heap w) i = Some l \<longrightarrow> is_absolute (get_locked_path l))"

definition world_ok :: "world \<Rightarrow> bool" where
  "world_ok w \<longleftrightarrow> heap_fresh (w_heap w) \<and> sessions_ok w \<and> locks_ok w \<and>
     is_absolute (m_root (w_server w)) \<and> wf_node (tree (w_disk w)) \<and> obs (tree (w_disk w)) [] = Some Directory"

named_theorems world_simps \<open>projections of the world after an update\<close>

lemma world_projections [world_simps]:
  "w_heap (set_auth_tokens ts w) = w_heap w" "w_disk (set_auth_tokens ts w) = w_disk w"
  "m_auth_tokens (w_server (set_auth_tokens ts w)) = ts" "m_path_locks (w_server (set_auth_tokens ts w)) = m_path_locks (w_server w)"
  "m_root (w_server (set_auth_tokens ts w)) = m_root (w_server w)"
  "m_user_table (w_server (set_auth_tokens ts w)) = m_user_table (w_server w)"
  "w_heap (set_path_locks ls w) = w_heap w" "w_disk (set_path_locks ls w) = w_disk w"
  "m_path_locks (w_server (set_path_locks ls w)) = ls" "m_auth_tokens (w_server (set_path_locks ls w)) = m_auth_tokens (w_server w)"
  "m_root (w_server (set_path_locks ls w)) = m_root (w_server w)"
  "w_heap (set_heap h w) = h" "w_disk (set_heap h w) = w_disk w" "w_server (set_heap h w) = w_server w"
  "w_heap (set_disk d w) = w_heap w" "w_disk (set_disk d w) = d" "w_server (set_disk d w) = w_server w"
  by (simp_all add: set_auth_tokens_def set_path_locks_def set_heap_def set_disk_def)

lemma purge_auth_simps [world_simps]:
  "w_heap (remove_expired_auth_tokens w) = w_heap w" "w_disk (remove_expired_auth_tokens w) = w_disk w"
  "m_path_locks (w_server (remove_expired_auth_tokens w)) = m_path_locks (w_server w)"
  "m_root (w_server (remove_expired_auth_tokens w)) = m_root (w_server w)"
  "m_user_table (w_server (remove_expired_auth_tokens w)) = m_user_table (w_server w)"
  by (simp_all add: remove_expired_auth_tokens_def world_simps)

lemma allocate_auth_simps:
  assumes "allocate_auth a w = (i, w')"
  shows "lock_objects (w_heap w') = lock_objects (w_heap w)" "w_disk w' = w_disk w"
    "m_path_locks (w_server w') = m_path_locks (w_server w)" "m_root (w_server w') = m_root (w_server w)"
  using assms by (auto simp: allocate_auth_def new_auth_def world_simps)

lemma allocate_lock_simps:
  assumes "allocate_lock l w = (i, w')"
  shows "auth_objects (w_heap w') = auth_objects (w_heap w)" "w_disk w' = w_disk w"
    "m_auth_tokens (w_server w') = m_auth_tokens (w_server w)" "m_root (w_server w') = m_root (w_server w)"
  using assms by (auto simp: allocate_lock_def new_lock_def insert_path_lock_def remove_expired_path_locks_def world_simps)

lemma world_ok_purge_auth: "world_ok w \<Longrightarrow> world_ok (remove_expired_auth_tokens w)"
  using auth_registry.purge_registered [of w]
  by (simp add: world_ok_def sessions_ok_def locks_ok_def world_simps)

lemma authorized_names_live:
  "sessions_ok w \<Longrightarrow> set (authorized_names w) = at_username ` ran (auth_objects (w_heap w))"
  unfolding sessions_ok_def authorized_names_def
  by (fastforce simp: List.map_filter_def ran_def image_iff)

lemma world_ok_allocate_auth:
  assumes "world_ok w" and "at_username a \<notin> set (authorized_names w)" and "allocate_auth a w = (i, w')"
  shows "world_ok w'"
proof -
  have ok: "sessions_ok w" "heap_fresh (w_heap w)" using assms(1) by (simp_all add: world_ok_def)
  have new: "\<forall>j b. auth_objects (w_heap w) j = Some b \<longrightarrow> at_username b \<noteq> at_username a"
    using assms(2) by (auto simp: authorized_names_live [OF ok(1)] ran_def image_iff)
  have "\<forall>j. auth_objects (w_heap w') j \<noteq> None \<longrightarrow> j \<in> set (m_auth_tokens (w_server w'))"
    using auth_registry.enter_registered [OF _ assms(3)] ok(1) by (simp add: sessions_ok_def)
  then have "sessions_ok w'"
    using ok(1) new unfolding sessions_ok_def auth_registry.enter_objects [OF assms(3)]
    by (simp add: all_conj_distrib) (metis option.inject)
  moreover have "heap_fresh (w_heap w')" using auth_registry.enter_fresh [OF ok(2) assms(3)] .
  ultimately show ?thesis
    using assms(1) by (simp add: world_ok_def locks_ok_def allocate_auth_simps [OF assms(3)])
qed

lemma world_ok_allocate_lock:
  assumes "world_ok w" and "is_absolute (get_locked_path l)" and "allocate_lock l w = (i, w')"
  shows "world_ok w'"
proof -
  have ok: "locks_ok w" "heap_fresh (w_heap w)" using assms(1) by (simp_all add: world_ok_def)
  have "\<forall>j. lock_objects (w_heap w') j \<noteq> None \<longrightarrow> j \<in> set (m_path_locks (w_server w'))"
    using lock_registry.enter_registered [OF _ assms(3)] ok(1) by (simp add: locks_ok_def)
  then have "locks_ok w'"
    using ok(1) assms(2) by (auto simp: locks_ok_def lock_registry.enter_objects [OF assms(3)])
  moreover have "heap_fresh (w_heap w')" using lock_registry.enter_fresh [OF ok(2) assms(3)] .
  ultimately show ?thesis
    using assms(1) by (simp add: world_ok_def sessions_ok_def allocate_lock_simps [OF assms(3)])
qed

lemma authorize_user_cases:
  "authorize_user crypt n pw w =
     (let w1 = remove_expired_auth_tokens w; t = m_user_table (w_server w) in
      case credentials_ok crypt t n pw of
        Inl e \<Rightarrow> (Inl e, w1)
      | Inr good \<Rightarrow>
          if \<not> good then (Inl (protocol_error invalid_credentials), w1)
          else if n \<in> set (authorized_names w1) then (Inl (protocol_error user_already_logged), w1)
          else (case get_perms_of_user t n of
                  Inl e \<Rightarrow> (Inl e, w1)
                | Inr perms \<Rightarrow> map_prod Inr id (allocate_auth \<lparr>at_username = n, at_perms = perms\<rparr> w1)))"
  unfolding authorize_user_def
  by (auto simp: andthen_def Let_def world_simps split: sum.splits prod.splits)

lemma keeps_authorize_user: "keeps world_ok (authorize_user crypt n pw)"
proof (rule keepsI)
  fix w
  assume "world_ok w"
  then have ok: "world_ok (remove_expired_auth_tokens w)" by (rule world_ok_purge_auth)
  have "world_ok (snd (allocate_auth \<lparr>at_username = n, at_perms = perms\<rparr> (remove_expired_auth_tokens w)))"
    if "n \<notin> set (authorized_names (remove_expired_auth_tokens w))" for perms
    using world_ok_allocate_auth [OF ok, of "\<lparr>at_username = n, at_perms = perms\<rparr>"] that
    by (cases "allocate_auth \<lparr>at_username = n, at_perms = perms\<rparr> (remove_expired_auth_tokens w)") simp
  with ok show "world_ok (snd (authorize_user crypt n pw w))"
    by (simp add: authorize_user_cases Let_def split: sum.splits)
qed

lemma keeps_make_shared_lock: "is_absolute (get_locked_path l) \<Longrightarrow> keeps world_ok (make_shared_lock l)"
  using world_ok_allocate_lock by (auto simp: keeps_def make_shared_lock_def split: prod.splits)

lemma construct_path_lock_Inr: "construct_path_lock p = Inr q \<longleftrightarrow> is_absolute p \<and> q = p"
  by (auto simp: construct_path_lock_def)

lemma token_paths:
  "make_path_lock p = Inr l \<Longrightarrow> is_absolute (get_locked_path l)"
  "make_download_token d p = Inr t \<Longrightarrow> is_absolute (dt_path t)"
  "make_upload_token p n = Inr u \<Longrightarrow> is_absolute (ut_path u)"
  by (auto simp: make_path_lock_def make_download_token_def make_upload_token_def construct_path_lock_def
      split: sum.splits if_splits)

lemma keeps_from_sum_bind:
  "(\<And>x. r = Inr x \<Longrightarrow> keeps I (f x)) \<Longrightarrow> keeps I (bind (from_sum r) f)"
  by (cases r) (auto simp: keeps_def)

lemma keeps_gets_bind:
  "(\<And>s. I s \<Longrightarrow> I (snd (f (g s) s))) \<Longrightarrow> keeps I (bind (gets g) f)"
  by (simp add: keeps_def)

lemma keeps_lock_path: "keeps world_ok (lock_path p)"
  unfolding lock_path_def
  by (intro keeps_intros keeps_from_sum_bind keeps_make_shared_lock) (simp add: token_paths)

lemma keeps_download_file: "keeps world_ok (download_file p)"
proof -
  have "keeps world_ok (bind (gets (\<lambda>w. make_download_token (w_disk w) p)) (\<lambda>t.
      bind (from_sum t) (\<lambda>token. make_shared_lock (Download_lock token))))"
    by (rule keeps_gets_bind)
      (auto split: sum.splits intro!: keepsD [OF keeps_make_shared_lock] dest: token_paths)
  then show ?thesis
    unfolding download_file_def by (rule keeps_bind [OF keeps_gets keeps_andthen [OF keeps_from_sum]])
qed

lemma keeps_upload_file: "keeps world_ok (upload_file p n)"
  unfolding upload_file_def
  by (intro keeps_intros keeps_from_sum_bind keeps_make_shared_lock) (simp add: token_paths)


lemma live_locks_ran: "world_ok w \<Longrightarrow> set (live_locks w) = ran (lock_objects (w_heap w))"
  using lock_registry.search_sees_live_objects [of w]
  by (simp add: live_locks_def world_ok_def locks_ok_def)

lemma any_locked_absolute:
  "is_absolute p \<Longrightarrow> any_locked ls p = Inr (\<exists>l\<in>set ls. starts_with (get_locked_path l) p)"
  by (induction ls) (auto simp: has_locked_path_def)

lemma upload_guard_Inr:
  "upload_guard w p n = Inr () \<longleftrightarrow>
     is_absolute p \<and> \<not> fs_exists (w_disk w) p \<and> fs_exists (w_disk w) (parent_path p) \<and>
     fs_exists (w_disk w) (m_root (w_server w)) \<and>
     n \<le> m_upload_max_size (w_server w) \<and> n \<le> available (w_disk w) \<and>
     (\<forall>l\<in>set (live_locks w). \<not> path_eq (get_locked_path l) p)"
  by (auto simp: upload_guard_def throw_if_file_is_already_uploaded_def list_ex_iff not_less)

lemma make_shared_lock_run: "make_shared_lock l w = map_prod Inr id (allocate_lock l w)"
  by (simp add: make_shared_lock_def split: prod.splits)

lemma upload_file_run:
  "upload_file p n w = (case upload_guard w p n of
     Inl e \<Rightarrow> (Inl e, w)
   | Inr _ \<Rightarrow> map_prod Inr id (allocate_lock (Upload_lock \<lparr>ut_path = p, ut_destination_path = parent_path p,
       ut_file_name = filename p, ut_temporary_filename_stem = [], ut_size = n, ut_offset = 0\<rparr>) w))"
proof (cases "upload_guard w p n")
  case (Inr u)
  then have "is_absolute p" using upload_guard_Inr by auto
  with Inr show ?thesis
    by (simp add: upload_file_def andthen_def make_upload_token_def construct_path_lock_def make_shared_lock_run)
qed (simp add: upload_file_def andthen_def)

section \<open>A small world\<close>

text \<open>
  A server with two users and one file, on which statements with hypotheses are evaluated.
  Its hash function puts the salt before the word.
\<close>

definition sample_crypt :: crypt_fn where
  "sample_crypt word salt = Inr (salt @ word)"

definition sample_disk :: disk where
  "sample_disk = \<lparr>tree = Dir [(''srv'', Dir [(''.tds'', Dir [(''users'', File [])]),
     (''docs'', Dir [(''a'', File ''hello'')]), (''pub'', Dir [])])], working_dir = [], available = 1000\<rparr>"

definition sample_users :: UserTable where
  "sample_users = \<lparr>m_users_file = ''/srv/.tds/users'', m_users =
     [\<lparr>m_name = ''ann'', m_password_hash = make_salt ''pw'' @ ''pw'', m_perms = perm_all\<rparr>,
      \<lparr>m_name = ''bob'', m_password_hash = make_salt ''qq'' @ ''qq'', m_perms = perm_none\<rparr>]\<rparr>"

definition sample_world :: world where
  "sample_world = \<lparr>w_server = \<lparr>m_root = ''/srv'', m_config_directory = ''/srv/.tds'', m_upload_max_size = 100,
     m_user_table = sample_users, m_auth_tokens = [], m_path_locks = []\<rparr>, w_heap = empty_heap, w_disk = sample_disk\<rparr>"

lemmas sample_eval = sample_world_def sample_disk_def empty_heap_def fs_exists_def node_at_def resolve_def
  start_dir_def obs_def parent_path_def Let_def List.map_filter_def

lemma sample_world_ok: "world_ok sample_world"
  by (simp add: world_ok_def sample_world_def sample_disk_def empty_heap_def heap_fresh_def sessions_ok_def
      locks_ok_def plain_name_def)

section \<open>Properties\<close>

text \<open>
  C20: a user is logged in at most once. \<open>authorize_user\<close> succeeds exactly when the user
  exists, the password has the stored hash and no live token of any client names the user.
  It then returns a new token with the user's permissions of the table, the only live token
  of that name, and keeps the invariant of the world; every failure keeps it too.
\<close>

theorem authorize_user_single_session:
  assumes "world_ok w"
  shows "((\<exists>i w'. authorize_user crypt n pw w = (Inr i, w')) \<longleftrightarrow>
            credentials_ok crypt (m_user_table (w_server w)) n pw = Inr True \<and>
            (\<forall>a\<in>ran (auth_objects (w_heap w)). at_username a \<noteq> n)) \<and>
         (\<forall>i w'. authorize_user crypt n pw w = (Inr i, w') \<longrightarrow>
            (\<exists>p. get_perms_of_user (m_user_table (w_server w)) n = Inr p \<and>
               auth_objects (w_heap w') = (auth_objects (w_heap w))(i \<mapsto> \<lparr>at_username = n, at_perms = p\<rparr>)) \<and>
            auth_objects (w_heap w) i = None) \<and>
         world_ok (snd (authorize_user crypt n pw w))"
proof -
  let ?w1 = "remove_expired_auth_tokens w" and ?t = "m_user_table (w_server w)"
  have ok1: "world_ok ?w1" using assms by (rule world_ok_purge_auth)
  then have names: "set (authorized_names ?w1) = at_username ` ran (auth_objects (w_heap w))"
    using authorized_names_live [of ?w1] by (simp add: world_ok_def world_simps)
  have perms: "\<exists>p. get_perms_of_user ?t n = Inr p" if "credentials_ok crypt ?t n pw = Inr True"
    using that by (auto simp: credentials_ok_def has_user_map get_user_map get_perms_of_user_def
        split: if_splits sum.splits)
  have entered: "auth_objects (w_heap w') = (auth_objects (w_heap w))(i \<mapsto> a) \<and> auth_objects (w_heap w) i = None"
    if "allocate_auth a ?w1 = (i, w')" for a i w'
    using auth_registry.enter_objects [OF that] auth_registry.enter_new [OF _ that] ok1
    by (simp add: world_simps world_ok_def)
  have "(\<exists>i w'. authorize_user crypt n pw w = (Inr i, w')) \<longleftrightarrow>
      credentials_ok crypt ?t n pw = Inr True \<and> (\<forall>a\<in>ran (auth_objects (w_heap w)). at_username a \<noteq> n)"
    using perms names
    by (auto simp: authorize_user_cases Let_def map_prod_def split: sum.splits prod.splits)
  moreover have "\<forall>i w'. authorize_user crypt n pw w = (Inr i, w') \<longrightarrow>
      (\<exists>p. get_perms_of_user ?t n = Inr p \<and>
         auth_objects (w_heap w') = (auth_objects (w_heap w))(i \<mapsto> \<lparr>at_username = n, at_perms = p\<rparr>)) \<and>
      auth_objects (w_heap w) i = None"
    using entered
    by (auto simp: authorize_user_cases Let_def map_prod_def split: sum.splits prod.splits if_splits)
  ultimately show ?thesis using keepsD [OF keeps_authorize_user assms] by blast
qed

theorem authorize_user_single_session_witness:
  "\<exists>i w'. authorize_user sample_crypt ''ann'' ''pw'' sample_world = (Inr i, w') \<and> world_ok w' \<and>
     auth_objects (w_heap w') i = Some \<lparr>at_username = ''ann'', at_perms = perm_all\<rparr>"
proof -
  have "credentials_ok sample_crypt (m_user_table (w_server sample_world)) ''ann'' ''pw'' = Inr True"
    and "get_perms_of_user (m_user_table (w_server sample_world)) ''ann'' = Inr perm_all"
    and "\<forall>a\<in>ran (auth_objects (w_heap sample_world)). at_username a \<noteq> ''ann''"
    by (simp_all add: sample_world_def sample_users_def credentials_ok_def has_user_def verify_password_of_user_def
        hash_def sample_crypt_def get_user_def get_perms_of_user_def c_str_def empty_heap_def)
  with authorize_user_single_session [OF sample_world_ok, of sample_crypt "''ann''" "''pw''"]
  show ?thesis by (metis (no_types, lifting) fun_upd_same snd_conv sum.inject(2))
qed

text \<open>
  \<open>is_path_locked\<close> answers, for an absolute path, whether the path is a prefix (as a
  string) of the path of some live lock, whoever holds it; a lock is seen from the moment
  \<open>lock_path\<close> returns it.
\<close>

lemma lock_is_seen:
  assumes "world_ok w" and "is_absolute p"
  shows "is_path_locked w p = Inr (\<exists>l\<in>ran (lock_objects (w_heap w)). starts_with (get_locked_path l) p) \<and>
    (\<forall>i w' q. lock_path q w = (Inr i, w') \<and> starts_with q p \<longrightarrow> is_path_locked w' p = Inr True)"
proof -
  have seen: "is_path_locked v p = Inr (\<exists>l\<in>ran (lock_objects (w_heap v)). starts_with (get_locked_path l) p)"
    if "world_ok v" for v
    using any_locked_absolute [OF assms(2)] live_locks_ran [OF that] by (simp add: is_path_locked_def)
  have "is_path_locked w' p = Inr True" if lp: "lock_path q w = (Inr i, w')" and pre: "starts_with q p" for i w' q
  proof -
    have ok': "world_ok w'" using keepsD [OF keeps_lock_path assms(1), of q] lp by simp
    have "allocate_lock (PathLock q) w = (i, w')"
      using lp by (auto simp: lock_path_def andthen_def make_path_lock_def construct_path_lock_def
          make_shared_lock_run map_prod_def split: sum.splits if_splits prod.splits)
    then have "lock_objects (w_heap w') i = Some (PathLock q)"
      using lock_registry.enter_objects by fastforce
    then show ?thesis using seen [OF ok'] pre by (auto simp: ran_def)
  qed
  with seen [OF assms(1)] show ?thesis by blast
qed

lemma lock_is_seen_witness:
  "\<exists>i w'. lock_path ''/srv/docs'' sample_world = (Inr i, w') \<and> is_path_locked w' ''/srv/docs'' = Inr True \<and>
     is_path_locked sample_world ''/srv/docs'' = Inr False"
proof -
  have abs: "is_absolute ''/srv/docs''" by simp
  have "throw_on_invalid_path sample_world ''/srv/docs'' = Inr ()"
    by (simp add: throw_on_invalid_path_def sample_eval starts_with_def)
  then have "\<exists>i w'. lock_path ''/srv/docs'' sample_world = (Inr i, w')"
    using abs by (simp add: lock_path_def andthen_def make_path_lock_def construct_path_lock_def
        make_shared_lock_run map_prod_def split: prod.splits)
  moreover have "ran (lock_objects (w_heap sample_world)) = {}" by (simp add: sample_world_def empty_heap_def)
  ultimately show ?thesis using lock_is_seen [OF sample_world_ok abs] by fastforce
qed




end
