(* ===== verification/Client_Context.thy ===== *)
theory Client_Context
  imports Server_Context
begin

text \<open>
  The state of one client (\<open>client_context.hpp\<close>, \<open>client_context.cpp\<close>, \<open>protocol_mode.hpp\<close>)
  and the pair of the world and a client on which commands run. Dropping or overwriting a
  pointer frees the object it owned.
\<close>

section \<open>State\<close>

datatype ProtocolMode = mode_command | mode_download | mode_upload

record ClientContext =
  m_alive :: bool
  m_auth_try_count :: "7 word"
  m_mode :: ProtocolMode
  m_auth_token :: "oid option"
  m_current_path_lock :: "oid option"
  m_download_token :: "oid option"
  m_upload_token :: "oid option"

definition new_client_context :: ClientContext where
  "new_client_context = \<lparr>m_alive = True, m_auth_try_count = 0, m_mode = mode_command, m_auth_token = None,
     m_current_path_lock = None, m_download_token = None, m_upload_token = None\<rparr>"

record exec =
  ex_world :: world
  ex_client :: ClientContext

definition on_client :: "(ClientContext \<Rightarrow> ClientContext) \<Rightarrow> exec \<Rightarrow> exec" where
  "on_client f s = s\<lparr>ex_client := f (ex_client s)\<rparr>"

definition on_world :: "(world \<Rightarrow> world) \<Rightarrow> exec \<Rightarrow> exec" where
  "on_world f s = s\<lparr>ex_world := f (ex_world s)\<rparr>"

definition on_heap :: "(heap \<Rightarrow> heap) \<Rightarrow> exec \<Rightarrow> exec" where
  "on_heap f = on_world (\<lambda>w. set_heap (f (w_heap w)) w)"

text \<open>An operation of the server context as a step of a client's command.\<close>

definition with_world :: "('e, world, 'a) action \<Rightarrow> ('e, exec, 'a) action" where
  "with_world m s = (case m (ex_world s) of (r, w) \<Rightarrow> (r, s\<lparr>ex_world := w\<rparr>))"

section \<open>Operations\<close>

definition kill :: "(exn, exec, unit) action" where
  "kill = modify (on_client (\<lambda>c. c\<lparr>m_alive := False\<rparr>))"

definition set_mode :: "ProtocolMode \<Rightarrow> (exn, exec, unit) action" where
  "set_mode mode = modify (on_client (\<lambda>c. c\<lparr>m_mode := mode\<rparr>))"

definition is_authorized :: "ClientContext \<Rightarrow> bool" where
  "is_authorized c \<longleftrightarrow> m_auth_token c \<noteq> None"

definition set_auth_token :: "oid option \<Rightarrow> (exn, exec, unit) action" where
  "set_auth_token token =
     (case token of
        None \<Rightarrow> modify (on_client (\<lambda>c. c\<lparr>m_auth_try_count := m_auth_try_count c + 1\<rparr>))
      | Some i \<Rightarrow>
          bind (gets (\<lambda>s. is_authorized (ex_client s))) (\<lambda>authorized.
            if authorized then
              andthen (modify (on_heap (free_auth (Some i)))) (raise (protocol_error user_already_logged))
            else modify (on_client (\<lambda>c. c\<lparr>m_auth_token := Some i, m_auth_try_count := 0\<rparr>))))"

definition get_auth_try_count :: "ClientContext \<Rightarrow> int" where
  "get_auth_try_count c = sint (m_auth_try_count c)"

text \<open>The objects behind the client's pointers; a null pointer is dereferenced otherwise.\<close>

definition auth_token_of :: "exec \<Rightarrow> AuthToken option" where
  "auth_token_of s = Option.bind (m_auth_token (ex_client s)) (auth_objects (w_heap (ex_world s)))"

definition path_lock_of :: "exec \<Rightarrow> lock_object option" where
  "path_lock_of s = Option.bind (m_current_path_lock (ex_client s)) (lock_objects (w_heap (ex_world s)))"

definition get_auth_token :: "(exn, exec, AuthToken) action" where
  "get_auth_token s =
     (case auth_token_of s of None \<Rightarrow> raise (NullDereference ''m_auth_token'') s | Some a \<Rightarrow> ret a s)"

definition logout :: "(exn, exec, unit) action" where
  "logout = (\<lambda>s. ret () (on_client (\<lambda>c. c\<lparr>m_auth_token := None\<rparr>)
     (on_heap (free_auth (m_auth_token (ex_client s))) s)))"

definition set_path_lock :: "oid \<Rightarrow> (exn, exec, unit) action" where
  "set_path_lock i = (\<lambda>s. ret () (on_client (\<lambda>c. c\<lparr>m_current_path_lock := Some i\<rparr>)
     (on_heap (free_lock (m_current_path_lock (ex_client s))) s)))"

definition get_current_path :: "(exn, exec, path) action" where
  "get_current_path s =
     (case path_lock_of s of
        None \<Rightarrow> raise (NullDereference ''m_current_path_lock'') s
      | Some l \<Rightarrow> ret (get_locked_path l) s)"

definition set_current_path :: "path \<Rightarrow> (exn, exec, unit) action" where
  "set_current_path p s =
     (case (m_current_path_lock (ex_client s), path_lock_of s) of
        (Some i, Some l) \<Rightarrow> ret () (on_heap (set_lock i (set_locked_path p l)) s)
      | _ \<Rightarrow> raise (NullDereference ''m_current_path_lock'') s)"

definition has_download_token :: "ClientContext \<Rightarrow> bool" where
  "has_download_token c \<longleftrightarrow> m_download_token c \<noteq> None"

definition set_download_token :: "oid option \<Rightarrow> (exn, exec, unit) action" where
  "set_download_token token = (\<lambda>s. ret () (on_client (\<lambda>c. c\<lparr>m_download_token := token\<rparr>)
     (on_heap (free_lock (m_download_token (ex_client s))) s)))"

text \<open>Moving out of the context leaves a null pointer behind and frees nothing.\<close>

definition get_download_token :: "(exn, exec, oid option) action" where
  "get_download_token = (\<lambda>s. ret (m_download_token (ex_client s)) (on_client (\<lambda>c. c\<lparr>m_download_token := None\<rparr>) s))"

definition set_upload_token :: "oid option \<Rightarrow> (exn, exec, unit) action" where
  "set_upload_token token = (\<lambda>s. ret () (on_client (\<lambda>c. c\<lparr>m_upload_token := token\<rparr>)
     (on_heap (free_lock (m_upload_token (ex_client s))) s)))"

definition get_upload_token :: "(exn, exec, oid option) action" where
  "get_upload_token = (\<lambda>s. ret (m_upload_token (ex_client s)) (on_client (\<lambda>c. c\<lparr>m_upload_token := None\<rparr>) s))"

definition set_path_of_client :: "path \<Rightarrow> (exn, exec, unit) action" where
  "set_path_of_client new_path = set_current_path new_path"

definition relative_path_to :: "path \<Rightarrow> (exn, exec, path) action" where
  "relative_path_to p = gets (\<lambda>s. get_relative_path_to (ex_world s) p)"

section \<open>Ownership\<close>

text \<open>
  A client is well-formed in a world when each pointer it holds has a live object of the
  right kind; the kinds differ, so its lock pointers are different objects. An authorised
  client has a path lock, too, except in the moment between the two halves of \<open>auth\<close>.
\<close>

definition is_download :: "lock_object \<Rightarrow> bool" where
  "is_download l = (case l of Download_lock t \<Rightarrow> dt_offset t \<le> dt_size t | _ \<Rightarrow> False)"

definition is_upload :: "lock_object \<Rightarrow> bool" where
  "is_upload l = (case l of Upload_lock t \<Rightarrow> True | _ \<Rightarrow> False)"

definition is_plain :: "lock_object \<Rightarrow> bool" where
  "is_plain l = (case l of PathLock p \<Rightarrow> True | _ \<Rightarrow> False)"

definition points_to :: "heap \<Rightarrow> (lock_object \<Rightarrow> bool) \<Rightarrow> oid option \<Rightarrow> bool" where
  "points_to h kind p \<longleftrightarrow> (\<forall>i. p = Some i \<longrightarrow> (\<exists>l. lock_objects h i = Some l \<and> kind l))"

definition client_ok :: "heap \<Rightarrow> ClientContext \<Rightarrow> bool" where
  "client_ok h c \<longleftrightarrow>
     (\<forall>i. m_auth_token c = Some i \<longrightarrow> auth_objects h i \<noteq> None) \<and>
     points_to h is_plain (m_current_path_lock c) \<and>
     points_to h is_download (m_download_token c) \<and>
     points_to h is_upload (m_upload_token c)"

definition located :: "ClientContext \<Rightarrow> bool" where
  "located c \<longleftrightarrow> (is_authorized c \<longrightarrow> m_current_path_lock c \<noteq> None)"

definition base_ok :: "exec \<Rightarrow> bool" where
  "base_ok s \<longleftrightarrow> world_ok (ex_world s) \<and> client_ok (w_heap (ex_world s)) (ex_client s)"

definition exec_ok :: "exec \<Rightarrow> bool" where
  "exec_ok s \<longleftrightarrow> base_ok s \<and> located (ex_client s)"

definition authed :: "exec \<Rightarrow> bool" where
  "authed s \<longleftrightarrow> exec_ok s \<and> is_authorized (ex_client s)"

section \<open>Safe runs\<close>

text \<open>
  \<open>runs P m Q\<close>: from a state with \<open>P\<close>, the action ends in a state with \<open>Q\<close>, or it throws. It
  never dereferences a null pointer, it keeps pointers and world well-formed in every case,
  and a protocol error, after which the session goes on, leaves a complete client.
\<close>

fun is_null :: "exn \<Rightarrow> bool" where
  "is_null (NullDereference msg) = True"
| "is_null x = False"

fun is_protocol :: "exn \<Rightarrow> bool" where
  "is_protocol (ProtocolError code msg) = True"
| "is_protocol x = False"

definition throws_safely :: "exn \<Rightarrow> exec \<Rightarrow> bool" where
  "throws_safely x t \<longleftrightarrow> \<not> is_null x \<and> base_ok t \<and> (is_protocol x \<longrightarrow> exec_ok t)"

definition runs :: "(exec \<Rightarrow> bool) \<Rightarrow> (exn, exec, 'a) action \<Rightarrow> ('a \<Rightarrow> exec \<Rightarrow> bool) \<Rightarrow> bool" where
  "runs P m Q \<longleftrightarrow> (\<forall>s. P s \<longrightarrow> (case m s of (Inr x, t) \<Rightarrow> Q x t | (Inl x, t) \<Rightarrow> throws_safely x t))"

named_theorems runs_intros \<open>rules for safe runs\<close>

lemma runsI:
  "(\<And>s r t. P s \<Longrightarrow> m s = (r, t) \<Longrightarrow> case r of Inr x \<Rightarrow> Q x t | Inl x \<Rightarrow> throws_safely x t) \<Longrightarrow> runs P m Q"
  by (auto simp: runs_def split: prod.splits sum.splits)

lemma runsD:
  "runs P m Q \<Longrightarrow> P s \<Longrightarrow> m s = (r, t) \<Longrightarrow> case r of Inr x \<Rightarrow> Q x t | Inl x \<Rightarrow> throws_safely x t"
  by (auto simp: runs_def split: prod.splits)

lemma runs_bind:
  assumes "runs P m Q" and "\<And>x. runs (Q x) (f x) R"
  shows "runs P (bind m f) R"
  unfolding runs_def
proof (intro allI impI)
  fix s
  assume "P s"
  with assms(1) have m: "case m s of (Inr x, t) \<Rightarrow> Q x t | (Inl x, t) \<Rightarrow> throws_safely x t"
    by (simp add: runs_def)
  show "case bind m f s of (Inr x, t) \<Rightarrow> R x t | (Inl x, t) \<Rightarrow> throws_safely x t"
    using m assms(2) unfolding bind_def runs_def by (fastforce split: prod.splits sum.splits)
qed

lemma runs_andthen: "runs P m (\<lambda>_. Q) \<Longrightarrow> runs Q n R \<Longrightarrow> runs P (andthen m n) R"
  unfolding andthen_def by (rule runs_bind)

lemma runs_conseq: "runs P m Q \<Longrightarrow> (\<And>s. P' s \<Longrightarrow> P s) \<Longrightarrow> (\<And>x s. Q x s \<Longrightarrow> Q' x s) \<Longrightarrow> runs P' m Q'"
  unfolding runs_def by (fastforce split: prod.splits sum.splits)

lemma runs_fact: "(F \<Longrightarrow> runs P m Q) \<Longrightarrow> runs (\<lambda>s. P s \<and> F) m Q"
  by (auto simp: runs_def)

lemma runs_ret: "(\<And>s. P s \<Longrightarrow> Q x s) \<Longrightarrow> runs P (ret x) Q"
  by (simp add: runs_def)

lemma runs_raise: "\<not> is_null x \<Longrightarrow> (\<And>s. P s \<Longrightarrow> exec_ok s) \<Longrightarrow> runs P (raise x) Q"
  by (auto simp: runs_def throws_safely_def exec_ok_def)

lemma runs_gets: "(\<And>s. P s \<Longrightarrow> Q (f s) s) \<Longrightarrow> runs P (gets f) Q"
  by (simp add: runs_def)

lemma runs_modify: "(\<And>s. P s \<Longrightarrow> Q () (f s)) \<Longrightarrow> runs P (modify f) Q"
  by (simp add: runs_def)

lemma runs_from_sum:
  "(\<And>x. r = Inl x \<Longrightarrow> \<not> is_null x) \<Longrightarrow> (\<And>s. P s \<Longrightarrow> exec_ok s) \<Longrightarrow> (\<And>x s. r = Inr x \<Longrightarrow> P s \<Longrightarrow> Q x s) \<Longrightarrow>
   runs P (from_sum r) Q"
  by (cases r) (auto simp: runs_def throws_safely_def exec_ok_def)

lemma runs_gets_sum:
  assumes "\<And>s x. P s \<Longrightarrow> g s = Inl x \<Longrightarrow> \<not> is_null x" and "\<And>s. P s \<Longrightarrow> exec_ok s"
    and "\<And>x. runs (\<lambda>s. P s \<and> g s = Inr x) (f x) Q"
  shows "runs P (bind (gets g) (\<lambda>r. bind (from_sum r) f)) Q"
  using assms unfolding runs_def
  by (auto split: sum.splits simp: throws_safely_def exec_ok_def)

lemma runs_if: "(b \<Longrightarrow> runs P m Q) \<Longrightarrow> (\<not> b \<Longrightarrow> runs P n Q) \<Longrightarrow> runs P (if b then m else n) Q"
  by simp

lemma protocol_error_safe [simp]: "\<not> is_null (protocol_error code)"
  by (simp add: protocol_error_def)


section \<open>The operations keep the ownership\<close>

lemma heap_edit_simps [world_simps]:
  "auth_objects (free_lock p h) = auth_objects h" "lock_objects (free_auth p h) = lock_objects h"
  "auth_objects (set_lock i l h) = auth_objects h" "lock_objects (set_lock i l h) = (lock_objects h)(i \<mapsto> l)"
  by (simp_all add: free_lock_def free_auth_def set_lock_def split: option.splits)

lemma exec_simps [world_simps]:
  "ex_world (on_client f s) = ex_world s" "ex_client (on_client f s) = f (ex_client s)"
  "ex_client (on_world g s) = ex_client s" "ex_world (on_world g s) = g (ex_world s)"
  "ex_client (on_heap k s) = ex_client s" "ex_world (on_heap k s) = set_heap (k (w_heap (ex_world s))) (ex_world s)"
  by (simp_all add: on_client_def on_world_def on_heap_def)

lemma free_lock_other: "p \<noteq> Some i \<Longrightarrow> lock_objects (free_lock p h) i = lock_objects h i"
  by (auto simp: free_lock_def split: option.splits)

lemma free_auth_other: "p \<noteq> Some i \<Longrightarrow> auth_objects (free_auth p h) i = auth_objects h i"
  by (auto simp: free_auth_def split: option.splits)

lemma world_ok_heap_edits:
  "world_ok w \<Longrightarrow> world_ok (set_heap (free_auth p (w_heap w)) w)"
  "world_ok w \<Longrightarrow> world_ok (set_heap (free_lock p (w_heap w)) w)"
  "world_ok w \<Longrightarrow> lock_objects (w_heap w) i \<noteq> None \<Longrightarrow> is_absolute (get_locked_path l) \<Longrightarrow>
   world_ok (set_heap (set_lock i l (w_heap w)) w)"
  by (auto simp: world_ok_def sessions_ok_def locks_ok_def world_simps heap_fresh_ops)
    (auto simp: free_auth_def free_lock_def split: option.splits if_splits)

lemma points_to_free_other: "p \<noteq> q \<Longrightarrow> points_to h k q \<Longrightarrow> points_to (free_lock p h) k q"
  by (auto simp: points_to_def free_lock_other)

lemma kind_simps [simp]:
  "is_plain (PathLock p)" "is_download (Download_lock t) \<longleftrightarrow> dt_offset t \<le> dt_size t" "is_upload (Upload_lock u)"
  by (simp_all add: is_plain_def is_download_def is_upload_def)

lemma kinds_differ:
  "is_plain l \<Longrightarrow> \<not> is_download l" "is_plain l \<Longrightarrow> \<not> is_upload l" "is_download l \<Longrightarrow> \<not> is_upload l"
  "is_download l \<Longrightarrow> \<not> is_plain l" "is_upload l \<Longrightarrow> \<not> is_plain l" "is_upload l \<Longrightarrow> \<not> is_download l"
  by (auto simp: is_plain_def is_download_def is_upload_def split: lock_object.splits)

lemma points_to_differ:
  "points_to h k p \<Longrightarrow> points_to h k' q \<Longrightarrow> (\<And>l. k l \<Longrightarrow> \<not> k' l) \<Longrightarrow> p \<noteq> q \<or> q = None"
  by (cases q) (auto simp: points_to_def)

lemma points_to_free_kind:
  "points_to h k p \<Longrightarrow> points_to h k' q \<Longrightarrow> (\<And>l. k l \<Longrightarrow> \<not> k' l) \<Longrightarrow> points_to (free_lock p h) k' q"
  using points_to_differ [of h k p k' q] points_to_free_other [of p q h k']
  by (cases q) (auto simp: points_to_def)

lemma points_to_None [simp]: "points_to h k None"
  by (simp add: points_to_def)

lemma client_ok_extend:
  assumes "client_ok h c" and "\<And>i a. auth_objects h i = Some a \<Longrightarrow> auth_objects h' i = Some a"
    and "\<And>i l. lock_objects h i = Some l \<Longrightarrow> lock_objects h' i = Some l"
  shows "client_ok h' c"
proof -
  have "points_to h' k p" if "points_to h k p" for k p
    using that assms(3) unfolding points_to_def by blast
  with assms(1,2) show ?thesis unfolding client_ok_def by blast
qed

lemma authed_lock:
  assumes "authed s"
  obtains i p where "m_current_path_lock (ex_client s) = Some i"
    and "lock_objects (w_heap (ex_world s)) i = Some (PathLock p)" and "is_absolute p"
proof -
  obtain i where i: "m_current_path_lock (ex_client s) = Some i"
    using assms by (auto simp: authed_def exec_ok_def located_def)
  then obtain l where l: "lock_objects (w_heap (ex_world s)) i = Some l" "is_plain l"
    using assms by (auto simp: authed_def exec_ok_def base_ok_def client_ok_def points_to_def)
  moreover have "is_absolute (get_locked_path l)"
    using assms l(1) by (auto simp: authed_def exec_ok_def base_ok_def world_ok_def locks_ok_def)
  ultimately show thesis using that i by (cases l) (auto simp: is_plain_def)
qed

lemma authed_exec_ok: "authed s \<Longrightarrow> exec_ok s"
  by (simp add: authed_def)

lemma runs_get_current_path [runs_intros]:
  "runs authed get_current_path (\<lambda>p s. authed s \<and> is_absolute p)"
proof (rule runsI)
  fix s r t
  assume s: "authed s" and run: "get_current_path s = (r, t)"
  then obtain i p where "m_current_path_lock (ex_client s) = Some i"
    "lock_objects (w_heap (ex_world s)) i = Some (PathLock p)" "is_absolute p"
    using authed_lock by blast
  with run s show "case r of Inl x \<Rightarrow> throws_safely x t | Inr p \<Rightarrow> authed t \<and> is_absolute p"
    by (auto simp: get_current_path_def path_lock_of_def)
qed

lemma runs_get_auth_token [runs_intros]: "runs authed get_auth_token (\<lambda>a. authed)"
proof (rule runsI)
  fix s r t
  assume s: "authed s" and run: "get_auth_token s = (r, t)"
  then obtain i a where "m_auth_token (ex_client s) = Some i" "auth_objects (w_heap (ex_world s)) i = Some a"
    by (auto simp: authed_def exec_ok_def base_ok_def client_ok_def is_authorized_def)
  with run s show "case r of Inl x \<Rightarrow> throws_safely x t | Inr a \<Rightarrow> authed t"
    by (auto simp: get_auth_token_def auth_token_of_def)
qed

lemma runs_set_current_path [runs_intros]:
  assumes "is_absolute p"
  shows "runs authed (set_current_path p) (\<lambda>_. authed)"
proof (rule runsI)
  fix s r t
  assume s: "authed s" and run: "set_current_path p s = (r, t)"
  obtain i q where i: "m_current_path_lock (ex_client s) = Some i"
    "lock_objects (w_heap (ex_world s)) i = Some (PathLock q)"
    using s by (rule authed_lock)
  with run have t: "r = Inr ()" "t = on_heap (set_lock i (PathLock p)) s"
    by (auto simp: set_current_path_def path_lock_of_def)
  have "world_ok (ex_world t)"
    using s i assms by (simp add: t world_simps world_ok_heap_edits authed_def exec_ok_def base_ok_def)
  moreover have "client_ok (w_heap (ex_world t)) (ex_client t)"
    using s i
    by (auto simp: t world_simps authed_def exec_ok_def base_ok_def client_ok_def points_to_def is_plain_def
        is_download_def is_upload_def)
  ultimately show "case r of Inl x \<Rightarrow> throws_safely x t | Inr _ \<Rightarrow> authed t"
    using s t(1) by (simp add: t(2) world_simps authed_def exec_ok_def base_ok_def)
qed

lemma runs_kill [runs_intros]: "runs exec_ok kill (\<lambda>_. exec_ok)"
  by (rule runsI) (auto simp: kill_def world_simps exec_ok_def base_ok_def client_ok_def located_def is_authorized_def)

lemma runs_set_mode [runs_intros]: "runs exec_ok (set_mode m) (\<lambda>_. exec_ok)"
  by (rule runsI) (auto simp: set_mode_def world_simps exec_ok_def base_ok_def client_ok_def located_def is_authorized_def)

lemma runs_logout [runs_intros]: "runs exec_ok logout (\<lambda>_. exec_ok)"
  by (rule runsI)
    (auto simp: logout_def world_simps exec_ok_def base_ok_def client_ok_def located_def is_authorized_def
      world_ok_heap_edits points_to_def)

text \<open>Storing a new lock in a pointer: the object it held before is freed.\<close>

definition unowned :: "oid \<Rightarrow> exec \<Rightarrow> bool" where
  "unowned i s \<longleftrightarrow> m_current_path_lock (ex_client s) \<noteq> Some i \<and> m_download_token (ex_client s) \<noteq> Some i \<and>
     m_upload_token (ex_client s) \<noteq> Some i"

definition holds :: "(lock_object \<Rightarrow> bool) \<Rightarrow> oid \<Rightarrow> exec \<Rightarrow> bool" where
  "holds kind i s \<longleftrightarrow> unowned i s \<and> (\<exists>l. lock_objects (w_heap (ex_world s)) i = Some l \<and> kind l)"

lemma points_to_new:
  "holds k i s \<Longrightarrow> p = m_current_path_lock (ex_client s) \<or> p = m_download_token (ex_client s) \<or>
     p = m_upload_token (ex_client s) \<Longrightarrow>
   points_to (free_lock p (w_heap (ex_world s))) k (Some i)"
  by (auto simp: points_to_def holds_def unowned_def free_lock_other)

lemma client_ok_set_download:
  assumes "client_ok h c" and "points_to (free_lock (m_download_token c) h) is_download p"
  shows "client_ok (free_lock (m_download_token c) h) (c\<lparr>m_download_token := p\<rparr>)"
proof -
  have own: "points_to h is_download (m_download_token c)" and "points_to h is_plain (m_current_path_lock c)"
    and "points_to h is_upload (m_upload_token c)"
    using assms(1) by (simp_all add: client_ok_def)
  then have "points_to (free_lock (m_download_token c) h) is_plain (m_current_path_lock c)"
    and "points_to (free_lock (m_download_token c) h) is_upload (m_upload_token c)"
    using points_to_free_kind [OF own] kinds_differ by blast+
  with assms show ?thesis by (simp add: client_ok_def world_simps)
qed

lemma client_ok_set_upload:
  assumes "client_ok h c" and "points_to (free_lock (m_upload_token c) h) is_upload p"
  shows "client_ok (free_lock (m_upload_token c) h) (c\<lparr>m_upload_token := p\<rparr>)"
proof -
  have own: "points_to h is_upload (m_upload_token c)" and "points_to h is_plain (m_current_path_lock c)"
    and "points_to h is_download (m_download_token c)"
    using assms(1) by (simp_all add: client_ok_def)
  then have "points_to (free_lock (m_upload_token c) h) is_plain (m_current_path_lock c)"
    and "points_to (free_lock (m_upload_token c) h) is_download (m_download_token c)"
    using points_to_free_kind [OF own] kinds_differ by blast+
  with assms show ?thesis by (simp add: client_ok_def world_simps)
qed

lemma client_ok_set_path_lock:
  assumes "client_ok h c" and "points_to (free_lock (m_current_path_lock c) h) is_plain p"
  shows "client_ok (free_lock (m_current_path_lock c) h) (c\<lparr>m_current_path_lock := p\<rparr>)"
proof -
  have own: "points_to h is_plain (m_current_path_lock c)" and "points_to h is_download (m_download_token c)"
    and "points_to h is_upload (m_upload_token c)"
    using assms(1) by (simp_all add: client_ok_def)
  then have "points_to (free_lock (m_current_path_lock c) h) is_download (m_download_token c)"
    and "points_to (free_lock (m_current_path_lock c) h) is_upload (m_upload_token c)"
    using points_to_free_kind [OF own] kinds_differ by blast+
  with assms show ?thesis by (simp add: client_ok_def world_simps)
qed

lemma runs_set_download_token [runs_intros]:
  "runs (\<lambda>s. exec_ok s \<and> holds is_download i s) (set_download_token (Some i)) (\<lambda>_. exec_ok)"
proof (rule runsI)
  fix s r t
  assume s: "exec_ok s \<and> holds is_download i s" and run: "set_download_token (Some i) s = (r, t)"
  have "points_to (free_lock (m_download_token (ex_client s)) (w_heap (ex_world s))) is_download (Some i)"
    using s by (auto intro: points_to_new)
  then have "client_ok (free_lock (m_download_token (ex_client s)) (w_heap (ex_world s)))
      ((ex_client s)\<lparr>m_download_token := Some i\<rparr>)"
    using s by (simp add: exec_ok_def base_ok_def client_ok_set_download)
  with s run show "case r of Inl x \<Rightarrow> throws_safely x t | Inr _ \<Rightarrow> exec_ok t"
    by (auto simp: set_download_token_def world_simps exec_ok_def base_ok_def located_def is_authorized_def
        world_ok_heap_edits)
qed

lemma runs_set_upload_token [runs_intros]:
  "runs (\<lambda>s. exec_ok s \<and> holds is_upload i s) (set_upload_token (Some i)) (\<lambda>_. exec_ok)"
proof (rule runsI)
  fix s r t
  assume s: "exec_ok s \<and> holds is_upload i s" and run: "set_upload_token (Some i) s = (r, t)"
  have "points_to (free_lock (m_upload_token (ex_client s)) (w_heap (ex_world s))) is_upload (Some i)"
    using s by (auto intro: points_to_new)
  then have "client_ok (free_lock (m_upload_token (ex_client s)) (w_heap (ex_world s)))
      ((ex_client s)\<lparr>m_upload_token := Some i\<rparr>)"
    using s by (simp add: exec_ok_def base_ok_def client_ok_set_upload)
  with s run show "case r of Inl x \<Rightarrow> throws_safely x t | Inr _ \<Rightarrow> exec_ok t"
    by (auto simp: set_upload_token_def world_simps exec_ok_def base_ok_def located_def is_authorized_def
        world_ok_heap_edits)
qed

lemma set_path_lock_ok:
  assumes "base_ok s" and "holds is_plain i s"
  shows "exec_ok (snd (set_path_lock i s)) \<and> fst (set_path_lock i s) = Inr ()"
proof -
  have "points_to (free_lock (m_current_path_lock (ex_client s)) (w_heap (ex_world s))) is_plain (Some i)"
    using assms by (auto intro: points_to_new)
  then have "client_ok (free_lock (m_current_path_lock (ex_client s)) (w_heap (ex_world s)))
      ((ex_client s)\<lparr>m_current_path_lock := Some i\<rparr>)"
    using assms by (simp add: base_ok_def client_ok_set_path_lock)
  with assms show ?thesis
    by (auto simp: set_path_lock_def world_simps exec_ok_def base_ok_def located_def is_authorized_def
        world_ok_heap_edits)
qed

end
