(* ===== verification/Responses.thy ===== *)
theory Responses
  imports Errors
begin

text \<open>
  Responses and the socket side of a client: \<open>Response\<close> and \<open>ResponseBuilder\<close>
  (\<open>response.cpp\<close>, \<open>response_builder.cpp\<close>), the queue that writes responses to the socket
  (\<open>sender.cpp\<close>) and the reader of a client's input (\<open>receiver.cpp\<close>). The kernel's side of
  the socket is an input: the list of answers it gives to the successive \<open>write\<close> or \<open>read\<close>
  calls of one pass, where the end of the list stands for a socket that would block.
\<close>

section \<open>Building a response\<close>

record Response =
  rs_data :: bytes
  rs_offset :: nat

definition make_response :: "bytes \<Rightarrow> Response" where
  "make_response data = \<lparr>rs_data = data, rs_offset = 0\<rparr>"

definition get_remaining_byte_count :: "Response \<Rightarrow> nat" where
  "get_remaining_byte_count r = length (rs_data r) - rs_offset r"

definition add_read_byte_count :: "nat \<Rightarrow> Response \<Rightarrow> Response" where
  "add_read_byte_count offset r = r\<lparr>rs_offset := rs_offset r + min offset (get_remaining_byte_count r)\<rparr>"

definition is_fully_sent :: "Response \<Rightarrow> bool" where
  "is_fully_sent r \<longleftrightarrow> get_remaining_byte_count r = 0"

text \<open>The bytes from the data pointer to the end of the response.\<close>

definition get_data_pointer :: "Response \<Rightarrow> bytes" where
  "get_data_pointer r = drop (rs_offset r) (rs_data r)"

record ResponseBuilder =
  rb_code :: ProtocolCode
  rb_command_name :: string
  rb_lines :: bytes

definition new_builder :: ResponseBuilder where
  "new_builder = \<lparr>rb_code = ok, rb_command_name = [], rb_lines = []\<rparr>"

definition set_code :: "ProtocolCode \<Rightarrow> ResponseBuilder \<Rightarrow> ResponseBuilder" where
  "set_code code b = b\<lparr>rb_code := code\<rparr>"

definition set_command_name :: "string \<Rightarrow> ResponseBuilder \<Rightarrow> ResponseBuilder" where
  "set_command_name name b = b\<lparr>rb_command_name := name\<rparr>"

definition add_line :: "string \<Rightarrow> ResponseBuilder \<Rightarrow> ResponseBuilder" where
  "add_line line b = b\<lparr>rb_lines := rb_lines b @ line @ [newline]\<rparr>"

definition get_response :: "ResponseBuilder \<Rightarrow> Response" where
  "get_response b = make_response (nat_to_string (code_value (rb_code b)) @ '' '' @ rb_command_name b @
     [newline] @ rb_lines b @ [newline])"

section \<open>Sender\<close>

datatype io_answer = Transferred nat | Io_error nat

definition EAGAIN :: nat where "EAGAIN = 11"
definition ENOTCONN :: nat where "ENOTCONN = 107"

record Sender =
  m_responses :: "Response list"
  m_errc :: nat
  m_sent_byte_count :: nat

definition new_sender :: Sender where
  "new_sender = \<lparr>m_responses = [], m_errc = 0, m_sent_byte_count = 0\<rparr>"

definition add_response :: "Response \<Rightarrow> Sender \<Rightarrow> Sender" where
  "add_response r s = s\<lparr>m_responses := m_responses s @ [r]\<rparr>"

definition has_responses :: "Sender \<Rightarrow> bool" where
  "has_responses s \<longleftrightarrow> m_responses s \<noteq> []"

text \<open>
  The write loop; the second result is what went onto the wire. One call of \<open>write(2)\<close>
  takes at most the bytes it was given.
\<close>

primrec sender_write :: "io_answer list \<Rightarrow> Sender \<Rightarrow> Sender \<times> bytes" where
  "sender_write [] s = (if m_responses s = [] then (s, []) else (s\<lparr>m_errc := EAGAIN\<rparr>, []))"
| "sender_write (a # as) s =
     (case m_responses s of
        [] \<Rightarrow> (s, [])
      | r # rs \<Rightarrow>
          (case a of
             Io_error code \<Rightarrow> (s\<lparr>m_errc := code\<rparr>, [])
           | Transferred n \<Rightarrow>
               let count = min n (get_remaining_byte_count r)
               in if count = 0 then (s, [])
                  else
                    let r' = add_read_byte_count count r;
                        s' = s\<lparr>m_sent_byte_count := m_sent_byte_count s + count,
                               m_responses := (if is_fully_sent r' then rs else r' # rs)\<rparr>;
                        (t, out) = sender_write as s'
                    in (t, take count (get_data_pointer r) @ out)))"

definition sender_check_error :: "Sender \<Rightarrow> exn + unit" where
  "sender_check_error s =
     (if m_errc s \<noteq> 0 \<and> m_errc s \<noteq> EAGAIN then Inl (SystemError (m_errc s) ''Sender::write(2)'') else Inr ())"

definition sender_send :: "io_answer list \<Rightarrow> Sender \<Rightarrow> (exn + nat) \<times> Sender \<times> bytes" where
  "sender_send answers s =
     (let (s', out) = sender_write answers (s\<lparr>m_errc := 0, m_sent_byte_count := 0\<rparr>)
      in (map_sum id (\<lambda>_. m_sent_byte_count s') (sender_check_error s'), s', out))"

section \<open>Receiver\<close>

datatype read_answer = Received bytes | Read_error nat

definition receive_buffer_size :: nat where "receive_buffer_size = 4096"

text \<open>The read loop: the data so far and the error code. An empty read is the end of the stream.\<close>

primrec receiver_read :: "read_answer list \<Rightarrow> bytes \<Rightarrow> bytes \<times> nat" where
  "receiver_read [] data = (data, EAGAIN)"
| "receiver_read (a # as) data =
     (case a of
        Read_error code \<Rightarrow> (data, code)
      | Received b \<Rightarrow> if b = [] then (data, 0) else receiver_read as (data @ take receive_buffer_size b))"

definition receiver_receive :: "read_answer list \<Rightarrow> exn + bytes" where
  "receiver_receive answers =
     (let (data, errc) = receiver_read answers []
      in if errc \<noteq> EAGAIN then
           (if errc \<noteq> 0 then Inl (SystemError errc ''Receiver::read(2)'')
            else if length data = 0 then Inl (SystemError ENOTCONN ''Receiver::read(2)'')
            else Inr data)
         else Inr data)"

section \<open>What goes onto the wire\<close>

text \<open>
  The contract of a source of output bytes: what it has promised to send and has not yet
  sent, and that one pass moves a prefix of this onto the wire whatever the kernel answers.
\<close>

primrec emit_passes :: "('a \<Rightarrow> 'st \<Rightarrow> 'st \<times> bytes) \<Rightarrow> 'a list \<Rightarrow> 'st \<Rightarrow> 'st \<times> bytes" where
  "emit_passes emit [] st = (st, [])"
| "emit_passes emit (a # as) st =
     (let (st', out) = emit a st; (st'', outs) = emit_passes emit as st' in (st'', out @ outs))"

locale byte_source =
  fixes emit :: "'a \<Rightarrow> 'st \<Rightarrow> 'st \<times> bytes"
    and pending :: "'st \<Rightarrow> bytes"
    and valid :: "'st \<Rightarrow> bool"
  assumes emit_prefix: "valid st \<Longrightarrow> emit a st = (st', out) \<Longrightarrow> pending st = out @ pending st'"
    and emit_valid: "valid st \<Longrightarrow> emit a st = (st', out) \<Longrightarrow> valid st'"
begin

lemma passes_prefix:
  "valid st \<Longrightarrow> emit_passes emit as st = (st', out) \<Longrightarrow> valid st' \<and> pending st = out @ pending st'"
proof (induction as arbitrary: st st' out)
  case (Cons a as)
  obtain st1 out1 where one: "emit a st = (st1, out1)" by (cases "emit a st")
  obtain st2 out2 where rest: "emit_passes emit as st1 = (st2, out2)" by (cases "emit_passes emit as st1")
  have "valid st1" using emit_valid [OF Cons.prems(1) one] .
  from Cons.IH [OF this rest] have "valid st2 \<and> pending st1 = out2 @ pending st2" .
  with emit_prefix [OF Cons.prems(1) one] one rest Cons.prems(2) show ?case by auto
qed simp

lemma passes_complete:
  "valid st \<Longrightarrow> emit_passes emit as st = (st', out) \<Longrightarrow> pending st' = [] \<Longrightarrow> out = pending st"
  using passes_prefix by fastforce

end

definition response_wf :: "Response \<Rightarrow> bool" where
  "response_wf r \<longleftrightarrow> rs_offset r < length (rs_data r)"

definition sender_wf :: "Sender \<Rightarrow> bool" where
  "sender_wf s \<longleftrightarrow> list_all response_wf (m_responses s)"

definition sender_pending :: "Sender \<Rightarrow> bytes" where
  "sender_pending s = concat (map get_data_pointer (m_responses s))"

lemma response_advance:
  assumes "response_wf r" and "n \<le> get_remaining_byte_count r"
  shows "get_data_pointer r = take n (get_data_pointer r) @ get_data_pointer (add_read_byte_count n r)"
    and "is_fully_sent (add_read_byte_count n r) \<longleftrightarrow> get_data_pointer (add_read_byte_count n r) = []"
    and "\<not> is_fully_sent (add_read_byte_count n r) \<Longrightarrow> response_wf (add_read_byte_count n r)"
  using assms
  by (auto simp: add_read_byte_count_def get_remaining_byte_count_def get_data_pointer_def is_fully_sent_def
      response_wf_def min_def add.commute)
    (metis append_take_drop_id drop_drop)

lemma sender_write_spec:
  "sender_wf s \<Longrightarrow> sender_write as s = (t, out) \<Longrightarrow>
   sender_wf t \<and> sender_pending s = out @ sender_pending t \<and>
   m_sent_byte_count t = m_sent_byte_count s + length out"
proof (induction as arbitrary: s t out)
  case Nil
  then show ?case by (auto simp: sender_wf_def sender_pending_def split: if_splits)
next
  case (Cons a as)
  show ?case
  proof (cases "m_responses s")
    case Nil
    with Cons.prems show ?thesis by auto
  next
    case rs: (Cons r rs)
    show ?thesis
    proof (cases a)
      case (Io_error code)
      with Cons.prems rs show ?thesis by (auto simp: sender_wf_def sender_pending_def)
    next
      case (Transferred n)
      define k where "k = min n (get_remaining_byte_count r)"
      define r' where "r' = add_read_byte_count k r"
      define s' where "s' = s\<lparr>m_sent_byte_count := m_sent_byte_count s + k,
        m_responses := (if is_fully_sent r' then rs else r' # rs)\<rparr>"
      have wf: "response_wf r" "list_all response_wf rs" using Cons.prems(1) rs by (auto simp: sender_wf_def)
      have k: "k \<le> get_remaining_byte_count r" by (simp add: k_def)
      note adv = response_advance [OF wf(1) k, folded r'_def]
      show ?thesis
      proof (cases "k = 0")
        case True
        with Cons.prems rs Transferred show ?thesis by (auto simp: k_def [symmetric] Let_def)
      next
        case False
        obtain t2 out2 where rec: "sender_write as s' = (t2, out2)" by (cases "sender_write as s'")
        have eq: "t = t2" "out = take k (get_data_pointer r) @ out2"
          using Cons.prems(2) rs Transferred False rec
          by (auto simp: k_def [symmetric] r'_def [symmetric] s'_def [symmetric] Let_def)
        have "sender_wf s'" using wf adv(3) by (auto simp: s'_def sender_wf_def)
        from Cons.IH [OF this rec]
        have ih: "sender_wf t2 \<and> sender_pending s' = out2 @ sender_pending t2 \<and>
          m_sent_byte_count t2 = m_sent_byte_count s' + length out2" .
        have "sender_pending s = take k (get_data_pointer r) @ sender_pending s'"
          using adv(1,2) rs by (auto simp: sender_pending_def s'_def)
        moreover have "length (take k (get_data_pointer r)) = k"
          using k by (simp add: get_remaining_byte_count_def get_data_pointer_def)
        ultimately show ?thesis using ih eq by (simp add: s'_def)
      qed
    qed
  qed
qed

interpretation sender_source: byte_source "\<lambda>answers s. snd (sender_send answers s)" sender_pending sender_wf
proof
  fix s answers t out
  assume wf: "sender_wf s" and emit: "snd (sender_send answers s) = (t, out)"
  define s0 where "s0 = s\<lparr>m_errc := 0, m_sent_byte_count := 0\<rparr>"
  have same: "sender_wf s0" "sender_pending s0 = sender_pending s"
    using wf by (simp_all add: s0_def sender_wf_def sender_pending_def)
  have "sender_write answers s0 = (t, out)"
    using emit by (simp add: sender_send_def s0_def Let_def split: prod.splits)
  from sender_write_spec [OF same(1) this] same(2)
  show "sender_pending s = out @ sender_pending t" and "sender_wf t" by simp_all
qed

lemma add_response_pending:
  "sender_pending (add_response r s) = sender_pending s @ get_data_pointer r"
  by (simp add: sender_pending_def add_response_def)

lemma built_response_wf [simp]: "response_wf (get_response b)"
  by (simp add: response_wf_def get_response_def make_response_def)

lemma sender_wf_add: "sender_wf s \<Longrightarrow> response_wf r \<Longrightarrow> sender_wf (add_response r s)"
  by (simp add: sender_wf_def add_response_def)


lemma sender_write_drains:
  assumes "sender_wf s" and "length as \<ge> length (sender_pending s)"
    and "list_all (\<lambda>a. \<exists>n>0. a = Transferred n) as"
  shows "\<exists>t out. sender_write as s = (t, out) \<and> m_responses t = [] \<and> m_errc t = m_errc s"
  using assms
proof (induction as arbitrary: s)
  case Nil
  then show ?case
    by (cases "m_responses s")
      (auto simp: sender_pending_def sender_wf_def response_wf_def get_data_pointer_def)
next
  case (Cons a as)
  from Cons.prems(3) obtain n where a: "a = Transferred n" "n > 0" by auto
  show ?case
  proof (cases "m_responses s")
    case Nil
    then show ?thesis by simp
  next
    case rs: (Cons r rs)
    define k where "k = min n (get_remaining_byte_count r)"
    define r' where "r' = add_read_byte_count k r"
    define s' where "s' = s\<lparr>m_sent_byte_count := m_sent_byte_count s + k,
      m_responses := (if is_fully_sent r' then rs else r' # rs)\<rparr>"
    have wf: "response_wf r" "list_all response_wf rs" using Cons.prems(1) rs by (auto simp: sender_wf_def)
    then have "get_remaining_byte_count r > 0" by (simp add: response_wf_def get_remaining_byte_count_def)
    with a(2) have k: "k \<le> get_remaining_byte_count r" "k > 0" by (simp_all add: k_def)
    note adv = response_advance [OF wf(1) k(1), folded r'_def]
    have "sender_wf s'" using wf adv(3) by (auto simp: s'_def sender_wf_def)
    moreover have "sender_pending s = take k (get_data_pointer r) @ sender_pending s'"
      using adv(1,2) rs by (auto simp: sender_pending_def s'_def)
    then have "length (sender_pending s) = k + length (sender_pending s')"
      using k by (simp add: get_remaining_byte_count_def get_data_pointer_def)
    with Cons.prems(2) k(2) have "length (sender_pending s') \<le> length as" by simp
    ultimately obtain t out where "sender_write as s' = (t, out)" "m_responses t = []" "m_errc t = m_errc s'"
      using Cons.IH [of s'] Cons.prems(3) by auto
    with a k(2) rs show ?thesis
      by (simp add: k_def [symmetric] r'_def [symmetric] s'_def [symmetric] Let_def) (simp add: s'_def)
  qed
qed

lemma receiver_read_all:
  "list_all (\<lambda>b. b \<noteq> [] \<and> length b \<le> receive_buffer_size) bs \<Longrightarrow>
   receiver_read (map Received bs @ as) data = receiver_read as (data @ concat bs)"
  by (induction bs arbitrary: data) auto

section \<open>Properties\<close>

text \<open>
  C24: responses leave in the order they were queued, and no byte is lost, repeated or
  reordered: over any number of passes and for any answers of the kernel, what has gone
  onto the wire followed by what is still queued is what had been queued.
\<close>

theorem sender_fifo:
  assumes "sender_wf s"
    and "emit_passes (\<lambda>answers s. snd (sender_send answers s)) passes (add_response (get_response b) s) = (t, out)"
  shows "out @ sender_pending t = sender_pending s @ rs_data (get_response b) \<and> sender_wf t"
proof -
  have wf: "sender_wf (add_response (get_response b) s)" using assms(1) by (simp add: sender_wf_add)
  have "get_data_pointer (get_response b) = rs_data (get_response b)"
    by (simp add: get_data_pointer_def get_response_def make_response_def)
  with sender_source.passes_prefix [OF wf assms(2)] show ?thesis by (simp add: add_response_pending)
qed

theorem sender_fifo_witness:
  "\<exists>t out. emit_passes (\<lambda>answers s. snd (sender_send answers s)) [[Transferred 3], [Transferred 2, Io_error 11]]
       (add_response (get_response new_builder) new_sender) = (t, out) \<and>
     out @ sender_pending t = rs_data (get_response new_builder)"
proof -
  have "sender_wf new_sender" and "sender_pending new_sender = []"
    by (simp_all add: sender_wf_def new_sender_def sender_pending_def)
  with sender_fifo [OF this(1), of "[[Transferred 3], [Transferred 2, Io_error 11]]" new_builder] show ?thesis
    by (cases "emit_passes (\<lambda>answers s. snd (sender_send answers s)) [[Transferred 3], [Transferred 2, Io_error 11]]
       (add_response (get_response new_builder) new_sender)") auto
qed

text \<open>
  One pass empties the queue when the socket accepts at least one byte per call: with as
  many accepting answers as there are queued bytes, \<open>send\<close> returns the number of queued
  bytes, the queue is empty afterwards and all of it is on the wire.
\<close>

lemma sender_drains:
  assumes "sender_wf s" and "length answers \<ge> length (sender_pending s)"
    and "list_all (\<lambda>a. \<exists>n>0. a = Transferred n) answers"
  shows "\<exists>t. sender_send answers s = (Inr (length (sender_pending s)), t, sender_pending s) \<and> \<not> has_responses t"
proof -
  define s0 where "s0 = s\<lparr>m_errc := 0, m_sent_byte_count := 0\<rparr>"
  have same: "sender_wf s0" "sender_pending s0 = sender_pending s"
    using assms(1) by (simp_all add: s0_def sender_wf_def sender_pending_def)
  obtain t out where w: "sender_write answers s0 = (t, out)" "m_responses t = []" "m_errc t = m_errc s0"
    using sender_write_drains [OF same(1), of answers] assms(2,3) same(2) by auto
  have "sender_pending t = []" using w(2) by (simp add: sender_pending_def)
  with sender_write_spec [OF same(1) w(1)] same(2) w show ?thesis
    by (simp add: sender_send_def s0_def [symmetric] sender_check_error_def has_responses_def) (simp add: s0_def)
qed

lemma sender_drains_witness:
  "\<exists>t. sender_send (replicate 6 (Transferred 2)) (add_response (make_response ''100 x'') new_sender) =
      (Inr 5, t, ''100 x'')"
  using sender_drains [of "add_response (make_response ''100 x'') new_sender" "replicate 6 (Transferred 2)"]
  by (auto simp: sender_wf_def add_response_def make_response_def new_sender_def response_wf_def
      sender_pending_def get_data_pointer_def list_all_iff)

text \<open>
  What a pass of the receiver makes of the kernel's answers. After blocks of at most
  4096 bytes, a socket that would block gives all the bytes in order; the end of the stream
  gives the bytes if there are any and otherwise the error \<open>ENOTCONN\<close>; any other error is
  thrown with its number.
\<close>

lemma receiver_classification:
  assumes "list_all (\<lambda>b. b \<noteq> [] \<and> length b \<le> receive_buffer_size) bs"
  shows "receiver_receive (map Received bs) = Inr (concat bs) \<and>
    receiver_receive (map Received bs @ Read_error EAGAIN # later) = Inr (concat bs) \<and>
    receiver_receive (map Received bs @ Received [] # later) =
      (if bs = [] then Inl (SystemError ENOTCONN ''Receiver::read(2)'') else Inr (concat bs)) \<and>
    (code = 0 \<or> code = EAGAIN \<or>
     receiver_receive (map Received bs @ Read_error code # later) = Inl (SystemError code ''Receiver::read(2)''))"
proof -
  have "concat bs = [] \<longleftrightarrow> bs = []" using assms by (cases bs) auto
  then show ?thesis
    using receiver_read_all [OF assms, of "[]" "[]"] receiver_read_all [OF assms, of "_ # later" "[]"]
    by (simp add: receiver_receive_def EAGAIN_def)
qed

lemma receiver_classification_witness:
  "receiver_receive [Received ''ab'', Received ''c'', Received []] = Inr ''abc'' \<and>
   receiver_receive [Received []] = Inl (SystemError 107 ''Receiver::read(2)'')"
  using receiver_classification [of "[''ab'', ''c'']" "[]" 0] receiver_classification [of "[]" "[]" 0]
  by (simp add: receive_buffer_size_def ENOTCONN_def)

end
