(* ===== verification/Protocol_Field.thy ===== *)
theory Protocol_Field
  imports Errors
begin

text \<open>
  The fields of a request (\<open>field_value.hpp\<close>, \<open>field.hpp\<close>, \<open>field.cpp\<close>): a name and a boolean,
  integer or string value, parsed from one line. The parser is written with the positions
  that \<open>std::string_view\<close> returns, as in the code; it is proved equivalent to the grammar of
  the protocol's documentation.
\<close>

section \<open>Field values\<close>

datatype FieldValue = monostate | boolean bool | integer u64 | string_value string

datatype FieldValueType = type_none | type_boolean | type_integer | type_string

record Field =
  f_name :: string
  f_value :: FieldValue

fun get_value_type :: "Field \<Rightarrow> FieldValueType" where
  "get_value_type f =
     (case f_value f of monostate \<Rightarrow> type_none | boolean b \<Rightarrow> type_boolean
      | integer i \<Rightarrow> type_integer | string_value s \<Rightarrow> type_string)"

definition get_boolean :: "Field \<Rightarrow> bool option" where
  "get_boolean f = (case f_value f of boolean b \<Rightarrow> Some b | _ \<Rightarrow> None)"

definition get_integer :: "Field \<Rightarrow> u64 option" where
  "get_integer f = (case f_value f of integer i \<Rightarrow> Some i | _ \<Rightarrow> None)"

definition get_string :: "Field \<Rightarrow> string option" where
  "get_string f = (case f_value f of string_value s \<Rightarrow> Some s | _ \<Rightarrow> None)"

section \<open>String views\<close>

definition find_first_not_of :: "string \<Rightarrow> string \<Rightarrow> nat \<Rightarrow> nat option" where
  "find_first_not_of s cs pos =
     (case dropWhile (\<lambda>c. c \<in> set cs) (drop pos s) of
        [] \<Rightarrow> None | r \<Rightarrow> Some (length s - length r))"

definition find_last_not_of :: "string \<Rightarrow> string \<Rightarrow> nat option" where
  "find_last_not_of s cs =
     (case dropWhile (\<lambda>c. c \<in> set cs) (rev s) of [] \<Rightarrow> None | r \<Rightarrow> Some (length r - 1))"

definition find_if_not_from :: "(char \<Rightarrow> bool) \<Rightarrow> string \<Rightarrow> nat \<Rightarrow> nat" where
  "find_if_not_from P s pos = length s - length (dropWhile P (drop pos s))"

definition substr :: "string \<Rightarrow> nat \<Rightarrow> nat \<Rightarrow> string" where
  "substr s pos n = take n (drop pos s)"

text \<open>\<open>std::from_chars\<close> on a string of digits: out of range where the value needs more than 64 bits.\<close>

definition from_chars_u64 :: "string \<Rightarrow> u64 option" where
  "from_chars_u64 ds = (if decimal_value ds < 2 ^ 64 then Some (of_nat (decimal_value ds)) else None)"

section \<open>The parser\<close>

definition allowed_whitespaces :: string where
  "allowed_whitespaces = [CHR '' '', tab_char]"

abbreviation is_lower :: "char \<Rightarrow> bool" where
  "is_lower \<equiv> in_char_range CHR ''a'' CHR ''z''"

abbreviation bad_field_error :: "string \<Rightarrow> exn" where
  "bad_field_error msg \<equiv> ProtocolError bad_field msg"

definition field_of_value :: "string \<Rightarrow> string \<Rightarrow> exn + Field" where
  "field_of_value field_name field_value =
     (if field_value = [] then Inl (bad_field_error ''field value cannot be empty'')
      else if field_value = ''true'' then Inr \<lparr>f_name = field_name, f_value = boolean True\<rparr>
      else if field_value = ''false'' then Inr \<lparr>f_name = field_name, f_value = boolean False\<rparr>
      else if list_all is_digit field_value then
        (case from_chars_u64 field_value of
           None \<Rightarrow> Inl (bad_field_error
             (''invalid integer value in field '' @ [apostrophe] @ field_value @ [apostrophe]))
         | Some i \<Rightarrow> Inr \<lparr>f_name = field_name, f_value = integer i\<rparr>)
      else if hd field_value = apostrophe \<and> last field_value = apostrophe then
        Inr \<lparr>f_name = field_name, f_value = string_value (drop 1 (butlast field_value))\<rparr>
      else Inr \<lparr>f_name = field_name, f_value = string_value field_value\<rparr>)"

text \<open>
  The position after the name is at most the length of the line, so the code's test of it
  against \<open>npos\<close> never succeeds and has no branch here. The search for the last character
  finds one because the search for the first did; its \<open>None\<close> branch is never taken.
\<close>

definition field_from_string :: "string \<Rightarrow> exn + Field" where
  "field_from_string str =
     (case find_first_not_of str allowed_whitespaces 0 of
        None \<Rightarrow> Inl (bad_field_error ''field name not found'')
      | Some first_char_of_name \<Rightarrow>
          let first_char_after_name = find_if_not_from is_lower str first_char_of_name;
              field_name = substr str first_char_of_name (first_char_after_name - first_char_of_name)
          in (case find_first_not_of str allowed_whitespaces first_char_after_name of
                None \<Rightarrow> Inl (bad_field_error (''expected '' @ [apostrophe, CHR '':'', apostrophe] @ '' field separator''))
              | Some separator_position \<Rightarrow>
                  if str ! separator_position \<noteq> CHR '':''
                  then Inl (bad_field_error (''expected '' @ [apostrophe, CHR '':'', apostrophe] @ '' field separator''))
                  else
                    (case find_first_not_of str allowed_whitespaces (separator_position + 1) of
                       None \<Rightarrow> Inl (bad_field_error ''unexpected end of field value'')
                     | Some first_char_of_value \<Rightarrow>
                         (case find_last_not_of str allowed_whitespaces of
                            None \<Rightarrow> Inl (bad_field_error ''field value cannot be empty'')
                          | Some last_char_of_value \<Rightarrow>
                              field_of_value field_name
                                (substr str first_char_of_value
                                   (last_char_of_value - first_char_of_value + 1))))))"

section \<open>The grammar of a field line\<close>

definition blank :: "char \<Rightarrow> bool" where
  "blank c \<longleftrightarrow> c = CHR '' '' \<or> c = tab_char"

inductive field_line :: "string \<Rightarrow> string \<Rightarrow> string \<Rightarrow> bool" where
  field_line: "field_line (w1 @ name @ w2 @ CHR '':'' # w3 @ value @ w4) name value"
    if "list_all blank w1" "list_all is_lower name" "list_all blank w2"
       "list_all blank w3" "list_all blank w4"
       "value \<noteq> []" "\<not> blank (hd value)" "\<not> blank (last value)"

inductive_cases field_lineE: "field_line str name value"

section \<open>Positions and remaining input\<close>

lemma whitespace_blank: "(\<lambda>c. c \<in> set allowed_whitespaces) = blank"
  by (auto simp: allowed_whitespaces_def blank_def)

lemma drop_dropWhile: "drop (length s - length (dropWhile P (drop p s))) s = dropWhile P (drop p s)"
proof -
  obtain u where u: "drop p s = u @ dropWhile P (drop p s)"
    by (metis takeWhile_dropWhile_id)
  then have "s = (take p s @ u) @ dropWhile P (drop p s)"
    by (metis append.assoc append_take_drop_id)
  then show ?thesis
    by (metis append_eq_conv_conj diff_add_inverse2 length_append)
qed

lemma find_first_not_of_eq:
  "find_first_not_of s allowed_whitespaces p =
     (if dropWhile blank (drop p s) = [] then None
      else Some (length s - length (dropWhile blank (drop p s))))"
  by (cases "dropWhile blank (drop p s)") (simp_all add: find_first_not_of_def whitespace_blank del: dropWhile_eq_Nil_conv)

lemma find_last_not_of_eq:
  "find_last_not_of s allowed_whitespaces =
     (if dropWhile blank (rev s) = [] then None else Some (length (dropWhile blank (rev s)) - 1))"
  by (cases "dropWhile blank (rev s)") (simp_all add: find_last_not_of_def whitespace_blank del: dropWhile_eq_Nil_conv)

definition rtrim :: "string \<Rightarrow> string" where
  "rtrim s = rev (dropWhile blank (rev s))"

lemma rtrim_take: "rtrim s = take (length (dropWhile blank (rev s))) s"
proof -
  obtain u where "rev s = u @ dropWhile blank (rev s)"
    by (metis takeWhile_dropWhile_id)
  then have "s = rev (dropWhile blank (rev s)) @ rev u"
    by (metis rev_append rev_rev_ident)
  then show ?thesis unfolding rtrim_def
    by (metis append_eq_conv_conj length_rev)
qed

lemma rtrim_append: "dropWhile blank (rev v) \<noteq> [] \<Longrightarrow> rtrim (u @ v) = u @ rtrim v"
  unfolding rtrim_def by (simp add: dropWhile_append3 dropWhile_eq_Nil_conv dropWhile_append) auto

lemma trimmed_value:
  assumes "drop m s = e" and "e \<noteq> []" and "\<not> blank (hd e)"
  shows "\<exists>n. find_last_not_of s allowed_whitespaces = Some n \<and> substr s m (n - m + 1) = rtrim e"
proof -
  have ne: "dropWhile blank (rev e) \<noteq> []"
    using assms(2,3) by (cases e) (auto simp: dropWhile_eq_Nil_conv)
  have s: "s = take m s @ e" using assms(1) by (metis append_take_drop_id)
  have len_m: "length (take m s) = m"
    using assms(1,2) by (metis drop_all length_take linorder_not_less min.absorb2 order_less_imp_le)
  have trim: "rtrim s = take m s @ rtrim e"
    by (subst s, subst rtrim_append [OF ne]) (rule refl)
  have len: "length (dropWhile blank (rev s)) = m + length (rtrim e)"
    using arg_cong [OF trim, of length] len_m by (simp add: rtrim_def)
  have pos: "0 < length (rtrim e)" using ne by (simp add: rtrim_def)
  have "find_last_not_of s allowed_whitespaces = Some (m + length (rtrim e) - 1)"
    using len pos by (auto simp: find_last_not_of_eq simp del: dropWhile_eq_Nil_conv)
  moreover have "substr s m (m + length (rtrim e) - 1 - m + 1) = rtrim e"
  proof -
    have "m + length (rtrim e) - 1 - m + 1 = length (dropWhile blank (rev e))"
      using pos by (simp add: rtrim_def)
    then show ?thesis by (simp only: substr_def assms(1) rtrim_take)
  qed
  ultimately show ?thesis by blast
qed

lemma taken_length: "length (takeWhile P a) = length a - length (dropWhile P a)"
  by (metis add_diff_cancel_right' length_append takeWhile_dropWhile_id)

lemma substr_taken:
  assumes "drop i str = a" and "i = length str - length a" and "length a \<le> length str" and "j = length str - length (dropWhile P a)"
  shows "substr str i (j - i) = takeWhile P a"
proof -
  have "length (dropWhile P a) \<le> length a" by (rule length_dropWhile_le)
  then have "j - i = length (takeWhile P a)" using assms(2-4) by (simp add: taken_length)
  then show ?thesis using assms(1) by (simp add: substr_def takeWhile_eq_take [symmetric])
qed

lemma parser_on_rests:
  "field_from_string str =
     (let a = dropWhile blank str; b = dropWhile is_lower a; c = dropWhile blank b in
      if a = [] then Inl (bad_field_error ''field name not found'')
      else if c = [] \<or> hd c \<noteq> CHR '':''
        then Inl (bad_field_error (''expected '' @ [apostrophe, CHR '':'', apostrophe] @ '' field separator''))
      else let e = dropWhile blank (tl c) in
        if e = [] then Inl (bad_field_error ''unexpected end of field value'')
        else field_of_value (takeWhile is_lower a) (rtrim e))"
proof -
  define a where "a = dropWhile blank str"
  define b where "b = dropWhile is_lower a"
  define c where "c = dropWhile blank b"
  define e where "e = dropWhile blank (tl c)"
  define i where "i = length str - length a"
  define j where "j = length str - length b"
  define k where "k = length str - length c"
  define m where "m = length str - length e"
  have a: "drop i str = a"
    using drop_dropWhile [of str blank 0] by (simp add: i_def a_def)
  have b: "drop j str = b"
    using drop_dropWhile [of str is_lower i] by (simp add: j_def a b_def)
  have c: "drop k str = c"
    using drop_dropWhile [of str blank j] by (simp add: k_def b c_def)
  have sep: "str ! k = hd c" "drop (k + 1) str = tl c" if "c \<noteq> []"
  proof -
    have "k < length str" using that c by (metis drop_all linorder_not_less)
    then show "str ! k = hd c" "drop (k + 1) str = tl c"
      using c by (simp_all add: hd_drop_conv_nth [symmetric] tl_drop [symmetric] drop_Suc)
  qed
  have e: "drop m str = e" if "c \<noteq> []"
    using drop_dropWhile [of str blank "k + 1"] sep [OF that] by (simp add: m_def e_def)
  have "length a \<le> length str" by (simp add: a_def length_dropWhile_le)
  then have name: "substr str i (j - i) = takeWhile is_lower a"
    using substr_taken [OF a, of j is_lower] by (simp add: i_def j_def b_def)
  have first: "find_first_not_of str allowed_whitespaces 0 = (if a = [] then None else Some i)"
    by (simp only: find_first_not_of_eq drop_0 a_def [symmetric] i_def [symmetric])
  have after: "find_if_not_from is_lower str i = j"
    by (simp only: find_if_not_from_def a b_def [symmetric] j_def [symmetric])
  have separator: "find_first_not_of str allowed_whitespaces j = (if c = [] then None else Some k)"
    by (simp only: find_first_not_of_eq b c_def [symmetric] k_def [symmetric])
  have val: "find_first_not_of str allowed_whitespaces (k + 1) = (if e = [] then None else Some m)"
    if "c \<noteq> []"
    using sep [OF that] by (simp only: find_first_not_of_eq e_def [symmetric] m_def [symmetric])
  have trimmed: "\<exists>n. find_last_not_of str allowed_whitespaces = Some n \<and> substr str m (n - m + 1) = rtrim e"
    if "c \<noteq> []" "e \<noteq> []"
    using e [OF that(1)] that(2) hd_dropWhile [of blank "tl c"]
    by (intro trimmed_value) (simp_all add: e_def [symmetric] del: dropWhile_eq_Nil_conv)
  show ?thesis
    using sep val trimmed
    by (auto simp: field_from_string_def first after separator name Let_def
        a_def [symmetric] b_def [symmetric] c_def [symmetric] e_def [symmetric]
        simp del: dropWhile_eq_Nil_conv)
qed

section \<open>Soundness and completeness for the grammar\<close>

lemma rtrim_id: "v \<noteq> [] \<Longrightarrow> \<not> blank (last v) \<Longrightarrow> rtrim v = v"
  unfolding rtrim_def by (cases v rule: rev_cases) auto

lemma rtrim_blanks: "list_all blank w \<Longrightarrow> rtrim (v @ w) = rtrim v"
  unfolding rtrim_def by (simp add: dropWhile_prefix_all list_all_iff)

lemma rtrim_decomp: "\<exists>w. s = rtrim s @ w \<and> list_all blank w"
proof -
  have "rev s = takeWhile blank (rev s) @ dropWhile blank (rev s)" by simp
  then have "s = rtrim s @ rev (takeWhile blank (rev s))"
    unfolding rtrim_def by (metis rev_append rev_rev_ident)
  moreover have "list_all blank (rev (takeWhile blank (rev s)))"
    by (auto simp: list_all_iff dest: set_takeWhileD)
  ultimately show ?thesis by blast
qed

lemma blank_not_lower: "blank c \<Longrightarrow> \<not> is_lower c"
  and colon_not_lower: "\<not> is_lower CHR '':''"
  and colon_not_blank: "\<not> blank CHR '':''"
  and lower_not_blank: "is_lower c \<Longrightarrow> \<not> blank c"
  by (auto simp: blank_def in_char_range_def char_code_def tab_char_def)

lemma dropWhile_lower_stop:
  "list_all blank w \<Longrightarrow> dropWhile is_lower (w @ CHR '':'' # r) = w @ CHR '':'' # r"
  "list_all blank w \<Longrightarrow> takeWhile is_lower (w @ CHR '':'' # r) = []"
  by (cases w; auto simp: colon_not_lower blank_not_lower)+

lemma parse_field_line:
  assumes "field_line str name value"
  shows "field_from_string str = field_of_value name value"
proof -
  from assms obtain w1 w2 w3 w4 where str: "str = w1 @ name @ w2 @ CHR '':'' # w3 @ value @ w4"
    and w: "list_all blank w1" "list_all is_lower name" "list_all blank w2"
       "list_all blank w3" "list_all blank w4"
    and v: "value \<noteq> []" "\<not> blank (hd value)" "\<not> blank (last value)"
    by (rule field_lineE)
  define c where "c = CHR '':'' # w3 @ value @ w4"
  have a: "dropWhile blank str = (if name = [] then c else name @ w2 @ c)"
  proof (cases name)
    case Nil
    with w show ?thesis
      by (simp add: str c_def dropWhile_prefix_all list_all_iff colon_not_blank)
  next
    case (Cons x xs)
    with w show ?thesis
      by (simp add: str c_def dropWhile_prefix_all list_all_iff lower_not_blank)
  qed
  have b: "dropWhile is_lower (name @ w2 @ c) = w2 @ c" "takeWhile is_lower (name @ w2 @ c) = name"
    using w dropWhile_lower_stop [OF w(3)]
    by (simp_all add: c_def list_all_iff dropWhile_prefix_all takeWhile_append)
  have bc: "dropWhile is_lower c = c" "takeWhile is_lower c = []" "dropWhile blank c = c"
    by (simp_all add: c_def colon_not_lower colon_not_blank)
  have c: "dropWhile blank (w2 @ c) = c"
    using w by (simp add: c_def dropWhile_prefix_all list_all_iff colon_not_blank)
  have e: "dropWhile blank (tl c) = value @ w4"
    using w v by (cases "value") (simp_all add: c_def dropWhile_prefix_all list_all_iff)
  show ?thesis
    using a b bc c e v w
    by (simp add: parser_on_rests Let_def rtrim_blanks rtrim_id c_def del: dropWhile_eq_Nil_conv)
qed

lemma field_of_value_error: "field_of_value name v = Inl x \<Longrightarrow> \<exists>msg. x = bad_field_error msg"
  by (auto simp: field_of_value_def split: if_splits option.splits)

lemma parse_error: "field_from_string str = Inl x \<Longrightarrow> \<exists>msg. x = bad_field_error msg"
  unfolding field_from_string_def Let_def
  by (auto split: option.split_asm if_split_asm dest: field_of_value_error)

lemma parse_succeeds:
  assumes "field_from_string str = Inr f"
  shows "\<exists>name v. field_line str name v \<and> field_of_value name v = Inr f"
proof -
  define a where "a = dropWhile blank str"
  define b where "b = dropWhile is_lower a"
  define c where "c = dropWhile blank b"
  define e where "e = dropWhile blank (tl c)"
  have parts: "a \<noteq> []" "c \<noteq> []" "hd c = CHR '':''" "e \<noteq> []"
    and f: "field_of_value (takeWhile is_lower a) (rtrim e) = Inr f"
    using assms
    by (auto simp: parser_on_rests Let_def a_def [symmetric] b_def [symmetric] c_def [symmetric]
        e_def [symmetric] simp del: dropWhile_eq_Nil_conv split: if_splits)
  obtain w4 where w4: "e = rtrim e @ w4" "list_all blank w4" using rtrim_decomp by blast
  have hd_e: "\<not> blank (hd e)"
    using parts(4) hd_dropWhile [of blank "tl c"] by (simp add: e_def del: dropWhile_eq_Nil_conv)
  have ne: "dropWhile blank (rev e) \<noteq> []"
    using parts(4) hd_e by (auto simp: dropWhile_eq_Nil_conv)
  then have rt: "rtrim e \<noteq> []" "\<not> blank (last (rtrim e))"
    using hd_dropWhile [of blank "rev e"] by (simp_all add: rtrim_def last_rev del: dropWhile_eq_Nil_conv)
  have "hd (rtrim e) = hd e" using w4(1) rt(1) by (metis hd_append)
  with hd_e have hd_rt: "\<not> blank (hd (rtrim e))" by simp
  have "c = CHR '':'' # tl c" using parts by (metis list.collapse)
  then have "str = takeWhile blank str @ takeWhile is_lower a @ takeWhile blank b @
      CHR '':'' # takeWhile blank (tl c) @ rtrim e @ w4"
    by (metis a_def b_def c_def e_def takeWhile_dropWhile_id w4(1))
  moreover have "list_all P (takeWhile P xs)" for P and xs :: string
    by (auto simp: list_all_iff dest: set_takeWhileD)
  ultimately have "field_line str (takeWhile is_lower a) (rtrim e)"
    using field_line.intros [of "takeWhile blank str" "takeWhile is_lower a" "takeWhile blank b"
        "takeWhile blank (tl c)" w4 "rtrim e"] w4(2) rt hd_rt by simp
  with f show ?thesis by blast
qed

lemma digit_not_blank: "is_digit c \<Longrightarrow> \<not> blank c"
  by (auto simp: blank_def in_char_range_def char_code_def tab_char_def)

lemma apostrophe_not_blank: "\<not> blank apostrophe" and apostrophe_not_digit: "\<not> is_digit apostrophe"
  by (simp_all add: blank_def apostrophe_def tab_char_def in_char_range_def char_code_def)

lemma nat_to_string_not_bool: "nat_to_string n \<noteq> ''true''" "nat_to_string n \<noteq> ''false''"
  using nat_to_string_digits [of n] by (auto simp: in_char_range_def char_code_def)

lemma compact_field_line:
  "list_all is_lower name \<Longrightarrow> v \<noteq> [] \<Longrightarrow> \<not> blank (hd v) \<Longrightarrow> \<not> blank (last v) \<Longrightarrow>
   field_line (name @ CHR '':'' # v) name v"
  using field_line.intros [of "[]" name "[]" "[]" "[]" v] by simp

lemma parse_quoted:
  assumes "list_all is_lower name"
  shows "field_from_string (name @ CHR '':'' # apostrophe # text @ [apostrophe]) =
      Inr \<lparr>f_name = name, f_value = string_value text\<rparr>"
proof -
  have "field_line (name @ CHR '':'' # apostrophe # text @ [apostrophe]) name (apostrophe # text @ [apostrophe])"
    using assms by (intro compact_field_line) (simp_all add: apostrophe_not_blank)
  then show ?thesis
    by (simp add: parse_field_line field_of_value_def apostrophe_not_digit butlast_append)
      (simp add: apostrophe_def)
qed

lemma parse_number:
  assumes "list_all is_lower name"
  shows "field_from_string (name @ CHR '':'' # nat_to_string n) =
     (if n < 2 ^ 64 then Inr \<lparr>f_name = name, f_value = integer (of_nat n)\<rparr>
      else Inl (ProtocolError bad_field
        (''invalid integer value in field '' @ [apostrophe] @ nat_to_string n @ [apostrophe])))"
proof -
  have digits: "\<forall>c\<in>set (nat_to_string n). is_digit c" by (rule nat_to_string_digits)
  then have "\<not> blank (hd (nat_to_string n))" "\<not> blank (last (nat_to_string n))"
    by (simp_all add: digit_not_blank)
  then have "field_line (name @ CHR '':'' # nat_to_string n) name (nat_to_string n)"
    using assms by (intro compact_field_line) simp_all
  with digits show ?thesis
    by (simp add: parse_field_line field_of_value_def list_all_iff nat_to_string_not_bool from_chars_u64_def)
qed

lemma parse_bool:
  assumes "list_all is_lower name"
  shows "field_from_string (name @ '':true'') = Inr \<lparr>f_name = name, f_value = boolean True\<rparr>"
    and "field_from_string (name @ '':false'') = Inr \<lparr>f_name = name, f_value = boolean False\<rparr>"
proof -
  have "field_line (name @ CHR '':'' # ''true'') name ''true''"
    and "field_line (name @ CHR '':'' # ''false'') name ''false''"
    using assms by (intro compact_field_line; simp add: blank_def tab_char_def)+
  then show "field_from_string (name @ '':true'') = Inr \<lparr>f_name = name, f_value = boolean True\<rparr>"
    and "field_from_string (name @ '':false'') = Inr \<lparr>f_name = name, f_value = boolean False\<rparr>"
    by (simp_all add: parse_field_line field_of_value_def)
qed

section \<open>Properties\<close>

text \<open>
  C23: the parser accepts exactly the lines of the documented grammar (blanks, a name of
  lower-case letters, blanks, a colon, blanks, a value with no blank at its ends, blanks)
  whose value is well-formed, and returns the field of that name and value; every line it
  refuses gives the protocol error \<open>bad_field\<close>.
\<close>

theorem field_from_string_grammar:
  "(field_from_string str = Inr f \<longleftrightarrow> (\<exists>name v. field_line str name v \<and> field_of_value name v = Inr f)) \<and>
   ((\<exists>x. field_from_string str = Inl x) \<longleftrightarrow> (\<exists>msg. field_from_string str = Inl (ProtocolError bad_field msg)))"
  using parse_succeeds [of str f] parse_field_line [of str] parse_error [of str] by auto

text \<open>
  A field written as \<open>name:'text'\<close> reads back as the string \<open>text\<close> for every text, one
  written as \<open>name:\<close> and a decimal number reads back as that number, and a number of more
  than 64 bits is refused instead of being wrapped around.
\<close>

lemma field_write_read:
  assumes "list_all is_lower name"
  shows "field_from_string (name @ CHR '':'' # apostrophe # text @ [apostrophe]) =
           Inr \<lparr>f_name = name, f_value = string_value text\<rparr> \<and>
         (if n < 2 ^ 64
          then field_from_string (name @ CHR '':'' # nat_to_string n) =
                 Inr \<lparr>f_name = name, f_value = integer (of_nat n)\<rparr>
          else \<exists>msg. field_from_string (name @ CHR '':'' # nat_to_string n) =
                 Inl (ProtocolError bad_field msg)) \<and>
         field_from_string (name @ '':true'') = Inr \<lparr>f_name = name, f_value = boolean True\<rparr> \<and>
         field_from_string (name @ '':false'') = Inr \<lparr>f_name = name, f_value = boolean False\<rparr>"
  using parse_quoted [OF assms] parse_number [OF assms] parse_bool [OF assms] by simp

lemma field_write_read_witness:
  "field_from_string (''name:'' @ apostrophe # ''a b'' @ [apostrophe]) =
     Inr \<lparr>f_name = ''name'', f_value = string_value ''a b''\<rparr> \<and>
   field_from_string (''size:'' @ nat_to_string 42) = Inr \<lparr>f_name = ''size'', f_value = integer 42\<rparr>"
proof -
  have lower: "list_all is_lower ''name''" "list_all is_lower ''size''"
    by (simp_all add: in_char_range_def char_code_def)
  show ?thesis
    using field_write_read [OF lower(1), of "''a b''" 0] field_write_read [OF lower(2), of "[]" 42]
    by simp
qed

end
