(* ===== verification/Commands.thy ===== *)
theory Commands
  imports Client_Context Responses Protocol_Field
begin

text \<open>
  The commands of the protocol (\<open>src/protocol/execution\<close>): for each command the fields it
  reads (\<open>parse_fields\<close>) and what it does (\<open>execute\<close>). A command object is a value of the
  datatype \<open>Command\<close> holding what its fields said. The hash function, the TOML library and
  the formatted modification time of a file are inputs, collected in \<open>env\<close>.
\<close>

record env =
  e_crypt :: crypt_fn
  e_toml_parse :: toml_reader
  e_toml_print :: toml_writer
  e_mtime :: "path \<Rightarrow> string option"

datatype Command =
    Auth "string option" "string option"
  | Bye
  | Cd "path option"
  | Cp "path option" "path option"
  | Dl "path option" u64
  | Dls
  | Exit
  | Logout
  | Ls "path option" bool bool
  | Mkdir "path option"
  | Mv "path option" "path option"
  | Name
  | Perms
  | Pwd
  | Rename "path option" "path option"
  | Rm "path option"
  | Tree "path option"
  | Ul "path option" "u64 option" bool

definition system_error :: "errno \<Rightarrow> string \<Rightarrow> exn" where
  "system_error e msg = SystemError (errno_value e) msg"

definition on_disk :: "(disk \<Rightarrow> 'r \<times> disk) \<Rightarrow> ('e, exec, 'r) action" where
  "on_disk f s = (case f (w_disk (ex_world s)) of (r, d) \<Rightarrow> ret r (on_world (set_disk d) s))"

definition the_disk :: "exec \<Rightarrow> disk" where
  "the_disk s = w_disk (ex_world s)"

definition the_server :: "exec \<Rightarrow> ServerContext" where
  "the_server s = w_server (ex_world s)"

section \<open>Fields\<close>

definition bad_field_exn :: "string \<Rightarrow> exn" where
  "bad_field_exn msg = ProtocolError bad_field msg"

definition invalid_value_exn :: "string \<Rightarrow> exn" where
  "invalid_value_exn msg = ProtocolError invalid_field_value msg"

text \<open>
  The check of a name field that \<open>Mkdir\<close>, \<open>Rm\<close>, \<open>Dl\<close>, \<open>Ul\<close>, \<open>Rename\<close> and the transport
  commands share: not set before, a string, and a single file name.
\<close>

definition name_value :: "string \<Rightarrow> string \<Rightarrow> string \<Rightarrow> path option \<Rightarrow> Field \<Rightarrow> exn + path" where
  "name_value already_msg type_msg plain_msg current field =
     (if current \<noteq> None then Inl (bad_field_exn already_msg)
      else case get_string field of
        None \<Rightarrow> Inl (invalid_value_exn type_msg)
      | Some v \<Rightarrow> if \<not> path_eq v (filename v) then Inl (invalid_value_exn plain_msg) else Inr v)"

definition plain_name_field :: "path option \<Rightarrow> Field \<Rightarrow> exn + path" where
  "plain_name_field =
     name_value ''name was already set'' ''name field has invalid value type'' ''name must be just a name''"

definition existing_name_field :: "path option \<Rightarrow> Field \<Rightarrow> (exn, exec, path option) action" where
  "existing_name_field current field =
     bind (from_sum (plain_name_field current field)) (\<lambda>name.
     bind get_current_path (\<lambda>cwd.
     bind (gets the_disk) (\<lambda>d.
       if \<not> fs_exists d (path_append cwd name)
       then raise (ProtocolError not_found (''file '' @ quoted name @ '' does not exist''))
       else ret (Some name))))"

definition boolean_field :: "string \<Rightarrow> Field \<Rightarrow> exn + bool" where
  "boolean_field msg field =
     (case get_boolean field of None \<Rightarrow> Inl (invalid_value_exn msg) | Some b \<Rightarrow> Inr b)"

definition integer_field :: "string \<Rightarrow> Field \<Rightarrow> exn + u64" where
  "integer_field msg field =
     (case get_integer field of None \<Rightarrow> Inl (invalid_value_exn msg) | Some n \<Rightarrow> Inr n)"

definition text_field :: "string \<Rightarrow> string \<Rightarrow> string option \<Rightarrow> Field \<Rightarrow> exn + string" where
  "text_field already_msg type_msg current field =
     (if current \<noteq> None then Inl (bad_field_exn already_msg)
      else case get_string field of None \<Rightarrow> Inl (invalid_value_exn type_msg) | Some v \<Rightarrow> Inr v)"

section \<open>Commands with a path\<close>

definition find_field :: "string \<Rightarrow> Field list \<Rightarrow> Field option" where
  "find_field name flds = find (\<lambda>f. f_name f = name) flds"

text \<open>
  The directory a path field names: an absolute path is appended to the root as it is, a
  relative one is normalised against the current directory and replaced by the root where
  it leaves it.
\<close>

definition final_path :: "ServerContext \<Rightarrow> path \<Rightarrow> path \<Rightarrow> path" where
  "final_path sc cwd requested =
     (if is_absolute requested then path_concat (m_root sc) requested
      else
        let p = lexically_normal (path_append cwd requested)
        in if \<not> starts_with p (m_root sc) then m_root sc else p)"

definition check_directory :: "disk \<Rightarrow> ServerContext \<Rightarrow> path \<Rightarrow> path \<Rightarrow> exn + path" where
  "check_directory d sc requested p =
     (case is_path_forbidden sc p of
        Inl e \<Rightarrow> Inl e
      | Inr forbidden \<Rightarrow>
          if forbidden \<or> \<not> fs_exists d p then
            Inl (ProtocolError not_found (''directory '' @ [apostrophe] @ requested @ [apostrophe] @ '' does not exist''))
          else if \<not> fs_is_directory d p then
            Inl (ProtocolError not_a_directory (requested @ '' is not a directory''))
          else Inr p)"

definition parse_path :: "path option \<Rightarrow> Field \<Rightarrow> (exn, exec, path option) action" where
  "parse_path current field =
     bind (from_sum (text_field ''path was already set'' ''path field has invalid value type (should be string)''
       current field)) (\<lambda>requested.
     bind (gets the_server) (\<lambda>sc.
     bind (gets the_disk) (\<lambda>d.
     bind (if is_absolute requested then ret (final_path sc [] requested)
           else bind get_current_path (\<lambda>cwd. ret (final_path sc cwd requested))) (\<lambda>p.
     bind (from_sum (check_directory d sc requested p)) (\<lambda>q. ret (Some q))))))"

definition parse_path_fields :: "Field list \<Rightarrow> (exn, exec, path option) action" where
  "parse_path_fields flds =
     (case find_field ''path'' flds of None \<Rightarrow> ret None | Some f \<Rightarrow> parse_path None f)"

definition transport_fields :: "Field list \<Rightarrow> (exn, exec, path option \<times> path option) action" where
  "transport_fields flds =
     bind (parse_path_fields flds) (\<lambda>p.
     bind (case find_field ''name'' flds of None \<Rightarrow> ret None | Some f \<Rightarrow> existing_name_field None f) (\<lambda>n.
       if n = None then raise (bad_field_exn ''name field is missing'')
       else if p = None then raise (bad_field_exn ''transport commands require path field'')
       else ret (p, n)))"


section \<open>Reading the fields of a command\<close>

primrec fold_fields :: "(Field \<Rightarrow> 'c \<Rightarrow> (exn, exec, 'c) action) \<Rightarrow> Field list \<Rightarrow> 'c \<Rightarrow> (exn, exec, 'c) action" where
  "fold_fields f [] c = ret c"
| "fold_fields f (x # xs) c = bind (f x c) (fold_fields f xs)"

definition auth_field :: "Field \<Rightarrow> string option \<times> string option \<Rightarrow> (exn, exec, string option \<times> string option) action" where
  "auth_field f c =
     (case c of (u, p) \<Rightarrow>
        if f_name f = ''login'' then
          bind (from_sum (text_field ''login was already set'' ''login field has invalid value type'' u f))
            (\<lambda>v. ret (Some v, p))
        else if f_name f = ''passwd'' then
          bind (from_sum (text_field ''passwd was already set'' ''passwd field has invalid value type'' p f))
            (\<lambda>v. ret (u, Some v))
        else ret (u, p))"

definition parse_auth :: "Field list \<Rightarrow> (exn, exec, Command) action" where
  "parse_auth flds =
     bind (fold_fields auth_field flds (None, None)) (\<lambda>(u, p).
       if u = None then raise (bad_field_exn ''login field is missing'')
       else if p = None then raise (bad_field_exn ''passwd field is missing'')
       else ret (Auth u p))"

definition parse_cd :: "Field list \<Rightarrow> (exn, exec, Command) action" where
  "parse_cd flds =
     bind (parse_path_fields flds) (\<lambda>p.
       if p = None then raise (bad_field_exn ''cd requires path field'') else ret (Cd p))"

definition dl_field :: "Field \<Rightarrow> path option \<times> u64 \<Rightarrow> (exn, exec, path option \<times> u64) action" where
  "dl_field f c =
     (case c of (n, k) \<Rightarrow>
        if f_name f = ''name'' then bind (existing_name_field n f) (\<lambda>v. ret (v, k))
        else if f_name f = ''offset'' then
          bind (from_sum (integer_field ''offset has invalid value type (should be integer)'' f)) (\<lambda>v. ret (n, v))
        else ret (n, k))"

definition parse_dl :: "Field list \<Rightarrow> (exn, exec, Command) action" where
  "parse_dl flds =
     bind (fold_fields dl_field flds (None, 0)) (\<lambda>(n, k).
       if n = None then raise (bad_field_exn ''dl requires name field'') else ret (Dl n k))"

definition ls_field :: "Field \<Rightarrow> bool \<times> bool \<Rightarrow> (exn, exec, bool \<times> bool) action" where
  "ls_field f c =
     (case c of (sz, md) \<Rightarrow>
        if f_name f = ''size'' then
          bind (from_sum (boolean_field ''size field has invalid value type (should be boolean)'' f)) (\<lambda>v. ret (v, md))
        else if f_name f = ''mod'' then
          bind (from_sum (boolean_field ''mod field has invalid value type (should be boolean)'' f)) (\<lambda>v. ret (sz, v))
        else ret (sz, md))"

definition parse_ls :: "Field list \<Rightarrow> (exn, exec, Command) action" where
  "parse_ls flds =
     bind (parse_path_fields flds) (\<lambda>p.
     bind (fold_fields ls_field flds (False, False)) (\<lambda>(sz, md). ret (Ls p sz md)))"

definition only_name_field :: "Field \<Rightarrow> path option \<Rightarrow> (exn, exec, path option) action" where
  "only_name_field f c =
     (if f_name f = ''name'' then bind (from_sum (plain_name_field c f)) (\<lambda>v. ret (Some v)) else ret c)"

definition parse_mkdir :: "Field list \<Rightarrow> (exn, exec, Command) action" where
  "parse_mkdir flds =
     bind (fold_fields only_name_field flds None) (\<lambda>n.
       if n = None then raise (bad_field_exn ''name field is missing'') else ret (Mkdir n))"

definition parse_rm :: "Field list \<Rightarrow> (exn, exec, Command) action" where
  "parse_rm flds =
     bind (fold_fields only_name_field flds None) (\<lambda>n.
       if n = None then raise (bad_field_exn ''name field is missing'') else ret (Rm n))"

definition rename_name :: "path option \<Rightarrow> Field \<Rightarrow> exn + path" where
  "rename_name out f =
     name_value (f_name f @ '' was already set'') (f_name f @ '' field has invalid value type'')
       (f_name f @ '' must be just a file name'') out f"

definition rename_field :: "Field \<Rightarrow> path option \<times> path option \<Rightarrow> (exn, exec, path option \<times> path option) action" where
  "rename_field f c =
     (case c of (old, new) \<Rightarrow>
        if f_name f = ''oname'' then bind (from_sum (rename_name old f)) (\<lambda>v. ret (Some v, new))
        else if f_name f = ''nname'' then bind (from_sum (rename_name new f)) (\<lambda>v. ret (old, Some v))
        else ret (old, new))"

definition parse_rename :: "Field list \<Rightarrow> (exn, exec, Command) action" where
  "parse_rename flds =
     bind (fold_fields rename_field flds (None, None)) (\<lambda>(old, new).
       if old = None then raise (bad_field_exn ''oname field is missing'')
       else if new = None then raise (bad_field_exn ''nname field is missing'')
       else ret (Rename old new))"

definition ul_name :: "path option \<Rightarrow> Field \<Rightarrow> exn + path" where
  "ul_name = name_value ''name was already set'' ''name field has invalid value type (should be string)''
     ''name must be just a name''"

definition ul_field :: "Field \<Rightarrow> path option \<times> u64 option \<times> bool \<Rightarrow> (exn, exec, path option \<times> u64 option \<times> bool) action" where
  "ul_field f c =
     (case c of (n, sz, retry) \<Rightarrow>
        if f_name f = ''name'' then bind (from_sum (ul_name n f)) (\<lambda>v. ret (Some v, sz, retry))
        else if f_name f = ''size'' then
          bind (from_sum (integer_field ''size has invalid value type (should be integer)'' f))
            (\<lambda>v. ret (n, Some v, retry))
        else if f_name f = ''retry'' then
          bind (from_sum (boolean_field ''retry field has invalid value type (should be boolean)'' f))
            (\<lambda>v. ret (n, sz, v))
        else ret (n, sz, retry))"

definition parse_ul :: "Field list \<Rightarrow> (exn, exec, Command) action" where
  "parse_ul flds =
     bind (fold_fields ul_field flds (None, None, False)) (\<lambda>(n, sz, retry).
       if n = None then raise (bad_field_exn ''name field is missing'')
       else if sz = None then raise (bad_field_exn ''size field is missing'')
       else ret (Ul n sz retry))"

fun parse_fields :: "Command \<Rightarrow> Field list \<Rightarrow> (exn, exec, Command) action" where
  "parse_fields (Auth u p) flds = parse_auth flds"
| "parse_fields (Cd p) flds = parse_cd flds"
| "parse_fields (Cp p n) flds = bind (transport_fields flds) (\<lambda>(p, n). ret (Cp p n))"
| "parse_fields (Dl n k) flds = parse_dl flds"
| "parse_fields (Ls p sz md) flds = parse_ls flds"
| "parse_fields (Mkdir n) flds = parse_mkdir flds"
| "parse_fields (Mv p n) flds = bind (transport_fields flds) (\<lambda>(p, n). ret (Mv p n))"
| "parse_fields (Rename old new) flds = parse_rename flds"
| "parse_fields (Rm n) flds = parse_rm flds"
| "parse_fields (Tree p) flds = bind (parse_path_fields flds) (\<lambda>p. ret (Tree p))"
| "parse_fields (Ul n sz retry) flds = parse_ul flds"
| "parse_fields c flds = ret c"

section \<open>Executing commands\<close>

text \<open>
  \<open>need\<close> reads an optional member through its dereference operator; \<open>get_path\<close> uses
  \<open>value()\<close>, which throws.
\<close>

definition need :: "'a option \<Rightarrow> (exn, exec, 'a) action" where
  "need x = (case x of None \<Rightarrow> raise (NullDereference ''optional'') | Some v \<Rightarrow> ret v)"

definition value_of :: "'a option \<Rightarrow> (exn, exec, 'a) action" where
  "value_of x = (case x of None \<Rightarrow> raise (RuntimeError ''bad optional access'') | Some v \<Rightarrow> ret v)"

definition max_try_count :: int where "max_try_count = 3"

definition execute_auth :: "env \<Rightarrow> string option \<Rightarrow> string option \<Rightarrow> ResponseBuilder \<Rightarrow> (exn, exec, ResponseBuilder) action" where
  "execute_auth e username password rb =
     bind (need username) (\<lambda>u. bind (need password) (\<lambda>pw.
     catching
       (bind (with_world (authorize_user (e_crypt e) u pw)) (\<lambda>token.
        andthen (set_auth_token (Some token))
        (bind (gets (\<lambda>s. m_root (the_server s))) (\<lambda>root.
         bind (with_world (lock_path root)) (\<lambda>lock.
         andthen (set_path_lock lock) (ret rb))))))
       (\<lambda>x. case x of
          ProtocolError code msg \<Rightarrow>
            andthen
              (if code = invalid_credentials then
                 andthen (set_auth_token None)
                 (bind (gets (\<lambda>s. get_auth_try_count (ex_client s))) (\<lambda>n.
                   if n = max_try_count then kill else ret ()))
               else ret ())
              (raise x)
        | _ \<Rightarrow> raise x)))"

definition execute_cd :: "path option \<Rightarrow> ResponseBuilder \<Rightarrow> (exn, exec, ResponseBuilder) action" where
  "execute_cd p rb =
     bind (value_of p) (\<lambda>path.
     andthen (set_path_of_client path)
     (bind get_current_path (\<lambda>cwd.
      bind (relative_path_to cwd) (\<lambda>rel. ret (add_line rel rb)))))"

definition execute_pwd :: "ResponseBuilder \<Rightarrow> (exn, exec, ResponseBuilder) action" where
  "execute_pwd rb = bind get_current_path (\<lambda>cwd. bind (relative_path_to cwd) (\<lambda>rel. ret (add_line rel rb)))"

definition execute_name :: "ResponseBuilder \<Rightarrow> (exn, exec, ResponseBuilder) action" where
  "execute_name rb = bind get_auth_token (\<lambda>a. ret (add_line (at_username a) rb))"

definition execute_perms :: "ResponseBuilder \<Rightarrow> (exn, exec, ResponseBuilder) action" where
  "execute_perms rb = bind get_auth_token (\<lambda>a. ret (add_line (perms_to_string (at_perms a)) rb))"

definition execute_mkdir :: "path option \<Rightarrow> ResponseBuilder \<Rightarrow> (exn, exec, ResponseBuilder) action" where
  "execute_mkdir n rb =
     bind get_current_path (\<lambda>cwd.
     bind (need n) (\<lambda>name.
     bind (gets the_disk) (\<lambda>d.
       if fs_exists d (path_append cwd name)
       then raise (ProtocolError file_already_exists ''this directory already exists'')
       else bind (on_disk (\<lambda>d. fs_create_directory d (path_append cwd name))) (\<lambda>r.
         case r of Inl x \<Rightarrow> raise (system_error x ''create_directory'') | Inr b \<Rightarrow> ret rb))))"

definition execute_rm :: "path option \<Rightarrow> ResponseBuilder \<Rightarrow> (exn, exec, ResponseBuilder) action" where
  "execute_rm n rb =
     bind get_current_path (\<lambda>cwd.
     bind (need n) (\<lambda>name.
     bind (gets the_disk) (\<lambda>d.
       if \<not> fs_exists d (path_append cwd name) then raise (protocol_error not_found)
       else bind (gets (\<lambda>s. is_path_locked (ex_world s) (path_append cwd name))) (\<lambda>r.
         bind (from_sum r) (\<lambda>locked.
           if locked then raise (protocol_error in_use)
           else bind (on_disk (\<lambda>d. fs_remove_all d (path_append cwd name))) (\<lambda>r.
             case r of Inl x \<Rightarrow> raise (system_error x ''cannot remove all'')
             | Inr count \<Rightarrow> ret (add_line (nat_to_string count) rb)))))))"

text \<open>What \<open>Rename\<close>, \<open>Mv\<close> and \<open>Cp\<close> make of the error code of the file system call.\<close>

definition check_errc :: "errno option \<Rightarrow> string \<Rightarrow> string \<Rightarrow> exn + unit" where
  "check_errc errc name msg =
     (case errc of
        None \<Rightarrow> Inr ()
      | Some EEXIST \<Rightarrow> Inl (protocol_error file_already_exists)
      | Some EOPNOTSUPP \<Rightarrow> Inl (ProtocolError invalid_file_type (quoted name @ '' is not valid file''))
      | Some x \<Rightarrow> Inl (ProtocolError unknown (''unknown filesystem error: failed to '' @ msg @ '' (generic:'' @
                   nat_to_string (errno_value x) @ '')'')))"

definition execute_rename :: "path option \<Rightarrow> path option \<Rightarrow> ResponseBuilder \<Rightarrow> (exn, exec, ResponseBuilder) action" where
  "execute_rename old new rb =
     bind get_current_path (\<lambda>cwd.
     bind (need old) (\<lambda>oname.
     bind (gets the_disk) (\<lambda>d.
       if \<not> fs_exists d (path_append cwd oname) then raise (protocol_error not_found)
       else bind (gets (\<lambda>s. is_path_locked (ex_world s) (path_append cwd oname))) (\<lambda>r.
         bind (from_sum r) (\<lambda>locked.
           if locked then raise (protocol_error in_use)
           else bind (need new) (\<lambda>nname.
             if path_eq (path_append cwd oname) (path_append cwd nname) then ret rb
             else if fs_exists d (path_append cwd nname) then raise (protocol_error file_already_exists)
             else bind (on_disk (\<lambda>d. fs_rename d (path_append cwd oname) (path_append cwd nname))) (\<lambda>errc.
               andthen (from_sum (check_errc errc oname (''rename '' @ quoted oname @ '' file to '' @ quoted nname)))
                 (ret rb))))))))"

definition execute_mv :: "path option \<Rightarrow> path option \<Rightarrow> ResponseBuilder \<Rightarrow> (exn, exec, ResponseBuilder) action" where
  "execute_mv p n rb =
     bind get_current_path (\<lambda>cwd.
     bind (value_of n) (\<lambda>name.
     bind (gets (\<lambda>s. is_path_locked (ex_world s) (path_append cwd name))) (\<lambda>r.
     bind (from_sum r) (\<lambda>locked.
       if locked then raise (protocol_error in_use)
       else bind (value_of p) (\<lambda>target.
         bind (gets the_disk) (\<lambda>d.
           if fs_exists d (path_append target name) then raise (protocol_error file_already_exists)
           else bind (on_disk (\<lambda>d. fs_rename d (path_append cwd name) (path_append target name))) (\<lambda>errc.
             bind (relative_path_to target) (\<lambda>rel.
             andthen (from_sum (check_errc errc name (''move '' @ quoted name @ '' to '' @ quoted rel)))
               (ret rb)))))))))"

definition execute_dl :: "path option \<Rightarrow> u64 \<Rightarrow> ResponseBuilder \<Rightarrow> (exn, exec, ResponseBuilder) action" where
  "execute_dl n offset rb =
     bind get_current_path (\<lambda>cwd.
     bind (need n) (\<lambda>name.
     bind (with_world (download_file (path_append cwd name))) (\<lambda>token s.
       case lock_objects (w_heap (ex_world s)) token of
         Some (Download_lock t) \<Rightarrow>
           (case download_set_file_offset offset t of
              Inl x \<Rightarrow> raise x (on_heap (free_lock (Some token)) s)
            | Inr t' \<Rightarrow>
                andthen (modify (on_heap (set_lock token (Download_lock t'))))
                (andthen (set_download_token (Some token))
                  (ret (add_line (nat_to_string (unat (dt_size t' - dt_offset t'))) rb))) s)
       | _ \<Rightarrow> raise (NullDereference ''token'') s)))"

definition execute_dls :: "ResponseBuilder \<Rightarrow> (exn, exec, ResponseBuilder) action" where
  "execute_dls rb =
     bind (gets (\<lambda>s. has_download_token (ex_client s))) (\<lambda>has.
       if has then andthen (set_mode mode_download) (ret rb) else raise (protocol_error dls_without_dl))"


subsection \<open>Uploads\<close>

definition start_new_upload :: "path option \<Rightarrow> u64 option \<Rightarrow> (exn, exec, oid) action" where
  "start_new_upload n sz =
     bind get_current_path (\<lambda>cwd.
     bind (need n) (\<lambda>name.
     bind (need sz) (\<lambda>file_size. with_world (upload_file (path_append cwd name) file_size))))"

fun toml_as_integer :: "toml option \<Rightarrow> int option" where
  "toml_as_integer (Some (Toml_integer i)) = Some i"
| "toml_as_integer _ = None"

text \<open>Changing an upload token through the pointer a command holds.\<close>

definition update_upload :: "oid \<Rightarrow> (UploadToken \<Rightarrow> UploadToken) \<Rightarrow> (exn, exec, UploadToken) action" where
  "update_upload i f s =
     (case lock_objects (w_heap (ex_world s)) i of
        Some (Upload_lock t) \<Rightarrow> ret (f t) (on_heap (set_lock i (Upload_lock (f t))) s)
      | _ \<Rightarrow> raise (NullDereference ''upload_token'') s)"

definition retry_upload :: "env \<Rightarrow> (exn, exec, oid) action" where
  "retry_upload e =
     bind get_auth_token (\<lambda>a.
     bind (gets (\<lambda>s. get_backup_file_path (the_server s) (at_username a))) (\<lambda>backup_path.
     bind (gets (\<lambda>s. Option.bind (read_file (the_disk s) backup_path) (e_toml_parse e))) (\<lambda>tab.
       case tab of
         None \<Rightarrow> raise (protocol_error no_upload_to_resume)
       | Some table \<Rightarrow>
           bind (on_disk (\<lambda>d. fs_remove d backup_path)) (\<lambda>removed.
             case (removed, toml_as_string (map_of table ''path''), toml_as_integer (map_of table ''size''),
                   toml_as_integer (map_of table ''offset'')) of
               (Inl x, _, _, _) \<Rightarrow> raise (system_error x ''remove'')
             | (Inr _, Some p, Some sz, Some off) \<Rightarrow>
                 bind (with_world (upload_file p (word_of_int sz))) (\<lambda>token.
                 andthen (update_upload token (add_file_offset (word_of_int off))) (ret token))
             | (Inr _, _, _, _) \<Rightarrow> raise (protocol_error no_upload_to_resume)))))"

definition execute_ul :: "env \<Rightarrow> path option \<Rightarrow> u64 option \<Rightarrow> bool \<Rightarrow> ResponseBuilder \<Rightarrow> (exn, exec, ResponseBuilder) action" where
  "execute_ul e n sz retry rb =
     bind (if retry then retry_upload e else start_new_upload n sz) (\<lambda>token.
     bind get_auth_token (\<lambda>a.
     bind (update_upload token (set_temporary_filename_stem (at_username a))) (\<lambda>t.
     andthen (set_upload_token (Some token))
     (andthen (set_mode mode_upload)
       (ret (add_line (nat_to_string (unat (ut_offset t))) rb))))))"

subsection \<open>Listings\<close>

definition ls_line :: "env \<Rightarrow> path \<Rightarrow> bool \<Rightarrow> bool \<Rightarrow> string \<times> node \<Rightarrow> string" where
  "ls_line e dir return_size return_mod entry =
     [quotation] @ filename (path_append dir (fst entry)) @ [quotation] @
     (if return_size then
        '' '' @ (case snd entry of File b \<Rightarrow> nat_to_string (length b) | Dir es \<Rightarrow> ''-'')
      else []) @
     (if return_mod then
        '' '' @ (case e_mtime e (path_append dir (fst entry)) of
                   Some text \<Rightarrow> [quotation] @ text @ [quotation] | None \<Rightarrow> ''-'')
      else [])"

primrec ls_entries :: "env \<Rightarrow> ServerContext \<Rightarrow> path \<Rightarrow> bool \<Rightarrow> bool \<Rightarrow> (string \<times> node) list \<Rightarrow> exn + string list" where
  "ls_entries e sc dir return_size return_mod [] = Inr []"
| "ls_entries e sc dir return_size return_mod (x # xs) =
     (case is_path_forbidden sc (path_append dir (fst x)) of
        Inl err \<Rightarrow> Inl err
      | Inr forbidden \<Rightarrow>
          if forbidden then ls_entries e sc dir return_size return_mod xs
          else map_sum id (\<lambda>ls. ls_line e dir return_size return_mod x # ls)
                 (ls_entries e sc dir return_size return_mod xs))"

definition add_lines :: "string list \<Rightarrow> ResponseBuilder \<Rightarrow> ResponseBuilder" where
  "add_lines ls rb = foldl (\<lambda>b l. add_line l b) rb ls"

definition path_or_current :: "path option \<Rightarrow> (exn, exec, path) action" where
  "path_or_current p = (case p of None \<Rightarrow> get_current_path | Some q \<Rightarrow> ret q)"

definition execute_ls :: "env \<Rightarrow> path option \<Rightarrow> bool \<Rightarrow> bool \<Rightarrow> ResponseBuilder \<Rightarrow> (exn, exec, ResponseBuilder) action" where
  "execute_ls e p return_size return_mod rb =
     bind (path_or_current p) (\<lambda>dir.
     bind (gets the_disk) (\<lambda>d.
     bind (gets the_server) (\<lambda>sc.
       case dir_entries d dir of
         Inl x \<Rightarrow> raise (system_error x ''directory iterator cannot open directory'')
       | Inr es \<Rightarrow> bind (from_sum (ls_entries e sc dir return_size return_mod es)) (\<lambda>ls. ret (add_lines ls rb)))))"

definition tree_line :: "path \<Rightarrow> nat \<Rightarrow> string \<times> node \<Rightarrow> string" where
  "tree_line dir depth entry =
     replicate depth (CHR '' '') @ [quotation] @ filename (path_append dir (fst entry)) @ [quotation] @
     (case snd entry of Dir [] \<Rightarrow> '' E'' | _ \<Rightarrow> [])"

text \<open>The recursive directory iterator visits an entry before its contents.\<close>

fun tree_entries :: "ServerContext \<Rightarrow> path \<Rightarrow> nat \<Rightarrow> (string \<times> node) list \<Rightarrow> exn + string list" where
  "tree_entries sc dir depth [] = Inr []"
| "tree_entries sc dir depth ((n, x) # es) =
     (case is_path_forbidden sc (path_append dir n) of
        Inl err \<Rightarrow> Inl err
      | Inr forbidden \<Rightarrow>
          if forbidden then tree_entries sc dir depth es
          else
            (case (case x of File b \<Rightarrow> Inr [] | Dir sub \<Rightarrow> tree_entries sc (path_append dir n) (depth + 1) sub) of
               Inl err \<Rightarrow> Inl err
             | Inr below \<Rightarrow>
                 map_sum id (\<lambda>ls. tree_line dir depth (n, x) # below @ ls) (tree_entries sc dir depth es)))"

definition execute_tree :: "path option \<Rightarrow> ResponseBuilder \<Rightarrow> (exn, exec, ResponseBuilder) action" where
  "execute_tree p rb =
     bind (path_or_current p) (\<lambda>dir.
     bind (gets the_disk) (\<lambda>d.
     bind (gets the_server) (\<lambda>sc.
       case dir_entries d dir of
         Inl x \<Rightarrow> raise (system_error x ''recursive directory iterator cannot open directory'')
       | Inr es \<Rightarrow> bind (from_sum (tree_entries sc dir 0 es)) (\<lambda>ls. ret (add_lines ls rb)))))"

subsection \<open>Copies\<close>

definition copy_name :: "path \<Rightarrow> nat \<Rightarrow> path" where
  "copy_name name copy_number = name @ '' (copy '' @ nat_to_string copy_number @ '')''"

lemma finite_copies: "finite {j. fs_exists d (path_append dir (copy_name name j))}"
proof -
  let ?s = "\<lambda>j. '' (copy '' @ nat_to_string j @ '')''"
  obtain q where q: "path_append dir (copy_name name j) = q @ ?s j" for j
  proof (cases "is_absolute name")
    case True
    then have "path_append dir (copy_name name j) = name @ ?s j" for j
      by (simp add: path_append_def copy_name_def)
    then show thesis using that by blast
  next
    case False
    then have "\<not> is_absolute (copy_name name j)" for j by (cases name) (simp_all add: copy_name_def)
    then have "path_append dir (copy_name name j) = ((if has_filename dir then dir @ [sep] else dir) @ name) @ ?s j" for j
      by (simp add: path_append_def copy_name_def)
    then show thesis using that by blast
  qed
  have nosep: "sep \<notin> set (?s j)" for j
    using nat_to_string_digits [of j] by (auto simp: in_char_range_def char_code_def)
  have plain: "plain_name (last (split_on sep q) @ ?s j)" for j
    using nosep [of j] split_on_parts [OF last_in_set [OF split_on_nonempty], of sep q]
    by (cases "last (split_on sep q)" rule: rev_cases) (auto simp: plain_name_def append_eq_Cons_conv)
  define A where "A = {j. fs_exists d (path_append dir (copy_name name j))}"
  define f where "f j = (case resolve d (q @ ?s j) of Inl e \<Rightarrow> [] | Inr l \<Rightarrow> l)" for j
  have loc: "lookup (tree d) (f j) \<noteq> None \<and> last (f j) = last (split_on sep q) @ ?s j" if "j \<in> A" for j
    using that resolve_last_word [OF plain nosep, of d j]
    by (auto simp: A_def q fs_exists_def node_at_def f_def split: sum.splits)
  have "inj_on f A"
  proof (rule inj_onI)
    fix i j
    assume "i \<in> A" "j \<in> A" "f i = f j"
    then have "nat_to_string i = nat_to_string j" using loc [of i] loc [of j] by simp
    then show "i = j" by (metis decimal_value_nat_to_string)
  qed
  moreover have "f ` A \<subseteq> {l. lookup (tree d) l \<noteq> None}" using loc by auto
  ultimately show ?thesis
    using finite_locations [of "tree d"] by (auto simp: A_def [symmetric] intro: inj_on_finite)
qed

function copy_target :: "disk \<Rightarrow> path \<Rightarrow> path \<Rightarrow> nat \<Rightarrow> path \<Rightarrow> path" where
  "copy_target d dir name copy_number new_path =
     (if fs_exists d new_path
      then copy_target d dir name (copy_number + 1) (path_append dir (copy_name name copy_number))
      else new_path)"
  by pat_completeness auto
termination
proof (relation "measure (\<lambda>(d, dir, name, k, p).
    card {j. k \<le> j \<and> fs_exists d (path_append dir (copy_name name j))} + (if fs_exists d p then 1 else 0))")
  fix d dir name k new_path
  assume "fs_exists d new_path"
  moreover have "card {j. k + 1 \<le> j \<and> fs_exists d (path_append dir (copy_name name j))} +
      (if fs_exists d (path_append dir (copy_name name k)) then 1 else 0) =
    card {j. k \<le> j \<and> fs_exists d (path_append dir (copy_name name j))}" (is "card ?B + _ = card ?A")
  proof (cases "fs_exists d (path_append dir (copy_name name k))")
    case True
    then have "?A = insert k ?B" by (auto simp: le_Suc_eq Suc_le_eq le_less)
    moreover have "finite ?B" by (rule finite_subset [OF _ finite_copies [of d dir name]]) auto
    ultimately show ?thesis using True by simp
  next
    case False
    then have "?A = ?B" using le_antisym not_less_eq_eq by fastforce
    with False show ?thesis by simp
  qed
  ultimately show "((d, dir, name, k + 1, path_append dir (copy_name name k)), d, dir, name, k, new_path)
    \<in> measure (\<lambda>(d, dir, name, k, p).
      card {j. k \<le> j \<and> fs_exists d (path_append dir (copy_name name j))} + (if fs_exists d p then 1 else 0))"
    by simp
qed simp

declare copy_target.simps [simp del]

definition execute_cp :: "path option \<Rightarrow> path option \<Rightarrow> ResponseBuilder \<Rightarrow> (exn, exec, ResponseBuilder) action" where
  "execute_cp p n rb =
     bind get_current_path (\<lambda>cwd.
     bind (value_of n) (\<lambda>name.
     bind (value_of p) (\<lambda>target.
     bind (on_disk (\<lambda>d. fs_copy_file d (path_append cwd name)
            (copy_target d target name 1 (path_append target name)))) (\<lambda>errc.
     bind (relative_path_to target) (\<lambda>rel.
     andthen (from_sum (check_errc errc name (''copy '' @ quoted name @ '' to '' @ quoted rel)))
       (ret rb))))))"

fun execute :: "env \<Rightarrow> Command \<Rightarrow> ResponseBuilder \<Rightarrow> (exn, exec, ResponseBuilder) action" where
  "execute e (Auth u p) rb = execute_auth e u p rb"
| "execute e Bye rb = andthen kill (ret rb)"
| "execute e (Cd p) rb = execute_cd p rb"
| "execute e (Cp p n) rb = execute_cp p n rb"
| "execute e (Dl n k) rb = execute_dl n k rb"
| "execute e Dls rb = execute_dls rb"
| "execute e Exit rb = andthen kill (ret rb)"
| "execute e Logout rb = andthen logout (ret rb)"
| "execute e (Ls p sz md) rb = execute_ls e p sz md rb"
| "execute e (Mkdir n) rb = execute_mkdir n rb"
| "execute e (Mv p n) rb = execute_mv p n rb"
| "execute e Name rb = execute_name rb"
| "execute e Perms rb = execute_perms rb"
| "execute e Pwd rb = execute_pwd rb"
| "execute e (Rename old new) rb = execute_rename old new rb"
| "execute e (Rm n) rb = execute_rm n rb"
| "execute e (Tree p) rb = execute_tree p rb"
| "execute e (Ul n sz retry) rb = execute_ul e n sz retry rb"

end
