(* ===== verification/Command_Executor.thy ===== *)
theory Command_Executor
  imports Commands
begin

text \<open>
  The dispatcher of commands (\<open>command/command_executor.hpp\<close>,
  \<open>protocol/execution/command_executor.hpp\<close>, \<open>default_command_executor.hpp\<close>): it finds the
  command of a request by name, checks that the client may use it, and holds the command
  object while its fields are parsed and it is executed.
\<close>

section \<open>The table of commands\<close>

text \<open>The commands in the order of the variant, each with its name and in its initial state.\<close>

definition command_table :: "(string \<times> Command) list" where
  "command_table =
     [(''auth'', Auth None None), (''bye'', Bye), (''cd'', Cd None), (''cp'', Cp None None), (''dl'', Dl None 0),
      (''dls'', Dls), (''exit'', Exit), (''logout'', Logout), (''ls'', Ls None False False), (''mkdir'', Mkdir None),
      (''mv'', Mv None None), (''name'', Name), (''perms'', Perms), (''pwd'', Pwd), (''rename'', Rename None None),
      (''rm'', Rm None), (''tree'', Tree None), (''ul'', Ul None None False)]"

fun required_perms :: "Command \<Rightarrow> Permissions" where
  "required_perms (Cp p n) = perm_copy"
| "required_perms (Dl n k) = perm_download"
| "required_perms Dls = perm_download"
| "required_perms (Mkdir n) = perm_write"
| "required_perms (Mv p n) = perm_move"
| "required_perms (Rename old new) = perm_write"
| "required_perms (Rm n) = perm_write"
| "required_perms (Ul n sz retry) = perm_upload"
| "required_perms c = perm_none"

fun requires_authorization :: "Command \<Rightarrow> bool" where
  "requires_authorization (Auth u p) = False"
| "requires_authorization Bye = False"
| "requires_authorization Exit = False"
| "requires_authorization c = True"

fun command_name :: "Command \<Rightarrow> string" where
  "command_name (Auth u p) = ''auth''"
| "command_name Bye = ''bye''"
| "command_name (Cd p) = ''cd''"
| "command_name (Cp p n) = ''cp''"
| "command_name (Dl n k) = ''dl''"
| "command_name Dls = ''dls''"
| "command_name Exit = ''exit''"
| "command_name Logout = ''logout''"
| "command_name (Ls p sz md) = ''ls''"
| "command_name (Mkdir n) = ''mkdir''"
| "command_name (Mv p n) = ''mv''"
| "command_name Name = ''name''"
| "command_name Perms = ''perms''"
| "command_name Pwd = ''pwd''"
| "command_name (Rename old new) = ''rename''"
| "command_name (Rm n) = ''rm''"
| "command_name (Tree p) = ''tree''"
| "command_name (Ul n sz retry) = ''ul''"

section \<open>Dispatch\<close>

definition construct_command :: "string \<Rightarrow> Command option" where
  "construct_command name = map_of command_table name"

definition check_authorization :: "Command \<Rightarrow> (exn, exec, unit) action" where
  "check_authorization c =
     bind (gets (\<lambda>s. is_authorized (ex_client s))) (\<lambda>authorized.
       if requires_authorization c \<and> \<not> authorized then raise (protocol_error not_logged_in) else ret ())"

definition check_permissions :: "Command \<Rightarrow> (exn, exec, unit) action" where
  "check_permissions c =
     bind (gets (\<lambda>s. is_authorized (ex_client s))) (\<lambda>authorized.
       if authorized then
         bind get_auth_token (\<lambda>a.
           if perms_and (required_perms c) (at_perms a) \<noteq> required_perms c
           then raise (protocol_error not_enough_perms) else ret ())
       else ret ())"

definition set_command :: "string \<Rightarrow> (exn, exec, Command \<times> ResponseBuilder) action" where
  "set_command name =
     (case construct_command name of
        None \<Rightarrow> raise (ProtocolError bad_command (''No such command '' @ [apostrophe] @ name @ [apostrophe]))
      | Some c \<Rightarrow>
          andthen (check_authorization c)
          (andthen (check_permissions c)
            (ret (c, set_command_name (command_name c) (set_code ok new_builder)))))"

text \<open>
  What \<open>Client::execute_command\<close> asks of the executor: select the command, let it parse the
  fields, execute it and build the response.
\<close>

definition run_command :: "env \<Rightarrow> string \<Rightarrow> Field list \<Rightarrow> (exn, exec, Response) action" where
  "run_command e name flds =
     bind (set_command name) (\<lambda>(c, rb).
     bind (parse_fields c flds) (\<lambda>c'.
     bind (execute e c' rb) (\<lambda>rb'. ret (get_response rb'))))"

end
