(* ===== verification/Command_Safety.thy ===== *)
theory Command_Safety
  imports Command_Executor
begin

text \<open>
  What every command keeps: the ownership of the tokens, the invariants of the world and the
  tree of the disk, and that no null pointer is dereferenced on the way. The rules follow
  the structure of the commands.
\<close>

section \<open>Steps of the server context\<close>

definition heap_grows :: "heap \<Rightarrow> heap \<Rightarrow> bool" where
  "heap_grows h h' \<longleftrightarrow> (\<forall>i a. auth_objects h i = Some a \<longrightarrow> auth_objects h' i = Some a) \<and>
     (\<forall>i l. lock_objects h i = Some l \<longrightarrow> lock_objects h' i = Some l)"

lemma heap_grows_refl [simp]: "heap_grows h h"
  by (simp add: heap_grows_def)

lemma client_ok_grows: "client_ok h c \<Longrightarrow> heap_grows h h' \<Longrightarrow> client_ok h' c"
  by (erule client_ok_extend) (auto simp: heap_grows_def)

lemma allocate_grows:
  "heap_fresh (w_heap w) \<Longrightarrow> allocate_lock l w = (i, w') \<Longrightarrow> heap_grows (w_heap w) (w_heap w')"
  "heap_fresh (w_heap w) \<Longrightarrow> allocate_auth a w = (i, w') \<Longrightarrow> heap_grows (w_heap w) (w_heap w')"
  using lock_registry.enter_new lock_registry.enter_objects allocate_lock_simps(1)
    auth_registry.enter_new auth_registry.enter_objects allocate_auth_simps(1)
  unfolding heap_grows_def by (metis fun_upd_other option.distinct(1))+

text \<open>An operation of the server that returns a new lock of some kind, or throws.\<close>

definition lock_maker :: "(lock_object \<Rightarrow> bool) \<Rightarrow> (exn, world, oid) action \<Rightarrow> bool" where
  "lock_maker kind m \<longleftrightarrow> (\<forall>w. case m w of
     (Inl x, w') \<Rightarrow> \<not> is_null x \<and> w' = w
   | (Inr i, w') \<Rightarrow> \<exists>l. kind l \<and> is_absolute (get_locked_path l) \<and> allocate_lock l w = (i, w'))"

lemma lock_maker_run:
  assumes "lock_maker kind m" and "world_ok w" and "m w = (Inr i, w')" and "client_ok (w_heap w) c"
  shows "world_ok w'" and "client_ok (w_heap w') c" and "lock_objects (w_heap w) i = None"
    and "\<exists>l. lock_objects (w_heap w') i = Some l \<and> kind l"
proof -
  obtain l where l: "kind l" "is_absolute (get_locked_path l)" "allocate_lock l w = (i, w')"
    using assms(1,3) by (force simp: lock_maker_def split: prod.splits sum.splits)
  have fresh: "heap_fresh (w_heap w)" using assms(2) by (simp add: world_ok_def)
  show "world_ok w'" using world_ok_allocate_lock [OF assms(2) l(2,3)] .
  show "client_ok (w_heap w') c" using client_ok_grows [OF assms(4) allocate_grows(1) [OF fresh l(3)]] .
  show "lock_objects (w_heap w) i = None" using lock_registry.enter_new [OF fresh l(3)] .
  show "\<exists>l. lock_objects (w_heap w') i = Some l \<and> kind l"
    using lock_registry.enter_objects [OF l(3)] l(1) by simp
qed

lemma client_ok_unowned:
  "client_ok (w_heap w) c \<Longrightarrow> lock_objects (w_heap w) i = None \<Longrightarrow> ex_client s = c \<Longrightarrow> unowned i s"
  by (auto simp: client_ok_def points_to_def unowned_def)

lemma runs_lock_maker:
  assumes "lock_maker kind m"
  shows "runs authed (with_world m) (\<lambda>i s. authed s \<and> holds kind i s)"
proof (rule runsI)
  fix s r t
  assume s: "authed s" and run: "with_world m s = (r, t)"
  obtain w' where w': "m (ex_world s) = (r, w')" "t = s\<lparr>ex_world := w'\<rparr>"
    using run by (auto simp: with_world_def split: prod.splits)
  have ok: "world_ok (ex_world s)" "client_ok (w_heap (ex_world s)) (ex_client s)"
    using s by (auto simp: authed_def exec_ok_def base_ok_def)
  show "case r of Inl x \<Rightarrow> throws_safely x t | Inr i \<Rightarrow> authed t \<and> holds kind i t"
  proof (cases r)
    case (Inl x)
    have "case m (ex_world s) of (Inl x, w') \<Rightarrow> \<not> is_null x \<and> w' = ex_world s | (Inr i, w') \<Rightarrow> True"
      using assms by (fastforce simp: lock_maker_def split: prod.splits sum.splits)
    with Inl s w' show ?thesis by (simp add: throws_safely_def authed_def exec_ok_def)
  next
    case (Inr i)
    note made = lock_maker_run [OF assms ok(1) w'(1) [unfolded Inr] ok(2)]
    have "unowned i t" using client_ok_unowned [OF ok(2) made(3)] w'(2) by simp
    with made s Inr show ?thesis
      by (auto simp: w'(2) authed_def exec_ok_def base_ok_def holds_def)
  qed
qed

lemma lock_makerI:
  assumes "\<And>w. m w = (case g w of Inl x \<Rightarrow> (Inl x, w) | Inr l \<Rightarrow> map_prod Inr id (allocate_lock l w))"
    and "\<And>w x. g w = Inl x \<Longrightarrow> \<not> is_null x"
    and "\<And>w l. g w = Inr l \<Longrightarrow> kind l \<and> is_absolute (get_locked_path l)"
  shows "lock_maker kind m"
  unfolding lock_maker_def
proof
  fix w
  show "case m w of (Inl x, w') \<Rightarrow> \<not> is_null x \<and> w' = w
    | (Inr i, w') \<Rightarrow> \<exists>l. kind l \<and> is_absolute (get_locked_path l) \<and> allocate_lock l w = (i, w')"
  proof (cases "g w")
    case (Inl x)
    with assms(1) [of w] assms(2) show ?thesis by simp
  next
    case (Inr l)
    obtain i w' where "allocate_lock l w = (i, w')" by (cases "allocate_lock l w")
    with assms(1) [of w] assms(3) [OF Inr] Inr show ?thesis by auto
  qed
qed

lemma lock_path_run:
  "lock_path p w = (case (case throw_on_invalid_path w p of Inl x \<Rightarrow> Inl x | Inr _ \<Rightarrow> make_path_lock p) of
     Inl x \<Rightarrow> (Inl x, w) | Inr l \<Rightarrow> map_prod Inr id (allocate_lock l w))"
  by (simp add: lock_path_def andthen_def make_shared_lock_run split: sum.splits)

lemma lock_maker_lock_path: "lock_maker is_plain (lock_path p)"
  by (rule lock_makerI [OF lock_path_run])
    (auto simp: throw_on_invalid_path_def make_path_lock_def construct_path_lock_def split: if_splits)

lemma download_file_run:
  "download_file p w = (case (case throw_on_invalid_path w p of Inl x \<Rightarrow> Inl x
       | Inr _ \<Rightarrow> map_sum id Download_lock (make_download_token (w_disk w) p)) of
     Inl x \<Rightarrow> (Inl x, w) | Inr l \<Rightarrow> map_prod Inr id (allocate_lock l w))"
  by (auto simp: download_file_def andthen_def make_shared_lock_run split: sum.splits)

lemma make_download_token_ok:
  "make_download_token d p = Inr t \<Longrightarrow> is_absolute (dt_path t) \<and> dt_offset t \<le> dt_size t"
  "make_download_token d p = Inl x \<Longrightarrow> \<not> is_null x"
  by (auto simp: make_download_token_def construct_path_lock_def split: sum.splits if_splits)

lemma map_sum_Inl: "map_sum f g r = Inl y \<longleftrightarrow> (\<exists>x. r = Inl x \<and> y = f x)"
  and map_sum_Inr: "map_sum f g r = Inr z \<longleftrightarrow> (\<exists>x. r = Inr x \<and> z = g x)"
  by (cases r; auto)+

lemma lock_maker_download_file: "lock_maker is_download (download_file p)"
  by (rule lock_makerI [OF download_file_run])
    (auto simp: throw_on_invalid_path_def dest: make_download_token_ok split: if_splits sum.splits
      simp: map_sum_Inl map_sum_Inr)

lemma lock_maker_upload_file: "lock_maker is_upload (upload_file p n)"
proof -
  have safe: "\<not> is_null x" if "upload_guard w p n = Inl x" for w x
    using that by (auto simp: upload_guard_def throw_if_file_is_already_uploaded_def split: if_splits)
  have abs: "is_absolute p" if "upload_guard w p n = Inr u" for w u
    using that upload_guard_Inr by auto
  have run: "upload_file p n w = (case (case upload_guard w p n of Inl x \<Rightarrow> Inl x
       | Inr _ \<Rightarrow> Inr (Upload_lock \<lparr>ut_path = p, ut_destination_path = parent_path p, ut_file_name = filename p,
           ut_temporary_filename_stem = [], ut_size = n, ut_offset = 0\<rparr>)) of
     Inl x \<Rightarrow> (Inl x, w) | Inr l \<Rightarrow> map_prod Inr id (allocate_lock l w))" for w
    by (auto simp: upload_file_run split: sum.splits)
  show ?thesis
    by (rule lock_makerI [OF run]) (auto split: sum.splits dest: safe abs)
qed

section \<open>Steps on the disk\<close>

definition disk_ok :: "disk \<Rightarrow> bool" where
  "disk_ok d \<longleftrightarrow> wf_node (tree d) \<and> obs (tree d) [] = Some Directory"

lemma entry_of_map_dir [simp]: "entry_of (map_dir d f t) = entry_of t"
  by (cases d; cases t) simp_all

lemma entry_of_edits [simp]: "entry_of (put_entry l n x t) = entry_of t" "entry_of (del_entry l n t) = entry_of t"
  "entry_of (move_entry t src x l n) = entry_of t"
  by (simp_all add: put_entry_def del_entry_def move_entry_def)

lemma disk_ok_put: "disk_ok d \<Longrightarrow> wf_node x \<Longrightarrow> plain_name n \<Longrightarrow> disk_ok (d\<lparr>tree := put_entry l n x (tree d)\<rparr>)"
  by (simp add: disk_ok_def wf_put_entry)

lemma disk_ok_del: "disk_ok d \<Longrightarrow> disk_ok (d\<lparr>tree := del_entry l n (tree d)\<rparr>)"
  by (simp add: disk_ok_def wf_del_entry)

lemma disk_ok_clear: "disk_ok d \<Longrightarrow> disk_ok (d\<lparr>tree := map_dir l (\<lambda>_. []) (tree d)\<rparr>)"
  by (simp add: disk_ok_def wf_map_dir)

lemma disk_ok_create_directory: "disk_ok d \<Longrightarrow> disk_ok (snd (fs_create_directory d p))"
  by (auto simp: fs_create_directory_def disk_ok_put split: option.splits node.splits sum.splits)

lemma disk_ok_rename: "disk_ok d \<Longrightarrow> disk_ok (snd (fs_rename d p q))"
  by (auto simp: fs_rename_def Let_def disk_ok_def intro!: wf_move_entry elim: wf_lookup
      split: option.splits sum.splits prod.splits)

lemma disk_ok_copy_file: "disk_ok d \<Longrightarrow> disk_ok (snd (fs_copy_file d p q))"
  by (auto simp: fs_copy_file_def disk_ok_put split: option.splits node.splits sum.splits)

lemma disk_ok_remove_path: "disk_ok d \<Longrightarrow> disk_ok (snd (remove_path d p n))"
  by (auto simp: remove_path_def disk_ok_del split: sum.splits)

lemma disk_ok_remove_all: "disk_ok d \<Longrightarrow> disk_ok (snd (fs_remove_all d p))"
  by (auto simp: fs_remove_all_def disk_ok_remove_path disk_ok_clear split: option.splits node.splits sum.splits)

lemma disk_ok_remove: "disk_ok d \<Longrightarrow> disk_ok (snd (fs_remove d p))"
  by (auto simp: fs_remove_def disk_ok_remove_path split: option.splits node.splits sum.splits list.splits)

lemmas disk_ok_intros = disk_ok_create_directory disk_ok_rename disk_ok_copy_file disk_ok_remove_all disk_ok_remove

lemma world_ok_disk: "world_ok w \<Longrightarrow> disk_ok (w_disk w)"
  "world_ok w \<Longrightarrow> disk_ok d \<Longrightarrow> world_ok (set_disk d w)"
  by (simp_all add: world_ok_def disk_ok_def sessions_ok_def locks_ok_def world_simps)

section \<open>Rules for the steps of authorised clients\<close>

lemma authed_bind:
  assumes "runs authed m (\<lambda>x s. authed s \<and> Q x)" and "\<And>x. Q x \<Longrightarrow> runs authed (f x) R"
  shows "runs authed (bind m f) R"
  using assms(1) by (rule runs_bind) (rule runs_fact, erule assms(2))

lemma authed_gets: "runs authed (gets f) (\<lambda>x s. authed s \<and> True)"
  by (rule runs_gets) simp

lemma authed_from_sum:
  "(\<And>x. r = Inl x \<Longrightarrow> \<not> is_null x) \<Longrightarrow> runs authed (from_sum r) (\<lambda>x s. authed s \<and> r = Inr x)"
  by (rule runs_from_sum) (auto simp: authed_exec_ok)

lemma authed_ret: "Q x \<Longrightarrow> runs authed (ret x) (\<lambda>x s. authed s \<and> Q x)"
  by (rule runs_ret) simp

lemma authed_raise: "\<not> is_null x \<Longrightarrow> runs authed (raise x) Q"
  by (rule runs_raise) (auto simp: authed_exec_ok)

lemma authed_weaken: "runs authed m (\<lambda>x s. authed s \<and> Q x) \<Longrightarrow> runs authed m (\<lambda>x s. authed s \<and> True)"
  by (erule runs_conseq) auto

lemma authed_need: "x \<noteq> None \<Longrightarrow> runs authed (need x) (\<lambda>v s. authed s \<and> x = Some v)"
  by (cases x) (auto simp: need_def runs_def)

lemma authed_value_of: "runs authed (value_of x) (\<lambda>v s. authed s \<and> x = Some v)"
  by (cases x) (auto simp: value_of_def runs_def throws_safely_def authed_exec_ok exec_ok_def authed_def)

lemma authed_on_disk:
  fixes f :: "disk \<Rightarrow> 'a \<times> disk"
  assumes "\<And>d. disk_ok d \<Longrightarrow> disk_ok (snd (f d))"
  shows "runs authed (on_disk f) (\<lambda>r s. authed s \<and> True)"
proof (rule runsI)
  fix s t and r :: "exn + 'a"
  assume s: "authed s" and run: "on_disk f s = (r, t)"
  have "disk_ok (w_disk (ex_world s))" using s by (simp add: authed_def exec_ok_def base_ok_def world_ok_disk)
  from assms [OF this] run s show "case r of Inl x \<Rightarrow> throws_safely x t | Inr x \<Rightarrow> authed t \<and> True"
    by (auto simp: on_disk_def world_simps authed_def exec_ok_def base_ok_def world_ok_disk split: prod.splits)
qed

lemma authed_current_path: "runs authed get_current_path (\<lambda>p s. authed s \<and> is_absolute p)"
  by (rule runs_get_current_path)

lemma authed_auth_token: "runs authed get_auth_token (\<lambda>a s. authed s \<and> True)"
  using runs_get_auth_token by (rule runs_conseq) auto

lemma authed_relative: "runs authed (relative_path_to p) (\<lambda>q s. authed s \<and> True)"
  unfolding relative_path_to_def by (rule authed_gets)

lemma any_locked_safe: "any_locked ls p = Inl x \<Longrightarrow> \<not> is_null x"
  by (induction ls) (auto simp: has_locked_path_def split: sum.splits if_splits)

lemma authed_path_locked:
  "(\<And>b. runs authed (f b) Q) \<Longrightarrow>
   runs authed (bind (gets (\<lambda>s. is_path_locked (ex_world s) p)) (\<lambda>r. bind (from_sum r) f)) Q"
  by (rule runs_gets_sum)
    (auto simp: is_path_locked_def any_locked_safe authed_exec_ok intro: runs_conseq)

lemmas authed_steps = authed_gets authed_current_path authed_auth_token authed_relative authed_need authed_value_of

section \<open>Fields\<close>

lemma name_value_safe: "name_value a b c cur f = Inl x \<Longrightarrow> \<not> is_null x"
  and text_field_safe: "text_field a b cur' f = Inl x \<Longrightarrow> \<not> is_null x"
  and boolean_field_safe: "boolean_field a f = Inl x \<Longrightarrow> \<not> is_null x"
  and integer_field_safe: "integer_field a f = Inl x \<Longrightarrow> \<not> is_null x"
  by (auto simp: name_value_def text_field_def boolean_field_def integer_field_def bad_field_exn_def
      invalid_value_exn_def split: if_splits option.splits)

lemma check_directory_ok:
  "check_directory d sc req p = Inl x \<Longrightarrow> \<not> is_null x"
  "check_directory d sc req p = Inr q \<Longrightarrow> is_absolute q"
  by (auto simp: check_directory_def is_path_forbidden_def split: if_splits sum.splits)

definition absolute_option :: "path option \<Rightarrow> bool" where
  "absolute_option p \<longleftrightarrow> (\<exists>q. p = Some q \<and> is_absolute q)"

lemma authed_existing_name_field: "runs authed (existing_name_field c f) (\<lambda>v s. authed s \<and> v \<noteq> None)"
  unfolding existing_name_field_def plain_name_field_def
  by (rule authed_bind [OF authed_from_sum [OF name_value_safe]], assumption,
      rule authed_bind [OF authed_current_path], rule authed_bind [OF authed_gets])
    (auto intro: authed_raise authed_ret)

lemma authed_parse_path: "runs authed (parse_path c f) (\<lambda>v s. authed s \<and> absolute_option v)"
proof -
  have path: "runs authed (if is_absolute req then ret (final_path sc [] req)
      else bind get_current_path (\<lambda>cwd. ret (final_path sc cwd req))) (\<lambda>p s. authed s \<and> True)" for sc req
    by (rule runs_if, rule authed_ret, rule TrueI, rule authed_bind [OF authed_current_path], rule authed_ret, rule TrueI)
  show ?thesis
    unfolding parse_path_def
    by (rule authed_bind [OF authed_from_sum [OF text_field_safe]], assumption,
        rule authed_bind [OF authed_gets], rule authed_bind [OF authed_gets], rule authed_bind [OF path],
        rule authed_bind [OF authed_from_sum [OF check_directory_ok(1)]], assumption, rule authed_ret)
      (simp add: absolute_option_def check_directory_ok(2))
qed

lemma authed_parse_path_fields:
  "runs authed (parse_path_fields flds) (\<lambda>v s. authed s \<and> (v = None \<or> absolute_option v))"
proof (cases "find_field ''path'' flds")
  case None
  then show ?thesis by (simp add: parse_path_fields_def authed_ret)
next
  case (Some f)
  then show ?thesis
    by (simp add: parse_path_fields_def) (rule runs_conseq [OF authed_parse_path], auto)
qed

lemma authed_fold_fields:
  assumes "\<And>f c. I c \<Longrightarrow> runs authed (g f c) (\<lambda>c s. authed s \<and> I c)"
  shows "I c \<Longrightarrow> runs authed (fold_fields g flds c) (\<lambda>c s. authed s \<and> I c)"
proof (induction flds arbitrary: c)
  case Nil
  then show ?case unfolding fold_fields.simps by (rule authed_ret)
next
  case (Cons f flds)
  show ?case unfolding fold_fields.simps by (rule authed_bind [OF assms [OF Cons.prems] Cons.IH])
qed


text \<open>What \<open>parse_fields\<close> establishes for the command it returns.\<close>

fun cmd_ok :: "Command \<Rightarrow> bool" where
  "cmd_ok (Auth u p) \<longleftrightarrow> u \<noteq> None \<and> p \<noteq> None"
| "cmd_ok (Cd p) \<longleftrightarrow> absolute_option p"
| "cmd_ok (Cp p n) \<longleftrightarrow> absolute_option p \<and> n \<noteq> None"
| "cmd_ok (Dl n k) \<longleftrightarrow> n \<noteq> None"
| "cmd_ok (Mkdir n) \<longleftrightarrow> n \<noteq> None"
| "cmd_ok (Mv p n) \<longleftrightarrow> absolute_option p \<and> n \<noteq> None"
| "cmd_ok (Rename old new) \<longleftrightarrow> old \<noteq> None \<and> new \<noteq> None"
| "cmd_ok (Rm n) \<longleftrightarrow> n \<noteq> None"
| "cmd_ok (Ul n sz retry) \<longleftrightarrow> n \<noteq> None \<and> sz \<noteq> None"
| "cmd_ok c \<longleftrightarrow> True"

lemma authed_transport_fields:
  "runs authed (transport_fields flds) (\<lambda>v s. authed s \<and> (absolute_option (fst v) \<and> snd v \<noteq> None))"
proof -
  have name: "runs authed (case find_field ''name'' flds of None \<Rightarrow> ret None | Some f \<Rightarrow> existing_name_field None f)
      (\<lambda>n s. authed s \<and> True)"
  proof (cases "find_field ''name'' flds")
    case None
    show ?thesis unfolding None option.case by (rule authed_ret) (rule TrueI)
  next
    case (Some f)
    show ?thesis unfolding Some option.case by (rule authed_weaken [OF authed_existing_name_field])
  qed
  show ?thesis
    unfolding transport_fields_def
    by (rule authed_bind [OF authed_parse_path_fields], rule authed_bind [OF name])
      (auto simp: bad_field_exn_def intro!: authed_raise authed_ret)
qed

lemma fold_true:
  "(\<And>f c. runs authed (g f c) (\<lambda>c s. authed s \<and> True)) \<Longrightarrow>
   runs authed (fold_fields g flds c) (\<lambda>c s. authed s \<and> True)"
  by (rule authed_fold_fields [where I = "\<lambda>_. True"]) simp_all

lemma authed_step_from_sum:
  "(\<And>x. r = Inl x \<Longrightarrow> \<not> is_null x) \<Longrightarrow> runs authed (bind (from_sum r) (\<lambda>v. ret (h v))) (\<lambda>c s. authed s \<and> True)"
  by (rule authed_bind [OF authed_from_sum], assumption, rule authed_ret, rule TrueI)

lemma authed_ret_True: "runs authed (ret x) (\<lambda>c s. authed s \<and> True)"
  by (rule authed_ret) (rule TrueI)

lemma authed_field_steps:
  "runs authed (dl_field f c1) (\<lambda>c s. authed s \<and> True)"
  "runs authed (ls_field f c2) (\<lambda>c s. authed s \<and> True)"
  "runs authed (only_name_field f c3) (\<lambda>c s. authed s \<and> True)"
  "runs authed (rename_field f c4) (\<lambda>c s. authed s \<and> True)"
  "runs authed (ul_field f c5) (\<lambda>c s. authed s \<and> True)"
  unfolding dl_field_def ls_field_def only_name_field_def rename_field_def ul_field_def plain_name_field_def
    rename_name_def ul_name_def prod.case_eq_if
  by (intro runs_if authed_ret_True authed_step_from_sum authed_bind [OF authed_existing_name_field];
      erule name_value_safe boolean_field_safe integer_field_safe)+

lemmas authed_folds = authed_field_steps [THEN fold_true]

lemma authed_parse_fields:
  assumes "requires_authorization c"
  shows "runs authed (parse_fields c flds) (\<lambda>c s. authed s \<and> (cmd_ok c \<and> requires_authorization c))"
proof -
  have tail: "runs authed (if v = None then raise (bad_field_exn m) else ret c) (\<lambda>c s. authed s \<and> (cmd_ok c \<and> requires_authorization c))"
    if "v \<noteq> None \<Longrightarrow> cmd_ok c \<and> requires_authorization c" for v :: "'x option" and m c
    using that by (auto simp: bad_field_exn_def intro!: authed_raise authed_ret)
  show ?thesis
  proof (cases c)
    case (Cd p)
    show ?thesis unfolding Cd parse_fields.simps parse_cd_def
      by (rule authed_bind [OF authed_parse_path_fields], rule tail) auto
  next
    case (Cp p n)
    show ?thesis unfolding Cp parse_fields.simps prod.case_eq_if
      by (rule authed_bind [OF authed_transport_fields], rule authed_ret) simp
  next
    case (Mv p n)
    show ?thesis unfolding Mv parse_fields.simps prod.case_eq_if
      by (rule authed_bind [OF authed_transport_fields], rule authed_ret) simp
  next
    case (Dl n k)
    show ?thesis unfolding Dl parse_fields.simps parse_dl_def prod.case_eq_if
      by (rule authed_bind [OF authed_folds(1)], rule tail) simp
  next
    case (Ls p sz md)
    show ?thesis unfolding Ls parse_fields.simps parse_ls_def prod.case_eq_if
      by (rule authed_bind [OF authed_parse_path_fields], rule authed_bind [OF authed_folds(2)], rule authed_ret) simp
  next
    case (Mkdir n)
    show ?thesis unfolding Mkdir parse_fields.simps parse_mkdir_def
      by (rule authed_bind [OF authed_folds(3)], rule tail) simp
  next
    case (Rm n)
    show ?thesis unfolding Rm parse_fields.simps parse_rm_def
      by (rule authed_bind [OF authed_folds(3)], rule tail) simp
  next
    case (Rename old new)
    show ?thesis unfolding Rename parse_fields.simps parse_rename_def prod.case_eq_if
      by (rule authed_bind [OF authed_folds(4)]) (auto simp: bad_field_exn_def intro!: authed_raise authed_ret)
  next
    case (Tree p)
    show ?thesis unfolding Tree parse_fields.simps
      by (rule authed_bind [OF authed_parse_path_fields], rule authed_ret) simp
  next
    case (Ul n sz retry)
    show ?thesis unfolding Ul parse_fields.simps parse_ul_def prod.case_eq_if
      by (rule authed_bind [OF authed_folds(5)]) (auto simp: bad_field_exn_def intro!: authed_raise authed_ret)
  qed (use assms in \<open>auto intro!: runs_ret\<close>)
qed

section \<open>Execution\<close>

lemma authed_done: "runs authed (ret x) (\<lambda>_. exec_ok)"
  by (rule runs_ret) (rule authed_exec_ok)

lemma check_errc_safe: "check_errc x n m = Inl y \<Longrightarrow> \<not> is_null y"
  by (auto simp: check_errc_def protocol_error_def split: option.splits errno.splits)

lemma authed_check_errc: "runs authed (andthen (from_sum (check_errc x n m)) (ret rb)) (\<lambda>_. exec_ok)"
  unfolding andthen_def by (rule authed_bind [OF authed_from_sum [OF check_errc_safe]], assumption, rule authed_done)

lemma system_error_safe [simp]: "\<not> is_null (system_error x m)"
  by (simp add: system_error_def)

lemma runs_execute_cd: "absolute_option p \<Longrightarrow> runs authed (execute_cd p rb) (\<lambda>_. exec_ok)"
  unfolding execute_cd_def set_path_of_client_def
  by (rule authed_bind [OF authed_value_of], rule runs_andthen [OF runs_set_current_path], simp add: absolute_option_def,
      rule authed_bind [OF authed_current_path], rule authed_bind [OF authed_relative], rule authed_done)

lemma runs_execute_pwd: "runs authed (execute_pwd rb) (\<lambda>_. exec_ok)"
  unfolding execute_pwd_def
  by (rule authed_bind [OF authed_current_path], rule authed_bind [OF authed_relative], rule authed_done)

lemma runs_execute_name: "runs authed (execute_name rb) (\<lambda>_. exec_ok)"
  and runs_execute_perms: "runs authed (execute_perms rb) (\<lambda>_. exec_ok)"
  unfolding execute_name_def execute_perms_def
  by (rule authed_bind [OF authed_auth_token], rule authed_done)+

lemma runs_execute_mkdir: "n \<noteq> None \<Longrightarrow> runs authed (execute_mkdir n rb) (\<lambda>_. exec_ok)"
  unfolding execute_mkdir_def
  by (rule authed_bind [OF authed_current_path], rule authed_bind [OF authed_need], assumption,
      rule authed_bind [OF authed_gets], rule runs_if, rule authed_raise, simp,
      rule authed_bind [OF authed_on_disk], rule disk_ok_create_directory, assumption)
    (auto split: sum.split intro: authed_raise authed_done)

lemma runs_execute_rm: "n \<noteq> None \<Longrightarrow> runs authed (execute_rm n rb) (\<lambda>_. exec_ok)"
  unfolding execute_rm_def
  by (rule authed_bind [OF authed_current_path], rule authed_bind [OF authed_need], assumption,
      rule authed_bind [OF authed_gets], rule runs_if, rule authed_raise, simp,
      rule authed_path_locked, rule runs_if, rule authed_raise, simp,
      rule authed_bind [OF authed_on_disk], rule disk_ok_remove_all, assumption)
    (auto split: sum.split intro: authed_raise authed_done)

lemma runs_execute_rename:
  "old \<noteq> None \<Longrightarrow> new \<noteq> None \<Longrightarrow> runs authed (execute_rename old new rb) (\<lambda>_. exec_ok)"
  unfolding execute_rename_def
  by (rule authed_bind [OF authed_current_path], rule authed_bind [OF authed_need], assumption,
      rule authed_bind [OF authed_gets], rule runs_if, rule authed_raise, simp,
      rule authed_path_locked, rule runs_if, rule authed_raise, simp,
      rule authed_bind [OF authed_need], assumption, rule runs_if, rule authed_done, rule runs_if, rule authed_raise, simp,
      rule authed_bind [OF authed_on_disk], rule disk_ok_rename, assumption, rule authed_check_errc)

lemma runs_execute_mv: "runs authed (execute_mv p n rb) (\<lambda>_. exec_ok)"
  unfolding execute_mv_def
  by (rule authed_bind [OF authed_current_path], rule authed_bind [OF authed_value_of],
      rule authed_path_locked, rule runs_if, rule authed_raise, simp,
      rule authed_bind [OF authed_value_of], rule authed_bind [OF authed_gets], rule runs_if, rule authed_raise, simp,
      rule authed_bind [OF authed_on_disk], rule disk_ok_rename, assumption,
      rule authed_bind [OF authed_relative], rule authed_check_errc)

lemma runs_execute_cp: "runs authed (execute_cp p n rb) (\<lambda>_. exec_ok)"
  unfolding execute_cp_def
  by (rule authed_bind [OF authed_current_path], rule authed_bind [OF authed_value_of],
      rule authed_bind [OF authed_value_of],
      rule authed_bind [OF authed_on_disk], rule disk_ok_copy_file, assumption,
      rule authed_bind [OF authed_relative], rule authed_check_errc)

lemma authed_mode: "runs authed (andthen (set_mode m) (ret rb)) (\<lambda>_. exec_ok)"
  by (rule runs_andthen [where Q = exec_ok], rule runs_conseq [OF runs_set_mode])
    (auto simp: authed_exec_ok intro!: runs_ret)

lemma runs_execute_dls: "runs authed (execute_dls rb) (\<lambda>_. exec_ok)"
  unfolding execute_dls_def
  by (rule authed_bind [OF authed_gets], rule runs_if, rule authed_mode, rule authed_raise) simp

lemma base_ok_free_unowned:
  assumes "base_ok s" and "unowned i s"
  shows "base_ok (on_heap (free_lock (Some i)) s)"
  using assms points_to_free_other
  by (auto simp: base_ok_def client_ok_def unowned_def world_simps world_ok_heap_edits)

lemma exec_ok_free_unowned: "exec_ok s \<Longrightarrow> unowned i s \<Longrightarrow> exec_ok (on_heap (free_lock (Some i)) s)"
  by (simp add: exec_ok_def base_ok_free_unowned world_simps)

lemma unowned_on_heap [simp]: "unowned i (on_heap f s) = unowned i s"
  by (simp add: unowned_def world_simps)

lemma exec_ok_set_unowned:
  assumes "exec_ok s" and "unowned i s" and "lock_objects (w_heap (ex_world s)) i \<noteq> None"
    and "is_absolute (get_locked_path l)"
  shows "exec_ok (on_heap (set_lock i l) s)"
proof -
  have "points_to (set_lock i l h) k p" if "points_to h k p" and "p \<noteq> Some i" for h k p
    using that by (auto simp: points_to_def world_simps)
  with assms show ?thesis
    by (auto simp: exec_ok_def base_ok_def client_ok_def unowned_def world_simps world_ok_heap_edits)
qed

lemma holds_absolute:
  "exec_ok s \<Longrightarrow> lock_objects (w_heap (ex_world s)) i = Some l \<Longrightarrow> is_absolute (get_locked_path l)"
  by (auto simp: exec_ok_def base_ok_def world_ok_def locks_ok_def)

lemma runs_execute_dl: 
  assumes "n \<noteq> None"
  shows "runs authed (execute_dl n k rb) (\<lambda>_. exec_ok)"
proof -
  have finish: "runs (\<lambda>s. authed s \<and> holds is_download token s)
     (\<lambda>s. case lock_objects (w_heap (ex_world s)) token of
         Some (Download_lock t) \<Rightarrow>
           (case download_set_file_offset k t of
              Inl x \<Rightarrow> raise x (on_heap (free_lock (Some token)) s)
            | Inr t' \<Rightarrow>
                andthen (modify (on_heap (set_lock token (Download_lock t'))))
                (andthen (set_download_token (Some token))
                  (ret (add_line (nat_to_string (unat (dt_size t' - dt_offset t'))) rb))) s)
       | _ \<Rightarrow> raise (NullDereference ''token'') s) (\<lambda>_. exec_ok)" for token
  proof (rule runsI, goal_cases)
    case (1 s r t)
    then have ok: "exec_ok s" and un: "unowned token s"
      by (auto simp: authed_def holds_def)
    obtain l where l: "lock_objects (w_heap (ex_world s)) token = Some l" "is_download l"
      using 1 by (auto simp: holds_def)
    then obtain tok where tok: "l = Download_lock tok" by (cases l) (auto simp: is_download_def)
    show ?case
    proof (cases "download_set_file_offset k tok")
      case (Inl x)
      then have "\<not> is_null x" by (auto simp: download_set_file_offset_def split: if_splits)
      with 1(2) l tok Inl exec_ok_free_unowned [OF ok un] show ?thesis
        by (auto simp: throws_safely_def exec_ok_def)
    next
      case (Inr tok')
      then have tok': "tok' = tok\<lparr>dt_offset := k\<rparr>" "k \<le> dt_size tok"
        by (auto simp: download_set_file_offset_def split: if_splits)
      define s1 where "s1 = on_heap (set_lock token (Download_lock tok')) s"
      have "is_absolute (get_locked_path (Download_lock tok'))"
        using holds_absolute [OF ok l(1)] by (simp add: tok tok')
      then have "exec_ok s1" unfolding s1_def using exec_ok_set_unowned [OF ok un] l(1) by simp
      moreover have "holds is_download token s1"
        using un tok' by (simp add: s1_def holds_def world_simps)
      moreover obtain q u where qu: "set_download_token (Some token) s1 = (q, u)"
        by (cases "set_download_token (Some token) s1")
      ultimately have "case q of Inl x \<Rightarrow> throws_safely x u | Inr _ \<Rightarrow> exec_ok u"
        using runs_set_download_token [of token] unfolding runs_def by (auto split: prod.splits sum.splits)
      with 1(2) l tok Inr qu show ?thesis
        by (auto simp: andthen_def bind_def s1_def [symmetric] split: sum.splits)
    qed
  qed
  show ?thesis
    unfolding execute_dl_def
    by (rule authed_bind [OF authed_current_path], rule authed_bind [OF authed_need [OF assms]],
        rule runs_bind [OF runs_lock_maker [OF lock_maker_download_file] finish])
qed


lemma authed_lock_bind:
  assumes "lock_maker kind m" and "\<And>i. runs (\<lambda>s. authed s \<and> holds kind i s) (f i) Q"
  shows "runs authed (bind (with_world m) f) Q"
  by (rule runs_bind [OF runs_lock_maker [OF assms(1)] assms(2)])

lemma is_upload_eq: "is_upload l \<longleftrightarrow> (\<exists>t. l = Upload_lock t)"
  by (cases l) (simp_all add: is_upload_def)

lemma runs_update_upload:
  assumes "\<And>t. ut_path (f t) = ut_path t"
  shows "runs (\<lambda>s. authed s \<and> holds is_upload i s) (update_upload i f) (\<lambda>_ s. authed s \<and> holds is_upload i s)"
proof (rule runsI)
  fix s r t
  assume s: "authed s \<and> holds is_upload i s" and run: "update_upload i f s = (r, t)"
  then obtain tok where tok: "lock_objects (w_heap (ex_world s)) i = Some (Upload_lock tok)" and un: "unowned i s"
    by (auto simp: holds_def is_upload_eq)
  then have t: "r = Inr (f tok)" "t = on_heap (set_lock i (Upload_lock (f tok))) s"
    using run by (auto simp: update_upload_def)
  have ok: "exec_ok s" using s by (simp add: authed_exec_ok)
  have "exec_ok t"
    using exec_ok_set_unowned [OF ok un] holds_absolute [OF ok tok] tok by (simp add: t assms)
  with s un show "case r of Inl x \<Rightarrow> throws_safely x t | Inr _ \<Rightarrow> authed t \<and> holds is_upload i t"
    by (simp add: t authed_def holds_def world_simps)
qed

lemma upload_field_edits:
  "ut_path (add_file_offset k t) = ut_path t" "ut_path (set_temporary_filename_stem p t) = ut_path t"
  by (simp_all add: add_file_offset_def set_temporary_filename_stem_def)

lemma runs_start_new_upload:
  "n \<noteq> None \<Longrightarrow> sz \<noteq> None \<Longrightarrow> runs authed (start_new_upload n sz) (\<lambda>i s. authed s \<and> holds is_upload i s)"
  unfolding start_new_upload_def
  by (rule authed_bind [OF authed_current_path], rule authed_bind [OF authed_need], assumption,
      rule authed_bind [OF authed_need], assumption, rule runs_lock_maker [OF lock_maker_upload_file])

lemma runs_retry_upload: "runs authed (retry_upload e) (\<lambda>i s. authed s \<and> holds is_upload i s)"
proof -
  have last: "runs authed (bind (with_world (upload_file p k)) (\<lambda>token.
      andthen (update_upload token (add_file_offset j)) (ret token))) (\<lambda>i s. authed s \<and> holds is_upload i s)" for p k j
    by (rule authed_lock_bind [OF lock_maker_upload_file], rule runs_andthen [OF runs_update_upload], 
        rule upload_field_edits, rule runs_ret)
  have tail: "runs authed (case (removed, a, b, c) of
               (Inl x, _, _, _) \<Rightarrow> raise (system_error x ''remove'')
             | (Inr _, Some p, Some sz, Some off) \<Rightarrow>
                 bind (with_world (upload_file p (word_of_int sz))) (\<lambda>token.
                 andthen (update_upload token (add_file_offset (word_of_int off))) (ret token))
             | (Inr _, _, _, _) \<Rightarrow> raise (protocol_error no_upload_to_resume))
     (\<lambda>i s. authed s \<and> holds is_upload i s)" for removed :: "errno + bool" and a b c
    using last by (auto split: sum.splits option.splits intro: authed_raise)
  show ?thesis
    unfolding retry_upload_def
  proof (rule authed_bind [OF authed_auth_token], rule authed_bind [OF authed_gets],
      rule authed_bind [OF authed_gets], goal_cases)
    case (1 a b tab)
    show ?case
    proof (cases tab)
      case None
      show ?thesis unfolding None option.case by (rule authed_raise) simp
    next
      case (Some table)
      show ?thesis unfolding Some option.case
        by (rule authed_bind [OF authed_on_disk], rule disk_ok_remove, assumption, rule tail)
    qed
  qed
qed

lemma runs_get_auth_token_holding:
  "runs (\<lambda>s. authed s \<and> holds k i s) get_auth_token (\<lambda>_ s. authed s \<and> holds k i s)"
proof (rule runsI)
  fix s r t
  assume s: "authed s \<and> holds k i s" and run: "get_auth_token s = (r, t)"
  then have "case r of Inl x \<Rightarrow> throws_safely x t | Inr _ \<Rightarrow> authed t"
    using runs_get_auth_token unfolding runs_def by (auto split: prod.splits sum.splits)
  moreover have "t = s" using run by (auto simp: get_auth_token_def split: option.splits)
  ultimately show "case r of Inl x \<Rightarrow> throws_safely x t | Inr _ \<Rightarrow> authed t \<and> holds k i t"
    using s by (auto split: sum.splits)
qed

lemma runs_execute_ul:
  assumes "n \<noteq> None" and "sz \<noteq> None"
  shows "runs authed (execute_ul e n sz retry rb) (\<lambda>_. exec_ok)"
proof -
  have start: "runs authed (if retry then retry_upload e else start_new_upload n sz)
      (\<lambda>i s. authed s \<and> holds is_upload i s)"
    using runs_retry_upload runs_start_new_upload [OF assms] by simp
  have store: "runs (\<lambda>s. authed s \<and> holds is_upload i s) (set_upload_token (Some i)) (\<lambda>_. exec_ok)" for i
    by (rule runs_conseq [OF runs_set_upload_token]) (auto simp: authed_exec_ok)
  show ?thesis
    unfolding execute_ul_def
    by (rule runs_bind [OF start], rule runs_bind [OF runs_get_auth_token_holding],
        rule runs_bind [OF runs_update_upload], rule upload_field_edits, rule runs_andthen [OF store],
        rule runs_andthen [OF runs_set_mode], rule runs_ret)
qed

lemma listing_safe:
  "ls_entries e sc dir b1 b2 es = Inl x \<Longrightarrow> \<not> is_null x"
  "tree_entries sc dir depth es = Inl x \<Longrightarrow> \<not> is_null x"
proof -
  show "ls_entries e sc dir b1 b2 es = Inl x \<Longrightarrow> \<not> is_null x"
    by (induction es) (auto simp: is_path_forbidden_def map_sum_Inl split: sum.splits if_splits)
  show "tree_entries sc dir depth es = Inl x \<Longrightarrow> \<not> is_null x"
    by (induction sc dir depth es rule: tree_entries.induct)
      (auto simp: is_path_forbidden_def map_sum_Inl split: sum.splits if_splits node.splits)
qed

lemma authed_path_or_current: "runs authed (path_or_current p) (\<lambda>q s. authed s \<and> True)"
proof (cases p)
  case None
  show ?thesis unfolding None path_or_current_def option.case by (rule authed_weaken [OF authed_current_path])
next
  case (Some q)
  show ?thesis unfolding Some path_or_current_def option.case by (rule authed_ret_True)
qed

lemma runs_execute_ls: "runs authed (execute_ls e p sz md rb) (\<lambda>_. exec_ok)"
  and runs_execute_tree: "runs authed (execute_tree p rb) (\<lambda>_. exec_ok)"
  unfolding execute_ls_def execute_tree_def
  by (rule authed_bind [OF authed_path_or_current], rule authed_bind [OF authed_gets], rule authed_bind [OF authed_gets],
      auto split: sum.split intro!: authed_raise authed_bind [OF authed_from_sum] authed_done dest: listing_safe)+

section \<open>Logging in\<close>

lemma runs_catching:
  assumes "runs P m Q" and "\<And>x. runs (throws_safely x) (h x) Q"
  shows "runs P (catching m h) Q"
  unfolding runs_def
proof (intro allI impI)
  fix s
  assume "P s"
  with assms(1) have m: "case m s of (Inr x, t) \<Rightarrow> Q x t | (Inl x, t) \<Rightarrow> throws_safely x t"
    by (simp add: runs_def)
  show "case catching m h s of (Inr x, t) \<Rightarrow> Q x t | (Inl x, t) \<Rightarrow> throws_safely x t"
    using m assms(2) unfolding catching_def runs_def by (fastforce split: prod.splits sum.splits)
qed

lemma credentials_safe: "credentials_ok crypt t n pw = Inl x \<Longrightarrow> \<not> is_null x"
  by (auto simp: credentials_ok_def verify_password_of_user_def hash_def get_user_def no_such_user_def
      split: if_splits sum.splits option.splits)

lemma get_perms_safe: "get_perms_of_user t n = Inl x \<Longrightarrow> \<not> is_null x"
  by (auto simp: get_perms_of_user_def get_user_def no_such_user_def map_sum_Inl split: option.splits)

lemma authorize_error:
  "authorize_user crypt n pw w = (Inl x, w') \<Longrightarrow> \<not> is_null x \<and> w_heap w' = w_heap w"
  using credentials_safe get_perms_safe
  by (auto simp: authorize_user_cases Let_def world_simps map_prod_def split: sum.splits if_splits prod.splits)

lemma authorize_success:
  assumes "world_ok w" and "authorize_user crypt n pw w = (Inr i, w')"
  shows "auth_objects (w_heap w) i = None" and "auth_objects (w_heap w') i \<noteq> None"
    and "heap_grows (w_heap w) (w_heap w')"
proof -
  let ?w1 = "remove_expired_auth_tokens w"
  obtain a where a: "allocate_auth a ?w1 = (i, w')"
    using assms(2) by (auto simp: authorize_user_cases Let_def map_prod_def split: sum.splits if_splits prod.splits)
  have fresh: "heap_fresh (w_heap ?w1)" using assms(1) by (simp add: world_ok_def world_simps)
  show "auth_objects (w_heap w) i = None"
    using auth_registry.enter_new [OF fresh a] by (simp add: world_simps)
  show "auth_objects (w_heap w') i \<noteq> None" using auth_registry.enter_objects [OF a] by simp
  show "heap_grows (w_heap w) (w_heap w')" using allocate_grows(2) [OF fresh a] by (simp add: world_simps)
qed

definition new_token :: "oid \<Rightarrow> exec \<Rightarrow> bool" where
  "new_token i s \<longleftrightarrow> auth_objects (w_heap (ex_world s)) i \<noteq> None \<and> m_auth_token (ex_client s) \<noteq> Some i"

lemma runs_authorize_user:
  "runs exec_ok (with_world (authorize_user crypt u pw)) (\<lambda>i s. exec_ok s \<and> new_token i s)"
proof (rule runsI)
  fix s r t
  assume s: "exec_ok s" and run: "with_world (authorize_user crypt u pw) s = (r, t)"
  obtain w' where w': "authorize_user crypt u pw (ex_world s) = (r, w')" "t = s\<lparr>ex_world := w'\<rparr>"
    using run by (auto simp: with_world_def split: prod.splits)
  have ok: "world_ok (ex_world s)" "client_ok (w_heap (ex_world s)) (ex_client s)" "located (ex_client s)"
    using s by (auto simp: exec_ok_def base_ok_def)
  have ok': "world_ok w'" using keepsD [OF keeps_authorize_user ok(1)] w'(1) by (metis snd_conv)
  show "case r of Inl x \<Rightarrow> throws_safely x t | Inr i \<Rightarrow> exec_ok t \<and> new_token i t"
  proof (cases r)
    case (Inl x)
    with authorize_error [OF w'(1) [unfolded Inl]] ok ok' w'(2) show ?thesis
      by (simp add: throws_safely_def exec_ok_def base_ok_def)
  next
    case (Inr i)
    note good = authorize_success [OF ok(1) w'(1) [unfolded Inr]]
    have "m_auth_token (ex_client s) \<noteq> Some i" using good(1) ok(2) by (auto simp: client_ok_def)
    with Inr good client_ok_grows [OF ok(2) good(3)] ok ok' w'(2) show ?thesis
      by (simp add: exec_ok_def base_ok_def new_token_def)
  qed
qed

lemma runs_set_auth_token:
  "runs (\<lambda>s. exec_ok s \<and> new_token i s) (set_auth_token (Some i)) (\<lambda>_. base_ok)"
proof (rule runsI)
  fix s r t
  assume s: "exec_ok s \<and> new_token i s" and run: "set_auth_token (Some i) s = (r, t)"
  show "case r of Inl x \<Rightarrow> throws_safely x t | Inr _ \<Rightarrow> base_ok t"
  proof (cases "is_authorized (ex_client s)")
    case True
    have "auth_objects (free_auth (Some i) (w_heap (ex_world s))) j = auth_objects (w_heap (ex_world s)) j"
      if "m_auth_token (ex_client s) = Some j" for j
      using s that by (intro free_auth_other) (auto simp: new_token_def)
    then have "exec_ok (on_heap (free_auth (Some i)) s)"
      using s by (simp add: exec_ok_def base_ok_def client_ok_def points_to_def world_simps world_ok_heap_edits)
    with True run show ?thesis
      by (auto simp: set_auth_token_def andthen_def throws_safely_def exec_ok_def)
  next
    case False
    with s run show ?thesis
      by (auto simp: set_auth_token_def exec_ok_def base_ok_def client_ok_def world_simps new_token_def)
  qed
qed

lemma lock_path_error: "lock_path p w = (Inl x, w') \<Longrightarrow> w' = w \<and> \<not> is_null x \<and> \<not> is_protocol x"
  by (auto simp: lock_path_run throw_on_invalid_path_def make_path_lock_def construct_path_lock_def map_prod_def
      split: sum.splits prod.splits if_splits)

lemma runs_lock_root:
  "runs base_ok (with_world (lock_path p)) (\<lambda>i s. base_ok s \<and> holds is_plain i s)"
proof (rule runsI)
  fix s r t
  assume s: "base_ok s" and run: "with_world (lock_path p) s = (r, t)"
  obtain w' where w': "lock_path p (ex_world s) = (r, w')" "t = s\<lparr>ex_world := w'\<rparr>"
    using run by (auto simp: with_world_def split: prod.splits)
  have ok: "world_ok (ex_world s)" "client_ok (w_heap (ex_world s)) (ex_client s)"
    using s by (auto simp: base_ok_def)
  show "case r of Inl x \<Rightarrow> throws_safely x t | Inr i \<Rightarrow> base_ok t \<and> holds is_plain i t"
  proof (cases r)
    case (Inl x)
    with lock_path_error [OF w'(1) [unfolded Inl]] s w'(2) show ?thesis by (simp add: throws_safely_def)
  next
    case (Inr i)
    note made = lock_maker_run [OF lock_maker_lock_path ok(1) w'(1) [unfolded Inr] ok(2)]
    have "unowned i t" using client_ok_unowned [OF ok(2) made(3)] w'(2) by simp
    with made Inr show ?thesis by (simp add: w'(2) base_ok_def holds_def)
  qed
qed

lemma runs_set_path_lock: "runs (\<lambda>s. base_ok s \<and> holds is_plain i s) (set_path_lock i) (\<lambda>_. exec_ok)"
  using set_path_lock_ok by (auto simp: runs_def split: prod.splits sum.splits) (metis fst_conv snd_conv sum.distinct(1))+

lemma runs_failed_attempt: "runs exec_ok (set_auth_token None) (\<lambda>_. exec_ok)"
  by (rule runsI) (auto simp: set_auth_token_def world_simps exec_ok_def base_ok_def client_ok_def located_def is_authorized_def)

lemma runs_rethrow: "runs (\<lambda>s. exec_ok s) (raise (ProtocolError c m)) Q"
  by (rule runs_raise) simp_all

lemma runs_execute_auth:
  assumes "u \<noteq> None" and "p \<noteq> None"
  shows "runs exec_ok (execute_auth e u p rb) (\<lambda>_. exec_ok)"
proof -
  obtain name pw where [simp]: "u = Some name" "p = Some pw" using assms by auto
  have inner: "runs exec_ok (bind (with_world (authorize_user (e_crypt e) name pw)) (\<lambda>token.
        andthen (set_auth_token (Some token))
        (bind (gets (\<lambda>s. m_root (the_server s))) (\<lambda>root.
         bind (with_world (lock_path root)) (\<lambda>lock.
         andthen (set_path_lock lock) (ret rb)))))) (\<lambda>_. exec_ok)"
    by (rule runs_bind [OF runs_authorize_user], rule runs_andthen [OF runs_set_auth_token],
        rule runs_bind [OF runs_gets [where Q = "\<lambda>_. base_ok"]], assumption, rule runs_bind [OF runs_lock_root],
        rule runs_andthen [OF runs_set_path_lock], rule runs_ret)
  have count: "runs exec_ok (andthen (set_auth_token None)
     (bind (gets (\<lambda>s. get_auth_try_count (ex_client s))) (\<lambda>n. if n = max_try_count then kill else ret ())))
     (\<lambda>_. exec_ok)"
    by (rule runs_andthen [OF runs_failed_attempt], rule runs_bind [OF runs_gets [where Q = "\<lambda>_. exec_ok"]],
        assumption, rule runs_if, rule runs_kill, rule runs_ret)
  have handler: "runs (throws_safely x) (case x of
          ProtocolError code msg \<Rightarrow>
            andthen
              (if code = invalid_credentials then
                 andthen (set_auth_token None)
                 (bind (gets (\<lambda>s. get_auth_try_count (ex_client s))) (\<lambda>n.
                   if n = max_try_count then kill else ret ()))
               else ret ())
              (raise x)
        | _ \<Rightarrow> raise x) (\<lambda>_. exec_ok)" for x
  proof (cases x)
    case (ProtocolError code msg)
    have pre: "runs (throws_safely x) (if code = invalid_credentials then
                 andthen (set_auth_token None)
                 (bind (gets (\<lambda>s. get_auth_try_count (ex_client s))) (\<lambda>n.
                   if n = max_try_count then kill else ret ()))
               else ret ()) (\<lambda>_. exec_ok)"
      by (rule runs_if, rule runs_conseq [OF count])
        (auto simp: ProtocolError throws_safely_def intro!: runs_ret)
    show ?thesis unfolding ProtocolError exn.case
      by (rule runs_andthen [OF pre [unfolded ProtocolError] runs_rethrow])
  qed (auto simp: runs_def throws_safely_def)
  show ?thesis
    unfolding execute_auth_def need_def \<open>u = Some name\<close> \<open>p = Some pw\<close> option.case action_run(6)
    by (rule runs_catching [OF inner handler])
qed

section \<open>Every command\<close>

lemma runs_execute:
  assumes "cmd_ok c" and "requires_authorization c"
  shows "runs authed (execute e c rb) (\<lambda>_. exec_ok)"
proof (cases c)
  case Logout
  have "runs authed logout (\<lambda>_. exec_ok)" by (rule runs_conseq [OF runs_logout]) (auto simp: authed_exec_ok)
  then show ?thesis unfolding Logout execute.simps by (rule runs_andthen) (rule runs_ret)
qed (use assms in \<open>simp_all add: runs_execute_cd runs_execute_cp runs_execute_dl runs_execute_dls runs_execute_ls
  runs_execute_mkdir runs_execute_mv runs_execute_name runs_execute_perms runs_execute_pwd runs_execute_rename
  runs_execute_rm runs_execute_tree runs_execute_ul\<close>)

lemma runs_parse_auth: "runs exec_ok (parse_auth flds) (\<lambda>c s. exec_ok s \<and> cmd_ok c \<and> (\<exists>u p. c = Auth u p))"
proof -
  have step: "runs exec_ok (auth_field f c) (\<lambda>_. exec_ok)" for f c
    unfolding auth_field_def prod.case_eq_if
    by (intro runs_if runs_bind [OF runs_from_sum [where Q = "\<lambda>_. exec_ok"]] runs_ret)
      (auto dest: text_field_safe)
  have "runs exec_ok (fold_fields auth_field flds c) (\<lambda>_. exec_ok)" for c
    by (induction flds arbitrary: c) (auto intro: runs_ret runs_bind [OF step])
  then show ?thesis
    unfolding parse_auth_def
    by (rule runs_bind) (auto simp: bad_field_exn_def intro!: runs_raise runs_ret)
qed


lemma runs_set_command:
  "runs exec_ok (set_command name)
     (\<lambda>(c, rb) s. exec_ok s \<and> construct_command name = Some c \<and>
        (requires_authorization c \<longrightarrow> is_authorized (ex_client s)))"
proof (rule runsI, goal_cases)
  case (1 s r t)
  note s = 1(1) and run = 1(2)
  show ?case
  proof (cases "construct_command name")
    case None
    with s run show ?thesis by (auto simp: set_command_def throws_safely_def exec_ok_def)
  next
    case (Some c)
    have token: "\<exists>a. get_auth_token s = (Inr a, s)" if "is_authorized (ex_client s)"
      using s that
      by (auto simp: get_auth_token_def auth_token_of_def exec_ok_def base_ok_def client_ok_def is_authorized_def)
    from Some s run token show ?thesis
      by (cases "is_authorized (ex_client s)")
        (auto simp: set_command_def check_authorization_def check_permissions_def andthen_def bind_def
          throws_safely_def exec_ok_def split: if_splits)
  qed
qed

lemma construct_command_cases:
  assumes "construct_command name = Some c"
  shows "requires_authorization c \<or> c = Auth None None \<or> c = Bye \<or> c = Exit"
  using assms by (auto simp: construct_command_def command_table_def split: if_splits)

lemma runs_run_command: "runs exec_ok (run_command e name flds) (\<lambda>_. exec_ok)"
proof -
  have rest: "runs (\<lambda>s. exec_ok s \<and> construct_command name = Some c \<and>
        (requires_authorization c \<longrightarrow> is_authorized (ex_client s)))
     (bind (parse_fields c flds) (\<lambda>c'. bind (execute e c' rb) (\<lambda>rb'. ret (get_response rb')))) (\<lambda>_. exec_ok)"
    (is "runs ?P ?body _") for c rb
  proof -
    have fin: "runs P (execute e c' rb) (\<lambda>_. exec_ok) \<Longrightarrow>
        runs P (bind (execute e c' rb) (\<lambda>rb'. ret (get_response rb'))) (\<lambda>_. exec_ok)" for P c'
      by (erule runs_bind) (rule runs_ret)
    consider "construct_command name \<noteq> Some c" | "requires_authorization c" | "c = Auth None None" | "c = Bye \<or> c = Exit"
      using construct_command_cases [of name c] by auto
    then show ?thesis
    proof cases
      case 1
      then show ?thesis by (simp add: runs_def)
    next
      case 2
      have "runs authed ?body (\<lambda>_. exec_ok)"
      proof (rule runs_bind [where Q = "\<lambda>c' s. authed s \<and> (cmd_ok c' \<and> requires_authorization c')"])
        show "runs authed (parse_fields c flds) (\<lambda>c' s. authed s \<and> (cmd_ok c' \<and> requires_authorization c'))"
          by (rule authed_parse_fields [OF 2])
        show "runs (\<lambda>s. authed s \<and> (cmd_ok c' \<and> requires_authorization c'))
          (bind (execute e c' rb) (\<lambda>rb'. ret (get_response rb'))) (\<lambda>_. exec_ok)" for c'
          by (rule runs_fact) (auto intro: fin runs_execute)
      qed
      then show ?thesis by (rule runs_conseq) (auto simp: authed_def 2)
    next
      case 3
      show ?thesis
        unfolding 3 parse_fields.simps
        by (rule runs_conseq [OF runs_bind [OF runs_parse_auth]])
          (auto intro!: fin runs_fact simp: runs_execute_auth)
    next
      case 4
      have "runs exec_ok (andthen kill (ret rb)) (\<lambda>_. exec_ok)"
        by (rule runs_andthen [OF runs_kill runs_ret])
      with 4 have "runs exec_ok (execute e c rb) (\<lambda>_. exec_ok)" by auto
      from fin [OF this] have "runs exec_ok ?body (\<lambda>_. exec_ok)" using 4 by auto
      then show ?thesis by (rule runs_conseq) auto
    qed
  qed
  show ?thesis
    unfolding run_command_def
    by (rule runs_bind [OF runs_set_command]) (auto intro: rest)
qed

section \<open>What leaves the disk alone\<close>

named_theorems keeps_state \<open>actions that only read\<close>

lemma keeps_readers [keeps_state]:
  "keeps ((=) s) get_current_path" "keeps ((=) s) get_auth_token"
  "keeps ((=) s) (relative_path_to p)" "keeps ((=) s) (need x)" "keeps ((=) s) (value_of x)"
  by (auto simp: keeps_def get_current_path_def get_auth_token_def relative_path_to_def need_def value_of_def
      split: option.splits)

lemma keeps_case_option: "keeps I m \<Longrightarrow> (\<And>x. keeps I (f x)) \<Longrightarrow> keeps I (case p of None \<Rightarrow> m | Some x \<Rightarrow> f x)"
  by (cases p) simp_all

lemma keeps_case_sum: "(\<And>x. keeps I (f x)) \<Longrightarrow> (\<And>x. keeps I (g x)) \<Longrightarrow> keeps I (case p of Inl x \<Rightarrow> f x | Inr x \<Rightarrow> g x)"
  by (cases p) simp_all

lemma keeps_case_prod: "(\<And>x y. keeps I (f x y)) \<Longrightarrow> keeps I (case p of (x, y) \<Rightarrow> f x y)"
  by (cases p) simp

lemmas keeps_cases = keeps_case_option keeps_case_sum keeps_case_prod

lemma keeps_existing_name_field [keeps_state]: "keeps ((=) s) (existing_name_field c f)"
  unfolding existing_name_field_def by (intro keeps_intros keeps_state)

lemma keeps_parse_path_fields [keeps_state]: "keeps ((=) s) (parse_path_fields flds)"
  unfolding parse_path_fields_def parse_path_def by (intro keeps_intros keeps_state keeps_cases)

lemma keeps_transport_fields [keeps_state]: "keeps ((=) s) (transport_fields flds)"
  unfolding transport_fields_def by (intro keeps_intros keeps_state keeps_cases)

lemma keeps_fold_fields: "(\<And>f c. keeps I (g f c)) \<Longrightarrow> keeps I (fold_fields g flds c)"
  by (induction flds arbitrary: c) (auto intro: keeps_intros)

lemma keeps_field_steps [keeps_state]:
  "keeps ((=) s) (auth_field f c1)" "keeps ((=) s) (dl_field f c2)" "keeps ((=) s) (ls_field f c3)"
  "keeps ((=) s) (only_name_field f c4)" "keeps ((=) s) (rename_field f c5)" "keeps ((=) s) (ul_field f c6)"
  unfolding auth_field_def dl_field_def ls_field_def only_name_field_def rename_field_def ul_field_def
  by (intro keeps_intros keeps_state keeps_cases)+

lemma keeps_parse_fields: "keeps ((=) s) (parse_fields c flds)"
  by (cases c; simp only: parse_fields.simps parse_auth_def parse_cd_def parse_dl_def parse_ls_def parse_mkdir_def
      parse_rm_def parse_rename_def parse_ul_def; intro keeps_intros keeps_state keeps_cases keeps_fold_fields)

lemma keeps_set_command: "keeps ((=) s) (set_command name)"
  unfolding set_command_def check_authorization_def check_permissions_def
  by (intro keeps_intros keeps_state keeps_cases)

lemma keeps_reader: "keeps ((=) s) m \<Longrightarrow> m s = (r, t) \<Longrightarrow> t = s"
  using keeps_result by fastforce

lemma parse_fields_pure: "parse_fields c flds s = (r, t) \<Longrightarrow> t = s"
  by (rule keeps_reader [OF keeps_parse_fields])

lemma set_command_pure: "set_command name s = (r, t) \<Longrightarrow> t = s"
  by (rule keeps_reader [OF keeps_set_command])

abbreviation disk_is :: "disk \<Rightarrow> exec \<Rightarrow> bool" where
  "disk_is d s \<equiv> the_disk s = d"

lemma reader_keeps: "(\<And>s. keeps ((=) s) m) \<Longrightarrow> keeps I m"
  unfolding keeps_def by metis

lemma keeps_world_disk:
  "keeps (\<lambda>w. w_disk w = d) m \<Longrightarrow> keeps (disk_is d) (with_world m)"
  by (auto simp: keeps_def with_world_def the_disk_def split: prod.splits)

lemma server_keeps_disk:
  "keeps (\<lambda>w. w_disk w = d) (authorize_user c n pw)" "keeps (\<lambda>w. w_disk w = d) (lock_path p)"
  "keeps (\<lambda>w. w_disk w = d) (download_file p)" "keeps (\<lambda>w. w_disk w = d) (upload_file p k)"
  unfolding keeps_def
  by (auto simp: authorize_user_cases lock_path_run download_file_run upload_file_run Let_def world_simps map_prod_def
      split: sum.splits prod.splits dest: allocate_auth_simps allocate_lock_simps)

lemma keeps_disk_ops:
  "keeps (disk_is d) kill" "keeps (disk_is d) (set_mode m)" "keeps (disk_is d) (set_auth_token p)"
  "keeps (disk_is d) logout" "keeps (disk_is d) (set_path_lock i)" "keeps (disk_is d) (set_current_path q)"
  "keeps (disk_is d) (set_download_token p)"
  by (auto simp: keeps_def the_disk_def kill_def set_mode_def set_auth_token_def logout_def set_path_lock_def
      set_current_path_def set_download_token_def andthen_def world_simps split: option.splits prod.splits)

definition changes_disk :: "Command \<Rightarrow> bool" where
  "changes_disk c = (case c of Mkdir n \<Rightarrow> True | Rename x y \<Rightarrow> True | Rm n \<Rightarrow> True | Cp p n \<Rightarrow> True | Mv p n \<Rightarrow> True
     | Ul n k b \<Rightarrow> True | _ \<Rightarrow> False)"

lemma keeps_execute_dl: "keeps (disk_is d) (execute_dl n k rb)"
proof -
  have "keeps (disk_is d) (\<lambda>s. case lock_objects (w_heap (ex_world s)) token of
         Some (Download_lock t) \<Rightarrow>
           (case download_set_file_offset k t of
              Inl x \<Rightarrow> raise x (on_heap (free_lock (Some token)) s)
            | Inr t' \<Rightarrow>
                andthen (modify (on_heap (set_lock token (Download_lock t'))))
                (andthen (set_download_token (Some token))
                  (ret (add_line (nat_to_string (unat (dt_size t' - dt_offset t'))) rb))) s)
       | _ \<Rightarrow> raise (NullDereference ''token'') s)" for token
    by (auto simp: keeps_def the_disk_def andthen_def bind_def set_download_token_def world_simps
        split: option.splits lock_object.splits sum.splits)
  then show ?thesis
    unfolding execute_dl_def
    by (intro keeps_bind keeps_world_disk server_keeps_disk) (auto intro: reader_keeps keeps_state)
qed

lemma keeps_execute_disk:
  assumes "\<not> changes_disk c"
  shows "keeps (disk_is d) (execute e c rb)"
proof (cases c)
  case (Auth u p)
  have "keeps (disk_is d) (case x of
          ProtocolError code msg \<Rightarrow>
            andthen
              (if code = invalid_credentials then
                 andthen (set_auth_token None)
                 (bind (gets (\<lambda>s. get_auth_try_count (ex_client s))) (\<lambda>n.
                   if n = max_try_count then kill else ret ()))
               else ret ())
              (raise x)
        | _ \<Rightarrow> raise x)" for x
    by (cases x) (auto intro!: keeps_intros keeps_disk_ops)
  then show ?thesis
    unfolding Auth execute.simps execute_auth_def
    by (intro keeps_intros keeps_world_disk server_keeps_disk keeps_disk_ops reader_keeps [OF keeps_readers(4)])
next
  case (Cd p)
  show ?thesis unfolding Cd execute.simps execute_cd_def set_path_of_client_def
    by (intro keeps_intros keeps_disk_ops) (auto intro: reader_keeps keeps_state)
next
  case (Ls p b1 b2)
  show ?thesis unfolding Ls execute.simps execute_ls_def path_or_current_def
    by (intro keeps_intros keeps_cases reader_keeps [OF keeps_readers(1)])
next
  case (Tree p)
  show ?thesis unfolding Tree execute.simps execute_tree_def path_or_current_def
    by (intro keeps_intros keeps_cases reader_keeps [OF keeps_readers(1)])
qed (use assms in \<open>auto simp: changes_disk_def execute_dls_def execute_name_def execute_perms_def execute_pwd_def
   keeps_execute_dl intro!: keeps_intros keeps_disk_ops intro: reader_keeps keeps_state\<close>)

lemma run_command_cases:
  assumes "run_command e name flds s = (r, t)"
  obtains (refused) x where "set_command name s = (Inl x, s)" "r = Inl x" "t = s"
  | (badfields) c rb x where "set_command name s = (Inr (c, rb), s)" "parse_fields c flds s = (Inl x, s)" "r = Inl x" "t = s"
  | (executed) c rb c' q where "set_command name s = (Inr (c, rb), s)" "parse_fields c flds s = (Inr c', s)"
      "execute e c' rb s = (q, t)" "r = map_sum id get_response q"
proof -
  obtain p s1 where sc: "set_command name s = (p, s1)" by (cases "set_command name s")
  then have [simp]: "s1 = s" by (rule set_command_pure)
  show thesis
  proof (cases p)
    case (Inl x)
    with sc have "run_command e name flds s = (Inl x, s)" by (simp add: run_command_def bind_def)
    with refused sc Inl assms show thesis by simp
  next
    case (Inr crb)
    obtain c rb where [simp]: "crb = (c, rb)" by (cases crb)
    obtain q s2 where pf: "parse_fields c flds s = (q, s2)" by (cases "parse_fields c flds s")
    then have [simp]: "s2 = s" by (rule parse_fields_pure)
    show thesis
    proof (cases q)
      case (Inl x)
      with sc Inr pf have "run_command e name flds s = (Inl x, s)" by (simp add: run_command_def bind_def)
      with badfields [of c rb x] sc Inr pf Inl assms show thesis by simp
    next
      case c': (Inr c')
      obtain q s3 where ex: "execute e c' rb s = (q, s3)" by (cases "execute e c' rb s")
      with sc Inr pf c' have "run_command e name flds s = (map_sum id get_response q, s3)"
        by (cases q) (simp_all add: run_command_def bind_def)
      with executed [of c rb c' q] sc Inr pf c' ex assms show thesis by simp
    qed
  qed
qed

lemma set_command_allowed:
  assumes "set_command name s = (Inr (c, rb), t)"
  shows "construct_command name = Some c" and "requires_authorization c \<Longrightarrow> is_authorized (ex_client s)"
    and "is_authorized (ex_client s) \<Longrightarrow>
      \<exists>a. auth_token_of s = Some a \<and> perms_and (required_perms c) (at_perms a) = required_perms c"
  using assms
  by (auto simp: set_command_def check_authorization_def check_permissions_def get_auth_token_def andthen_def bind_def
      split: option.splits if_splits)

lemma parse_fields_same_kind:
  "parse_fields c flds s = (Inr c', t) \<Longrightarrow> changes_disk c' = changes_disk c"
  by (cases c)
    (auto simp: changes_disk_def parse_auth_def parse_cd_def parse_dl_def parse_ls_def parse_mkdir_def parse_rm_def
      parse_rename_def parse_ul_def elim!: bind_InrE split: if_splits prod.splits)

definition sample_env :: env where
  "sample_env = \<lparr>e_crypt = sample_crypt, e_toml_parse = (\<lambda>_. None), e_toml_print = (\<lambda>_. []), e_mtime = (\<lambda>_. None)\<rparr>"

lemma sample_client_ok:
  "exec_ok \<lparr>ex_world = sample_world, ex_client = new_client_context\<rparr>"
  using sample_world_ok
  by (simp add: exec_ok_def base_ok_def client_ok_def located_def is_authorized_def new_client_context_def)

text \<open>The user \<open>ann\<close>, logged in, in the directory \<open>docs\<close>.\<close>

definition sample_session :: exec where
  "sample_session = \<lparr>ex_world = sample_world
     \<lparr>w_server := (w_server sample_world)\<lparr>m_auth_tokens := [0], m_path_locks := [1]\<rparr>,
      w_heap := \<lparr>auth_objects = [0 \<mapsto> \<lparr>at_username = ''ann'', at_perms = perm_all\<rparr>],
        lock_objects = [1 \<mapsto> PathLock ''/srv/docs''], next_oid = 2\<rparr>\<rparr>,
     ex_client = new_client_context\<lparr>m_auth_token := Some 0, m_current_path_lock := Some 1\<rparr>\<rparr>"

lemma sample_session_ok: "authed sample_session"
  by (simp add: authed_def exec_ok_def base_ok_def world_ok_def sessions_ok_def locks_ok_def client_ok_def located_def
      is_authorized_def points_to_def heap_fresh_def sample_session_def sample_world_def sample_disk_def
      new_client_context_def plain_name_def)

definition string_field :: "string \<Rightarrow> string \<Rightarrow> Field" where
  "string_field name text = \<lparr>f_name = name, f_value = string_value text\<rparr>"

lemmas session_eval = sample_session_def sample_world_def sample_disk_def new_client_context_def string_field_def
  the_disk_def the_server_def get_current_path_def path_lock_of_def get_auth_token_def auth_token_of_def is_authorized_def
  set_command_def construct_command_def command_table_def check_authorization_def check_permissions_def
  andthen_def bind_def get_string_def name_value_def plain_name_field_def path_eq_def path_elems_def names_of_def filename_def
  fs_exists_def node_at_def resolve_def start_dir_def obs_def path_append_def has_filename_def need_def on_disk_def
  plain_name_def world_simps set_disk_def on_world_def set_command_name_def set_code_def new_builder_def
  perms_and_def perm_none_def perm_all_def perm_write_def perm_copy_def perm_move_def perm_download_def perm_upload_def

section \<open>Properties\<close>



text \<open>
  C17: access control. An unknown command is refused with \<open>bad_command\<close>; a command that
  requires authorisation is refused with \<open>not_logged_in\<close> to a client that is not logged in;
  a command whose permissions the user lacks is refused with \<open>not_enough_perms\<close>. In each case
  nothing changes: neither the world, the disk included, nor the client.
\<close>

theorem access_control:
  "(construct_command name = None \<longrightarrow>
      (\<exists>msg. run_command e name flds s = (Inl (ProtocolError bad_command msg), s))) \<and>
   (\<forall>c. construct_command name = Some c \<and> requires_authorization c \<and> \<not> is_authorized (ex_client s) \<longrightarrow>
      run_command e name flds s = (Inl (protocol_error not_logged_in), s)) \<and>
   (\<forall>c a. construct_command name = Some c \<and> auth_token_of s = Some a \<and>
      perms_and (required_perms c) (at_perms a) \<noteq> required_perms c \<longrightarrow>
      run_command e name flds s = (Inl (protocol_error not_enough_perms), s))"
proof -
  have "is_authorized (ex_client s)" if "auth_token_of s = Some a" for a
    using that by (cases "m_auth_token (ex_client s)") (auto simp: auth_token_of_def is_authorized_def)
  then show ?thesis
    by (auto simp: run_command_def set_command_def check_authorization_def check_permissions_def get_auth_token_def
        andthen_def bind_def)
qed

theorem access_control_witness:
  "run_command sample_env ''rm'' [] \<lparr>ex_world = sample_world, ex_client = new_client_context\<rparr> =
     (Inl (protocol_error not_logged_in), \<lparr>ex_world = sample_world, ex_client = new_client_context\<rparr>)"
  using access_control [of "''rm''" sample_env "[]" "\<lparr>ex_world = sample_world, ex_client = new_client_context\<rparr>"]
  by (simp add: construct_command_def command_table_def is_authorized_def new_client_context_def)

text \<open>
  C16: the disk changes only under the permission for it. If a request changes the disk, the
  client is logged in and the request is \<open>mkdir\<close>, \<open>rename\<close> or \<open>rm\<close> of a user with the write
  permission, \<open>cp\<close> with the copy permission, \<open>mv\<close> with the move permission, or \<open>ul\<close> with the
  upload permission.
\<close>

theorem disk_change_needs_permission:
  assumes "run_command e name flds s = (r, t)" and "the_disk t \<noteq> the_disk s"
  shows "\<exists>a p. auth_token_of s = Some a \<and> perms_and p (at_perms a) = p \<and>
    (name, p) \<in> {(''mkdir'', perm_write), (''rename'', perm_write), (''rm'', perm_write), (''cp'', perm_copy),
      (''mv'', perm_move), (''ul'', perm_upload)}"
  using assms(1)
proof (cases rule: run_command_cases)
  case (executed c rb c' q)
  have "changes_disk c'"
    using keepsD [OF keeps_execute_disk [of c' "the_disk s" e rb], of s] executed(3) assms(2) by auto
  then have "changes_disk c" using parse_fields_same_kind [OF executed(2)] by simp
  moreover note c = set_command_allowed [OF executed(1)]
  ultimately show ?thesis
    by (auto simp: construct_command_def command_table_def changes_disk_def split: if_splits)
qed (use assms(2) in simp_all)


theorem disk_change_needs_permission_witness:
  "\<exists>r t. run_command sample_env ''mkdir'' [string_field ''name'' ''new''] sample_session = (r, t) \<and>
     the_disk t \<noteq> the_disk sample_session \<and>
     (\<exists>a. auth_token_of sample_session = Some a \<and> perms_and perm_write (at_perms a) = perm_write)"
proof -
  obtain r t where run: "run_command sample_env ''mkdir'' [string_field ''name'' ''new''] sample_session = (r, t)"
    by (cases "run_command sample_env ''mkdir'' [string_field ''name'' ''new''] sample_session")
  have changed: "the_disk t \<noteq> the_disk sample_session"
    using run
    by (simp add: run_command_def parse_mkdir_def only_name_field_def execute_mkdir_def fs_create_directory_def
        resolve_parent_def last_component_def strip_trailing_def put_entry_def session_eval)
      (auto simp: session_eval)
  from disk_change_needs_permission [OF run changed] run changed show ?thesis by auto
qed

end
