(* ===== verification/Byte_Stream.thy ===== *)
theory Byte_Stream
  imports Errors
begin

text \<open>
  The contract of the two consumers of a client's input, the protocol interpreter and the
  upload manager: each takes a block of bytes, stops when it is done with its unit of work
  (a request, a file) and hands back the bytes it did not use. What it makes of the input
  does not depend on how the network cut the input into blocks; that is proved here once
  from the contract.
\<close>

type_synonym 'st consumer = "'st \<Rightarrow> bytes \<Rightarrow> (exn + unit) \<times> 'st \<times> bytes"

primrec feed :: "'st consumer \<Rightarrow> ('st \<Rightarrow> bool) \<Rightarrow> 'st \<Rightarrow> bytes list \<Rightarrow> (exn + unit) \<times> 'st \<times> bytes" where
  "feed consume finished st [] = (Inr (), st, [])"
| "feed consume finished st (block # blocks) =
     (case consume st block of
        (Inl e, st', rest) \<Rightarrow> (Inl e, st', rest @ concat blocks)
      | (Inr _, st', rest) \<Rightarrow>
          if finished st' then (Inr (), st', rest @ concat blocks)
          else feed consume finished st' blocks)"

locale byte_consumer =
  fixes consume :: "'st consumer"
    and finished :: "'st \<Rightarrow> bool"
    and ready :: "'st \<Rightarrow> bool"
  assumes consume_ready: "ready st \<Longrightarrow> consume st xs = (r, st', zs) \<Longrightarrow> \<not> finished st' \<Longrightarrow> ready st'"
    and consume_unfinished: "ready st \<Longrightarrow> consume st xs = (Inr (), st', zs) \<Longrightarrow> \<not> finished st' \<Longrightarrow> zs = []"
    and consume_more: "ready st \<Longrightarrow> consume st xs = (Inr (), st', zs) \<Longrightarrow> \<not> finished st' \<Longrightarrow>
          ys \<noteq> [] \<Longrightarrow> consume st (xs @ ys) = consume st' ys"
    and consume_finished: "ready st \<Longrightarrow> consume st xs = (Inr (), st', zs) \<Longrightarrow> finished st' \<Longrightarrow>
          consume st (xs @ ys) = (Inr (), st', zs @ ys)"
    and consume_error: "ready st \<Longrightarrow> consume st xs = (Inl e, st', zs) \<Longrightarrow>
          \<exists>e' st'' zs'. consume st (xs @ ys) = (Inl e', st'', zs')"
    and consume_suffix: "ready st \<Longrightarrow> consume st xs = (r, st', zs) \<Longrightarrow> \<exists>us. xs = us @ zs"
begin

lemma feed_as_one_block:
  assumes "ready st" and "concat blocks \<noteq> []" and "list_all (\<lambda>b. b \<noteq> []) blocks"
    and "feed consume finished st blocks = (Inr (), st', zs)"
  shows "consume st (concat blocks) = (Inr (), st', zs)"
  using assms
proof (induction blocks arbitrary: st)
  case Nil
  then show ?case by simp
next
  case (Cons b bs)
  obtain r st1 rest where c: "consume st b = (r, st1, rest)" by (cases "consume st b")
  with Cons.prems(4) have r: "r = Inr ()" by (cases r) auto
  show ?case
  proof (cases "finished st1")
    case True
    with Cons.prems(4) c r have res: "st' = st1" "zs = rest @ concat bs" by auto
    from consume_finished [OF Cons.prems(1) c [unfolded r] True]
    show ?thesis by (simp add: res)
  next
    case False
    with c r Cons.prems(4) have rest_feed: "feed consume finished st1 bs = (Inr (), st', zs)" by simp
    show ?thesis
    proof (cases "bs = []")
      case True
      with rest_feed have "st' = st1" "zs = []" by simp_all
      with True c r consume_unfinished [OF Cons.prems(1) c [unfolded r] False] show ?thesis by simp
    next
      case ne: False
      with Cons.prems(3) have more: "concat bs \<noteq> []" by (cases bs) auto
      have "consume st1 (concat bs) = (Inr (), st', zs)"
        using Cons.IH [of st1] consume_ready [OF Cons.prems(1) c False] more Cons.prems(3) rest_feed
        by simp
      with consume_more [OF Cons.prems(1) c [unfolded r] False more] show ?thesis by simp
    qed
  qed
qed

lemma one_block_as_feed:
  assumes "ready st" and "list_all (\<lambda>b. b \<noteq> []) blocks"
    and "consume st (concat blocks) = (Inr (), st', zs)" and "finished st'" and "blocks \<noteq> []"
  shows "feed consume finished st blocks = (Inr (), st', zs)"
  using assms
proof (induction blocks arbitrary: st)
  case Nil
  then show ?case by simp
next
  case (Cons b bs)
  obtain r st1 rest where c: "consume st b = (r, st1, rest)" by (cases "consume st b")
  have r: "r = Inr ()"
  proof (cases r)
    case (Inl e)
    from consume_error [OF Cons.prems(1) c [unfolded Inl], of "concat bs"] Cons.prems(3) show ?thesis by auto
  qed simp
  show ?case
  proof (cases "finished st1")
    case True
    with consume_finished [OF Cons.prems(1) c [unfolded r] True, of "concat bs"] Cons.prems(3) c r
    show ?thesis by simp
  next
    case False
    show ?thesis
    proof (cases "bs = []")
      case True
      with c r Cons.prems(3,4) False show ?thesis by simp
    next
      case ne: False
      with Cons.prems(2) have more: "concat bs \<noteq> []" by (cases bs) auto
      have "consume st1 (concat bs) = (Inr (), st', zs)"
        using consume_more [OF Cons.prems(1) c [unfolded r] False more] Cons.prems(3) by simp
      with Cons.IH [of st1] consume_ready [OF Cons.prems(1) c False] Cons.prems(2,4) ne c r False
      show ?thesis by simp
    qed
  qed
qed

end

end
