(* ===== verification/Transfers.thy ===== *)
theory Transfers
  imports Command_Safety Byte_Stream
begin

text \<open>
  The transfer managers of a client: \<open>DownloadManager\<close> (\<open>download_manager.cpp\<close>, with
  \<open>transfer_bytes.cpp\<close>) and \<open>UploadManager\<close> (\<open>upload_manager.cpp\<close>). A manager owns the token
  of the running transfer. The kernel's side is an input again: the answer of \<open>sendfile\<close>. A
  file that is open for reading is represented by its content: the server never changes a
  file that a client can download in place. Writes to a partial file succeed; running out of
  space during a write is not modelled.
\<close>

section \<open>Downloads\<close>

record DownloadManager =
  dm_token :: "oid option"
  dm_file :: bytes
  dm_offset :: u64
  dm_file_size :: u64

definition new_download_manager :: DownloadManager where
  "new_download_manager = \<lparr>dm_token = None, dm_file = [], dm_offset = 0, dm_file_size = 0\<rparr>"

definition download_has_finished :: "DownloadManager \<Rightarrow> bool" where
  "download_has_finished m \<longleftrightarrow> dm_token m = None"

text \<open>A token for an empty file is dropped at once.\<close>

definition start_download :: "oid \<Rightarrow> world \<Rightarrow> DownloadManager \<Rightarrow> (exn + unit) \<times> world \<times> DownloadManager" where
  "start_download i w m =
     (case lock_objects (w_heap w) i of
        Some (Download_lock t) \<Rightarrow>
          if dt_size t > 0 then
            let w' = set_heap (free_lock (dm_token m) (w_heap w)) w;
                m' = m\<lparr>dm_token := Some i\<rparr>
            in (case node_at (w_disk w) (dt_path t) of
                  Some (File b) \<Rightarrow>
                    (Inr (), w', m'\<lparr>dm_file := b, dm_offset := dt_offset t, dm_file_size := dt_size t\<rparr>)
                | _ \<Rightarrow> (Inl (SystemError (errno_value ENOENT) ''open(2)''), w', m'))
          else (Inr (), set_heap (free_lock (Some i) (w_heap w)) w, m)
      | _ \<Rightarrow> (Inl (NullDereference ''token''), w, m))"

text \<open>
  \<open>transfer_bytes\<close> returns the requested count whatever \<open>sendfile\<close> did, and looks for the
  error in that count; only the offset tells what was transferred.
\<close>

definition sendfile :: "io_answer \<Rightarrow> bytes \<Rightarrow> u64 \<Rightarrow> u64 \<Rightarrow> nat" where
  "sendfile a file offset count =
     (case a of
        Io_error e \<Rightarrow> 0
      | Transferred n \<Rightarrow> min n (min (unat count) (length file - unat offset)))"

definition transfer_bytes :: "io_answer \<Rightarrow> bytes \<Rightarrow> u64 \<Rightarrow> u64 \<Rightarrow> nat \<Rightarrow> u64 \<times> u64 \<times> nat \<times> bytes" where
  "transfer_bytes a file offset count code =
     (let n = sendfile a file offset count
      in (count, offset + of_nat n,
          if count = - 1 then (case a of Io_error e \<Rightarrow> e | Transferred _ \<Rightarrow> code) else code,
          take n (drop (unat offset) file)))"

definition int_of_count :: "u64 \<Rightarrow> int" where
  "int_of_count count = sint (ucast count :: 32 word)"

definition download_send :: "io_answer \<Rightarrow> world \<Rightarrow> DownloadManager \<Rightarrow> (exn + int) \<times> world \<times> DownloadManager \<times> bytes" where
  "download_send a w m =
     (if download_has_finished m then (Inr 0, w, m, [])
      else
        case transfer_bytes a (dm_file m) (dm_offset m) (dm_file_size m - dm_offset m) 0 of
          (result, new_offset, code, out) \<Rightarrow>
            let count = int_of_count result; m' = m\<lparr>dm_offset := new_offset\<rparr>
            in if count = - 1 \<and> code \<noteq> EAGAIN then (Inl (SystemError code ''DownloadManager::send(2)''), w, m', out)
               else if new_offset = dm_offset m then (Inl (SystemError ENOTCONN ''DownloadManager::send(2)''), w, m', out)
               else if dm_file_size m - new_offset = 0 then
                 (Inr count, set_heap (free_lock (dm_token m) (w_heap w)) w, m'\<lparr>dm_token := None, dm_file := []\<rparr>, out)
               else (Inr count, w, m', out))"

section \<open>Uploads\<close>

record UploadManager =
  um_token :: "oid option"
  um_partial_file_name :: path
  um_backup_file_name :: path

definition new_upload_manager :: UploadManager where
  "new_upload_manager = \<lparr>um_token = None, um_partial_file_name = [], um_backup_file_name = []\<rparr>"

definition upload_has_finished :: "UploadManager \<Rightarrow> bool" where
  "upload_has_finished m \<longleftrightarrow> um_token m = None"

definition upload_token_of :: "world \<Rightarrow> UploadManager \<Rightarrow> UploadToken option" where
  "upload_token_of w m =
     (case Option.bind (um_token m) (lock_objects (w_heap w)) of Some (Upload_lock t) \<Rightarrow> Some t | _ \<Rightarrow> None)"

definition open_partial :: "UploadToken \<Rightarrow> path \<Rightarrow> disk \<Rightarrow> (errno + unit) \<times> disk" where
  "open_partial t p d = (if ut_offset t \<noteq> 0 then file_open_append d p else file_open_trunc d p)"

definition ios_failure :: exn where
  "ios_failure = SystemError 1 ''basic_ios::clear''"

definition start_upload :: "oid \<Rightarrow> world \<Rightarrow> UploadManager \<Rightarrow> (exn + unit) \<times> world \<times> UploadManager" where
  "start_upload i w m =
     (case lock_objects (w_heap w) i of
        Some (Upload_lock t) \<Rightarrow>
          let w1 = set_heap (free_lock (um_token m) (w_heap w)) w;
              partial = get_partial_file_path (w_server w) (ut_temporary_filename_stem t);
              m1 = m\<lparr>um_token := Some i, um_partial_file_name := partial\<rparr>
          in (case open_partial t partial (w_disk w) of
                (Inl e, d) \<Rightarrow> (Inl ios_failure, set_disk d w1, m1)
              | (Inr _, d) \<Rightarrow>
                  let backup = get_backup_file_path (w_server w) (ut_temporary_filename_stem t);
                      m2 = m1\<lparr>um_backup_file_name := backup\<rparr>
                  in if fs_exists d backup then
                       (case fs_remove d backup of
                          (Inl e, d') \<Rightarrow> (Inl (system_error e ''remove''), set_disk d' w1, m2)
                        | (Inr _, d') \<Rightarrow> (Inr (), set_disk d' w1, m2))
                     else (Inr (), set_disk d w1, m2))
      | _ \<Rightarrow> (Inl (NullDereference ''token''), w, m))"

definition get_remaining_bytes :: "UploadToken \<Rightarrow> u64" where
  "get_remaining_bytes t = ut_size t - ut_offset t"

definition upload_finish :: "UploadToken \<Rightarrow> world \<Rightarrow> UploadManager \<Rightarrow> (exn + unit) \<times> world \<times> UploadManager" where
  "upload_finish t w m =
     (case fs_rename (w_disk w) (um_partial_file_name m) (ut_path t) of
        (Some e, d) \<Rightarrow> (Inl (system_error e ''rename''), set_disk d w, m)
      | (None, d) \<Rightarrow> (Inr (), set_heap (free_lock (um_token m) (w_heap w)) (set_disk d w), m\<lparr>um_token := None\<rparr>))"

text \<open>An exception returns no remaining input.\<close>

definition upload_commit_bytes :: "(world \<times> UploadManager) consumer" where
  "upload_commit_bytes wm bs =
     (case wm of (w, m) \<Rightarrow>
        (case (um_token m, upload_token_of w m) of
           (Some i, Some t) \<Rightarrow>
             let byte_count = min (length bs) (unat (get_remaining_bytes t));
                 t' = add_file_offset (of_nat byte_count) t;
                 w1 = set_heap (set_lock i (Upload_lock t') (w_heap w))
                        (set_disk (file_append (w_disk w) (um_partial_file_name m) (take byte_count bs)) w)
             in if ut_offset t' = ut_size t' then
                  (case upload_finish t' w1 m of
                     (Inl e, w2, m2) \<Rightarrow> (Inl e, (w2, m2), [])
                   | (Inr _, w2, m2) \<Rightarrow> (Inr (), (w2, m2), drop byte_count bs))
                else (Inr (), (w1, m), drop byte_count bs)
         | _ \<Rightarrow> (Inl (NullDereference ''m_token''), (w, m), [])))"

definition backup_text :: "UploadToken \<Rightarrow> bytes" where
  "backup_text t =
     ''path = '' @ quoted (ut_path t) @ [newline] @ ''size = '' @ nat_to_string (unat (ut_size t)) @ [newline] @
     ''offset = '' @ nat_to_string (unat (ut_offset t)) @ [newline]"

text \<open>The destructor writes a backup of an unfinished upload; a file it cannot open is ignored.\<close>

definition create_backup :: "world \<Rightarrow> UploadManager \<Rightarrow> world" where
  "create_backup w m =
     (case upload_token_of w m of
        None \<Rightarrow> w
      | Some t \<Rightarrow>
          (case file_open_trunc (w_disk w) (um_backup_file_name m) of
             (Inl e, d) \<Rightarrow> set_disk d w
           | (Inr _, d) \<Rightarrow> set_disk (file_append d (um_backup_file_name m) (backup_text t)) w))"

definition destroy_upload_manager :: "world \<Rightarrow> UploadManager \<Rightarrow> world" where
  "destroy_upload_manager w m =
     (if \<not> upload_has_finished m then
        (let w' = create_backup w m in set_heap (free_lock (um_token m) (w_heap w')) w')
      else w)"

section \<open>Uploads as a consumer of the input\<close>

definition upload_ready :: "world \<times> UploadManager \<Rightarrow> bool" where
  "upload_ready wm \<longleftrightarrow> (\<exists>i t l c. um_token (snd wm) = Some i \<and> lock_objects (w_heap (fst wm)) i = Some (Upload_lock t) \<and>
     opened (w_disk (fst wm)) (um_partial_file_name (snd wm)) l c)"

abbreviation upload_done :: "world \<times> UploadManager \<Rightarrow> bool" where
  "upload_done wm \<equiv> upload_has_finished (snd wm)"

definition upload_step :: "nat \<Rightarrow> oid \<Rightarrow> UploadToken \<Rightarrow> bytes \<Rightarrow> world \<Rightarrow> UploadManager \<Rightarrow> world" where
  "upload_step n i t bs w m =
     set_heap (set_lock i (Upload_lock (add_file_offset (of_nat n) t)) (w_heap w))
       (set_disk (file_append (w_disk w) (um_partial_file_name m) (take n bs)) w)"

lemma upload_commit_cases:
  assumes "um_token m = Some i" and "lock_objects (w_heap w) i = Some (Upload_lock t)"
    and "n = min (length bs) (unat (get_remaining_bytes t))"
  shows "upload_commit_bytes (w, m) bs =
     (if unat (get_remaining_bytes t) \<le> length bs
      then (case upload_finish (add_file_offset (of_nat n) t) (upload_step n i t bs w m) m of
              (Inl e, w2, m2) \<Rightarrow> (Inl e, (w2, m2), []) | (Inr _, w2, m2) \<Rightarrow> (Inr (), (w2, m2), drop n bs))
      else (Inr (), (upload_step n i t bs w m, m), []))"
proof -
  have tok: "upload_token_of w m = Some t" using assms(1,2) by (simp add: upload_token_of_def)
  let ?R = "get_remaining_bytes t"
  have "ut_offset (add_file_offset (of_nat n) t) = ut_size (add_file_offset (of_nat n) t) \<longleftrightarrow> of_nat n = ?R"
    by (auto simp: add_file_offset_def get_remaining_bytes_def algebra_simps)
  also have "\<dots> \<longleftrightarrow> n = unat ?R"
  proof
    assume eq: "of_nat n = ?R"
    have "n \<le> unat ?R" using assms(3) by simp
    then have "n < 2 ^ LENGTH(64)" using unsigned_less [of ?R] by (metis le_less_trans)
    then have "unat (of_nat n :: u64) = n" by (simp add: unat_of_nat)
    then show "n = unat ?R" by (simp add: eq)
  qed simp
  also have "\<dots> \<longleftrightarrow> unat ?R \<le> length bs" using assms(3) by auto
  finally have cond: "ut_offset (add_file_offset (of_nat n) t) = ut_size (add_file_offset (of_nat n) t) \<longleftrightarrow>
    unat ?R \<le> length bs" .
  have "length bs - n = 0" if "\<not> unat ?R \<le> length bs" using that assms(3) by simp
  then show ?thesis
    unfolding upload_commit_bytes_def prod.case assms(1) tok option.case Let_def assms(3) [symmetric] upload_step_def
    by (simp only: cond) (auto split: prod.splits sum.splits)
qed


lemma upload_finish_manager:
  "upload_finish t w m = (Inr (), w', m') \<Longrightarrow> upload_has_finished m'"
  "upload_finish t w m = (Inl e, w', m') \<Longrightarrow> m' = m \<and> w_heap w' = w_heap w \<and> w_disk w' = w_disk w \<and> \<not> is_null e"
proof -
  have same: "fs_rename d p q = (Some e, d') \<Longrightarrow> d' = d" for d p q e d'
    by (auto simp: fs_rename_def Let_def split: sum.splits option.splits prod.splits if_splits)
  show "upload_finish t w m = (Inr (), w', m') \<Longrightarrow> upload_has_finished m'"
    by (auto simp: upload_finish_def upload_has_finished_def split: prod.splits option.splits)
  show "upload_finish t w m = (Inl e, w', m') \<Longrightarrow> m' = m \<and> w_heap w' = w_heap w \<and> w_disk w' = w_disk w \<and> \<not> is_null e"
    by (auto simp: upload_finish_def world_simps system_error_def split: prod.splits option.splits dest: same)
qed

lemma upload_step_ready:
  assumes "um_token m = Some i" and "opened (w_disk w) (um_partial_file_name m) l c"
  shows "upload_ready (upload_step n i t bs w m, m)"
  using assms opened_append [OF assms(2), of "take n bs"]
  by (auto simp: upload_ready_def upload_step_def world_simps)

lemma upload_step_compose:
  assumes "opened (w_disk w) (um_partial_file_name m) l c"
  shows "upload_step k i (add_file_offset (of_nat (length xs)) t) ys (upload_step (length xs) i t xs w m) m =
    upload_step (length xs + k) i t (xs @ ys) w m"
proof -
  have "set_lock i x (set_lock i y h) = set_lock i x h" for x y h by (simp add: set_lock_def)
  then show ?thesis
    by (simp add: upload_step_def set_heap_def set_disk_def file_append_pieces [OF assms] add_file_offset_def ac_simps)
qed

text \<open>A block that does not complete the upload, and one that does, with what follows it.\<close>

lemma upload_short:
  assumes i: "um_token m = Some i" "lock_objects (w_heap w) i = Some (Upload_lock t)"
    and op: "opened (w_disk w) (um_partial_file_name m) l c" and short: "length xs < unat (get_remaining_bytes t)"
  shows "\<exists>st'. upload_commit_bytes (w, m) xs = (Inr (), st', []) \<and> \<not> upload_done st' \<and> upload_ready st' \<and>
    (\<forall>ys. upload_commit_bytes (w, m) (xs @ ys) = upload_commit_bytes st' ys)"
proof -
  define R where "R = unat (get_remaining_bytes t)"
  define t1 where "t1 = add_file_offset (of_nat (length xs)) t"
  let ?w = "upload_step (length xs) i t xs w m"
  note run = upload_commit_cases [OF i refl, folded R_def]
  have short: "length xs < R" using short by (simp add: R_def)
  have "length xs < 2 ^ LENGTH(64)"
    using short unsigned_less [of "get_remaining_bytes t"] unfolding R_def by (rule less_trans)
  then have lt: "length xs mod 18446744073709551616 = length xs" by simp
  have "of_nat (length xs) \<le> get_remaining_bytes t"
    using short unat_of_nat [of "length xs", where ?'a = 64] by (simp add: R_def word_le_nat_alt)
  then have R1: "unat (get_remaining_bytes t1) = R - length xs"
    using short by (simp add: R_def t1_def get_remaining_bytes_def add_file_offset_def diff_diff_eq2 unat_sub
        unat_of_nat lt flip: diff_diff_eq)
  have i1: "lock_objects (w_heap ?w) i = Some (Upload_lock t1)" by (simp add: upload_step_def world_simps t1_def)
  have more: "upload_commit_bytes (w, m) (xs @ ys) = upload_commit_bytes (?w, m) ys" for ys
  proof -
    have mineq: "min (length (xs @ ys)) R = length xs + min (length ys) (R - length xs)" using short by auto
    have cond: "R \<le> length (xs @ ys) \<longleftrightarrow> R - length xs \<le> length ys" using short by auto
    have off: "add_file_offset (of_nat (length xs + k)) t = add_file_offset (of_nat k) t1" for k
      by (simp add: t1_def add_file_offset_def ac_simps)
    show ?thesis
      unfolding run [of "xs @ ys"] upload_commit_cases [OF i(1) i1 refl] R1 mineq cond off
        upload_step_compose [OF op, of _ i xs t ys, folded t1_def]
      by (auto split: prod.splits sum.splits)
  qed
  have "upload_commit_bytes (w, m) xs = (Inr (), (?w, m), [])" using short run [of xs] by auto
  moreover have "\<not> upload_done (?w, m)" using i(1) by (simp add: upload_has_finished_def)
  ultimately show ?thesis using more upload_step_ready [OF i(1) op] by blast
qed

lemma upload_long:
  assumes i: "um_token m = Some i" "lock_objects (w_heap w) i = Some (Upload_lock t)"
    and op: "opened (w_disk w) (um_partial_file_name m) l c" and long: "unat (get_remaining_bytes t) \<le> length xs"
    and run: "upload_commit_bytes (w, m) xs = (r, st', zs)"
  shows "upload_commit_bytes (w, m) (xs @ ys) = (r, st', case r of Inl e \<Rightarrow> zs | Inr u \<Rightarrow> zs @ ys)"
    and "case r of Inl e \<Rightarrow> upload_ready st' | Inr u \<Rightarrow> upload_done st'"
proof -
  define n where "n = unat (get_remaining_bytes t)"
  let ?fin = "upload_finish (add_file_offset (of_nat n) t) (upload_step n i t xs w m) m"
  note cases = upload_commit_cases [OF i refl, folded n_def]
  have min: "min (length xs) n = n" "min (length (xs @ ys)) n = n" "n \<le> length xs" using long by (auto simp: n_def)
  show "upload_commit_bytes (w, m) (xs @ ys) = (r, st', case r of Inl e \<Rightarrow> zs | Inr u \<Rightarrow> zs @ ys)"
    using run unfolding cases [of xs] cases [of "xs @ ys"] upload_step_def using min by (auto split: prod.splits sum.splits)
  obtain q w2 m2 where fin: "?fin = (q, w2, m2)" by (metis prod_cases3)
  with run cases [of xs] min have res: "r = q" "st' = (w2, m2)" by (auto split: sum.splits)
  show "case r of Inl e \<Rightarrow> upload_ready st' | Inr u \<Rightarrow> upload_done st'"
  proof (cases q)
    case (Inl e)
    with upload_finish_manager(2) [OF fin [unfolded Inl]] upload_step_ready [OF i(1) op, of n t xs] show ?thesis
      by (simp add: res upload_ready_def)
  next
    case (Inr u)
    with upload_finish_manager(1) fin show ?thesis by (auto simp: res)
  qed
qed

lemma upload_laws:
  assumes "upload_ready (w, m)" and "upload_commit_bytes (w, m) xs = (r, st', zs)"
  shows "\<not> upload_done st' \<Longrightarrow> r = Inr () \<Longrightarrow> upload_ready st' \<and> zs = [] \<and>
      (ys \<noteq> [] \<longrightarrow> upload_commit_bytes (w, m) (xs @ ys) = upload_commit_bytes st' ys)"
    and "upload_done st' \<Longrightarrow> r = Inr () \<Longrightarrow> upload_commit_bytes (w, m) (xs @ ys) = (Inr (), st', zs @ ys)"
    and "r = Inl e \<Longrightarrow> \<exists>e' st'' zs'. upload_commit_bytes (w, m) (xs @ ys) = (Inl e', st'', zs')"
    and "\<exists>us. xs = us @ zs"
    and "r = Inl e \<Longrightarrow> upload_ready st'"
proof -
  obtain i t l c where i: "um_token m = Some i" "lock_objects (w_heap w) i = Some (Upload_lock t)"
    and op: "opened (w_disk w) (um_partial_file_name m) l c"
    using assms(1) by (auto simp: upload_ready_def)
  show "\<exists>us. xs = us @ zs"
    using assms(2) unfolding upload_commit_cases [OF i refl]
    by (auto split: if_splits prod.splits sum.splits intro: append_take_drop_id [symmetric])
  consider (short) "length xs < unat (get_remaining_bytes t)" | (long) "unat (get_remaining_bytes t) \<le> length xs" by linarith
  then have all: "(\<not> upload_done st' \<longrightarrow> r = Inr () \<longrightarrow> upload_ready st' \<and> zs = [] \<and>
        (ys \<noteq> [] \<longrightarrow> upload_commit_bytes (w, m) (xs @ ys) = upload_commit_bytes st' ys)) \<and>
      (upload_done st' \<longrightarrow> r = Inr () \<longrightarrow> upload_commit_bytes (w, m) (xs @ ys) = (Inr (), st', zs @ ys)) \<and>
      (r = Inl e \<longrightarrow> (\<exists>e' st'' zs'. upload_commit_bytes (w, m) (xs @ ys) = (Inl e', st'', zs')) \<and> upload_ready st')"
  proof cases
    case short
    from upload_short [OF i op this] assms(2) show ?thesis by auto
  next
    case long
    from upload_long(1) [OF i op this assms(2), of ys] upload_long(2) [OF i op this assms(2)] show ?thesis by (cases r) auto
  qed
  then show "\<not> upload_done st' \<Longrightarrow> r = Inr () \<Longrightarrow> upload_ready st' \<and> zs = [] \<and>
      (ys \<noteq> [] \<longrightarrow> upload_commit_bytes (w, m) (xs @ ys) = upload_commit_bytes st' ys)"
    and "upload_done st' \<Longrightarrow> r = Inr () \<Longrightarrow> upload_commit_bytes (w, m) (xs @ ys) = (Inr (), st', zs @ ys)"
    and "r = Inl e \<Longrightarrow> \<exists>e' st'' zs'. upload_commit_bytes (w, m) (xs @ ys) = (Inl e', st'', zs')"
    and "r = Inl e \<Longrightarrow> upload_ready st'" by blast+
qed

interpretation upload_stream: byte_consumer upload_commit_bytes upload_done upload_ready
proof (unfold_locales, goal_cases)
  case (1 st xs r st' zs)
  then show ?case using upload_laws(1,5) [of "fst st" "snd st" xs r st' zs] by (cases r) auto
next
  case (2 st xs st' zs)
  then show ?case using upload_laws(1) [of "fst st" "snd st" xs "Inr ()" st' zs "[]"] by auto
next
  case (3 st xs st' zs ys)
  then show ?case using upload_laws(1) [of "fst st" "snd st" xs "Inr ()" st' zs ys] by auto
next
  case (4 st xs st' zs ys)
  then show ?case using upload_laws(2) [of "fst st" "snd st" xs "Inr ()" st' zs ys] by auto
next
  case (5 st xs e st' zs ys)
  then show ?case using upload_laws(3) [of "fst st" "snd st" xs "Inl e" st' zs e ys] by auto
next
  case (6 st xs r st' zs)
  then show ?case using upload_laws(4) [of "fst st" "snd st" xs r st' zs] by auto
qed

section \<open>Downloads as a source of output\<close>

definition download_pending :: "world \<times> DownloadManager \<Rightarrow> bytes" where
  "download_pending wm =
     (case wm of (w, m) \<Rightarrow>
        if download_has_finished m then []
        else drop (unat (dm_offset m)) (take (unat (dm_file_size m)) (dm_file m)))"

definition download_valid :: "world \<times> DownloadManager \<Rightarrow> bool" where
  "download_valid wm =
     (case wm of (w, m) \<Rightarrow> download_has_finished m \<or>
        dm_offset m \<le> dm_file_size m \<and> unat (dm_file_size m) \<le> length (dm_file m))"

definition download_emit :: "io_answer \<Rightarrow> world \<times> DownloadManager \<Rightarrow> (world \<times> DownloadManager) \<times> bytes" where
  "download_emit a wm = (case wm of (w, m) \<Rightarrow> (case download_send a w m of (r, w', m', out) \<Rightarrow> ((w', m'), out)))"

lemma advance_offset:
  fixes off :: u64
  assumes "off \<le> sz" and "n \<le> unat (sz - off)"
  shows "unat (off + of_nat n) = unat off + n" and "off + of_nat n \<le> sz"
    and "sz - (off + of_nat n) = 0 \<longleftrightarrow> n = unat (sz - off)"
proof -
  have diff: "unat (sz - off) = unat sz - unat off" using assms(1) by (simp add: unat_sub)
  have le: "unat off \<le> unat sz" using assms(1) by (simp add: word_le_nat_alt)
  have bound: "unat off + n \<le> unat sz" using assms(2) diff le by linarith
  also have sz: "unat sz < 2 ^ LENGTH(64)" by (rule unsigned_less)
  finally have lt: "unat off + n < 2 ^ LENGTH(64)" .
  then have n: "unat (of_nat n :: u64) = n" by (simp add: unat_of_nat)
  show sum: "unat (off + of_nat n) = unat off + n"
    using lt n by (simp add: unat_word_ariths)
  then show "off + of_nat n \<le> sz" using bound by (simp add: word_le_nat_alt)
  have "sz - (off + of_nat n) = 0 \<longleftrightarrow> sz = off + of_nat n" by simp
  also have "\<dots> \<longleftrightarrow> unat sz = unat off + n" by (simp add: word_unat_eq_iff sum)
  also have "\<dots> \<longleftrightarrow> n = unat (sz - off)" using diff le bound by linarith
  finally show "sz - (off + of_nat n) = 0 \<longleftrightarrow> n = unat (sz - off)" .
qed

lemma sendfile_bound: "sendfile a file off count \<le> unat count"
  by (auto simp: sendfile_def split: io_answer.splits)

lemma download_send_effect:
  assumes "download_valid (w, m)" and "\<not> download_has_finished m"
    and "n = sendfile a (dm_file m) (dm_offset m) (dm_file_size m - dm_offset m)"
  shows "\<exists>r w'. download_send a w m =
    (r, w', m\<lparr>dm_offset := dm_offset m + of_nat n,
             dm_token := (if (\<exists>k. r = Inr k) \<and> n = unat (dm_file_size m - dm_offset m) then None else dm_token m),
             dm_file := (if (\<exists>k. r = Inr k) \<and> n = unat (dm_file_size m - dm_offset m) then [] else dm_file m)\<rparr>,
     take n (drop (unat (dm_offset m)) (dm_file m)))"
proof -
  have "dm_offset m \<le> dm_file_size m" using assms by (simp add: download_valid_def)
  note adv = advance_offset [OF this, of n]
  have "n \<le> unat (dm_file_size m - dm_offset m)" using sendfile_bound assms(3) by simp
  note adv = adv [OF this]
  show ?thesis
    using assms(2) adv(3)
    by (auto simp: download_send_def transfer_bytes_def Let_def assms(3) [symmetric])
qed

interpretation download_source: byte_source download_emit download_pending download_valid
proof
  fix st a st' out
  assume valid: "download_valid st" and emit: "download_emit a st = (st', out)"
  obtain w m where st: "st = (w, m)" by (cases st)
  have "download_pending st = out @ download_pending st' \<and> download_valid st'"
  proof (cases "download_has_finished m")
    case True
    with emit st show ?thesis
      by (auto simp: download_emit_def download_send_def download_pending_def download_valid_def)
  next
    case False
    define n where "n = sendfile a (dm_file m) (dm_offset m) (dm_file_size m - dm_offset m)"
    let ?off = "unat (dm_offset m)" and ?sz = "unat (dm_file_size m)"
    have ok: "dm_offset m \<le> dm_file_size m" "?sz \<le> length (dm_file m)"
      using valid st False by (simp_all add: download_valid_def)
    have n: "n \<le> unat (dm_file_size m - dm_offset m)" using sendfile_bound n_def by simp
    note adv = advance_offset [OF ok(1) n]
    have diff: "unat (dm_file_size m - dm_offset m) = ?sz - ?off" using ok(1) by (simp add: unat_sub)
    obtain r w' where run: "download_send a w m =
      (r, w', m\<lparr>dm_offset := dm_offset m + of_nat n,
             dm_token := (if (\<exists>k. r = Inr k) \<and> n = unat (dm_file_size m - dm_offset m) then None else dm_token m),
             dm_file := (if (\<exists>k. r = Inr k) \<and> n = unat (dm_file_size m - dm_offset m) then [] else dm_file m)\<rparr>,
       take n (drop ?off (dm_file m)))"
      using download_send_effect [OF valid [unfolded st] False n_def] by blast
    have split: "drop ?off (take ?sz (dm_file m)) =
        take n (drop ?off (dm_file m)) @ drop (?off + n) (take ?sz (dm_file m))"
    proof -
      have "drop ?off (take ?sz (dm_file m)) = take (?sz - ?off) (drop ?off (dm_file m))" by (rule drop_take)
      also have "\<dots> = take n (take (?sz - ?off) (drop ?off (dm_file m))) @ drop n (take (?sz - ?off) (drop ?off (dm_file m)))"
        by (rule append_take_drop_id [symmetric])
      also have "\<dots> = take n (drop ?off (dm_file m)) @ drop (?off + n) (take ?sz (dm_file m))"
        using n diff by (simp add: drop_take min_absorb1 add.commute take_take)
      finally show ?thesis .
    qed
    show ?thesis
      using emit run st split adv ok False diff
      by (auto simp: download_emit_def download_pending_def download_valid_def download_has_finished_def)
  qed
  then show "download_pending st = out @ download_pending st'" and "download_valid st'" by simp_all
qed

section \<open>A download to its end\<close>

text \<open>
  The passes of a download, as the events of the socket drive them: until the manager is
  done or a pass throws. The result has the bytes that went onto the wire.
\<close>

primrec download_passes :: "io_answer list \<Rightarrow> world \<Rightarrow> DownloadManager \<Rightarrow> (exn + unit) \<times> world \<times> DownloadManager \<times> bytes" where
  "download_passes [] w m = (Inr (), w, m, [])"
| "download_passes (a # as) w m =
     (if download_has_finished m then (Inr (), w, m, [])
      else case download_send a w m of
             (Inl e, w', m', out) \<Rightarrow> (Inl e, w', m', out)
           | (Inr _, w', m', out) \<Rightarrow> (case download_passes as w' m' of (r, w'', m'', outs) \<Rightarrow> (r, w'', m'', out @ outs)))"

lemma download_passes_prefix:
  "download_valid (w, m) \<Longrightarrow> download_passes as w m = (r, w', m', out) \<Longrightarrow>
   download_valid (w', m') \<and> download_pending (w, m) = out @ download_pending (w', m')"
proof (induction as arbitrary: w m r w' m' out)
  case (Cons a as)
  show ?case
  proof (cases "download_has_finished m")
    case False
    obtain q w1 m1 out1 where one: "download_send a w m = (q, w1, m1, out1)" by (cases "download_send a w m")
    then have emit: "download_emit a (w, m) = ((w1, m1), out1)" by (simp add: download_emit_def)
    have step: "download_valid (w1, m1)" "download_pending (w, m) = out1 @ download_pending (w1, m1)"
      using download_source.emit_valid [OF Cons.prems(1) emit] download_source.emit_prefix [OF Cons.prems(1) emit] by auto
    obtain r2 w2 m2 out2 where rest: "download_passes as w1 m1 = (r2, w2, m2, out2)" by (cases "download_passes as w1 m1")
    show ?thesis
      using Cons.IH [OF step(1) rest] Cons.prems(2) one rest False step by (auto split: sum.splits)
  qed (use Cons.prems in auto)
qed simp

lemma small_count: "unat c < 2 ^ 31 \<Longrightarrow> int_of_count c \<noteq> - 1"
proof -
  assume small: "unat c < 2 ^ 31"
  have "unat (ucast c :: 32 word) = unat c mod 2 ^ 32" by (simp add: unsigned_ucast_eq take_bit_eq_mod)
  also have "\<dots> = unat c" using small by simp
  finally have same: "unat (ucast c :: 32 word) = unat c" .
  show ?thesis
  proof
    assume "int_of_count c = - 1"
    then have "(of_int (sint (ucast c :: 32 word)) :: 32 word) = of_int (- 1)"
      by (simp only: int_of_count_def)
    then have "(ucast c :: 32 word) = - 1" by simp
    moreover have "unat (- 1 :: 32 word) = 2 ^ 32 - 1" by (simp add: unsigned_minus_1_eq_mask mask_eq_exp_minus_1)
    ultimately show False using same small by simp
  qed
qed

lemma download_send_productive:
  assumes "download_valid (w, m)" and "\<not> download_has_finished m" and "dm_offset m < dm_file_size m"
    and "unat (dm_file_size m) < 2 ^ 31" and "k > 0"
  shows "\<exists>c w' m' out. download_send (Transferred k) w m = (Inr c, w', m', out) \<and> out \<noteq> [] \<and>
    dm_file_size m' = dm_file_size m \<and> (\<not> download_has_finished m' \<longrightarrow> dm_offset m' < dm_file_size m')"
proof -
  let ?d = "dm_file_size m - dm_offset m"
  define n where "n = sendfile (Transferred k) (dm_file m) (dm_offset m) ?d"
  have le: "dm_offset m \<le> dm_file_size m" using assms(3) by simp
  have lt: "unat (dm_offset m) < unat (dm_file_size m)" using assms(3) by (simp add: word_less_nat_alt)
  have len: "unat (dm_file_size m) \<le> length (dm_file m)" using assms(1,2) by (simp add: download_valid_def)
  have d: "unat ?d = unat (dm_file_size m) - unat (dm_offset m)" using le by (simp add: unat_sub)
  have n: "n \<le> unat ?d" "n > 0" using sendfile_bound n_def lt len d assms(5) by (auto simp: n_def sendfile_def)
  note adv = advance_offset [OF le n(1)]
  have moved: "dm_offset m + of_nat n \<noteq> dm_offset m" using adv(1) n(2) by (metis add_cancel_right_right less_irrefl)
  have "int_of_count ?d \<noteq> - 1" using assms(4) d by (intro small_count) simp
  moreover have "take n (drop (unat (dm_offset m)) (dm_file m)) \<noteq> []" using n(2) lt len by simp
  moreover have "dm_offset m + of_nat n < dm_file_size m" if "dm_file_size m - (dm_offset m + of_nat n) \<noteq> 0"
    using that adv(2) by (auto simp: less_le)
  ultimately show ?thesis
    using assms(2) moved
    by (auto simp: download_send_def transfer_bytes_def Let_def n_def [symmetric] download_has_finished_def)
qed


lemma download_passes_complete:
  assumes "download_valid (w, m)" and "\<not> download_has_finished m \<longrightarrow> dm_offset m < dm_file_size m"
    and "unat (dm_file_size m) < 2 ^ 31" and "list_all (\<lambda>a. \<exists>k>0. a = Transferred k) as"
    and "length (download_pending (w, m)) \<le> length as"
  shows "\<exists>w' m'. download_passes as w m = (Inr (), w', m', download_pending (w, m)) \<and> download_has_finished m'"
  using assms
proof (induction as arbitrary: w m)
  case Nil
  have "download_has_finished m"
  proof (rule ccontr)
    assume run: "\<not> download_has_finished m"
    with Nil.prems(1,2) have "unat (dm_offset m) < unat (dm_file_size m)" "unat (dm_file_size m) \<le> length (dm_file m)"
      by (simp_all add: download_valid_def word_less_nat_alt)
    with Nil.prems(5) run show False by (simp add: download_pending_def)
  qed
  then show ?case by (simp add: download_pending_def)
next
  case (Cons a as)
  show ?case
  proof (cases "download_has_finished m")
    case True
    then show ?thesis by (simp add: download_pending_def)
  next
    case False
    obtain k where a: "a = Transferred k" "k > 0" using Cons.prems(4) by auto
    obtain c w1 m1 out where one: "download_send a w m = (Inr c, w1, m1, out)" and out: "out \<noteq> []"
      and m1: "dm_file_size m1 = dm_file_size m" "\<not> download_has_finished m1 \<longrightarrow> dm_offset m1 < dm_file_size m1"
      using download_send_productive [OF Cons.prems(1) False _ Cons.prems(3) a(2)] Cons.prems(2) False a(1) by blast
    have emit: "download_emit a (w, m) = ((w1, m1), out)" using one by (simp add: download_emit_def)
    note step = download_source.emit_valid [OF Cons.prems(1) emit] download_source.emit_prefix [OF Cons.prems(1) emit]
    have "length (download_pending (w1, m1)) \<le> length as"
      using step(2) out Cons.prems(5) by (cases out) auto
    with Cons.IH [OF step(1)] m1 Cons.prems(3,4) step(2) one False show ?thesis by force
  qed
qed

lemma start_download_ready:
  assumes "lock_objects (w_heap w) i = Some (Download_lock t)" and "node_at (w_disk w) (dt_path t) = Some (File b)"
    and "unat (dt_size t) = length b" and "dt_offset t < dt_size t"
  obtains w' where "start_download i w m = (Inr (), w',
      m\<lparr>dm_token := Some i, dm_file := b, dm_offset := dt_offset t, dm_file_size := dt_size t\<rparr>)"
    and "\<And>w'. download_valid (w', m\<lparr>dm_token := Some i, dm_file := b, dm_offset := dt_offset t, dm_file_size := dt_size t\<rparr>)"
    and "\<And>w'. download_pending (w', m\<lparr>dm_token := Some i, dm_file := b, dm_offset := dt_offset t, dm_file_size := dt_size t\<rparr>) =
      drop (unat (dt_offset t)) b"
proof -
  have "dt_size t > 0" using assms(4) by (metis word_gt_0 word_not_simps(1))
  with that assms show thesis
    by (simp add: start_download_def Let_def download_valid_def download_pending_def download_has_finished_def)
qed

text \<open>
  C5: a download delivers the file. Started on the token of a file whose size the token
  has, from an offset inside it, and whatever the kernel answers, what goes onto the wire is
  a prefix of the content from the offset on; and when the manager reports the end, it is
  all of it. Nothing is sent twice after a short or a failed write.
\<close>

theorem download_delivers:
  assumes "lock_objects (w_heap w) i = Some (Download_lock t)" and "node_at (w_disk w) (dt_path t) = Some (File b)"
    and "unat (dt_size t) = length b" and "dt_offset t < dt_size t"
  shows "\<exists>w1 m1. start_download i w m = (Inr (), w1, m1) \<and>
    (\<forall>as r w2 m2 out. download_passes as w1 m1 = (r, w2, m2, out) \<longrightarrow>
       (\<exists>rest. drop (unat (dt_offset t)) b = out @ rest) \<and>
       (download_has_finished m2 \<longrightarrow> out = drop (unat (dt_offset t)) b))"
proof -
  obtain w1 where "start_download i w m = (Inr (), w1,
      m\<lparr>dm_token := Some i, dm_file := b, dm_offset := dt_offset t, dm_file_size := dt_size t\<rparr>)"
    and valid: "\<And>w'. download_valid (w', m\<lparr>dm_token := Some i, dm_file := b, dm_offset := dt_offset t, dm_file_size := dt_size t\<rparr>)"
    and pend: "\<And>w'. download_pending (w', m\<lparr>dm_token := Some i, dm_file := b, dm_offset := dt_offset t, dm_file_size := dt_size t\<rparr>) =
      drop (unat (dt_offset t)) b"
    using start_download_ready [OF assms] by blast
  moreover have "download_pending (w2, m2) = []" if "download_has_finished m2" for w2 m2
    using that by (simp add: download_pending_def)
  ultimately show ?thesis
    using download_passes_prefix [OF valid] unfolding pend by (metis append_Nil2)
qed

text \<open>
  C8: a download of less than 2 GiB ends. When each \<open>sendfile\<close> transfers at least one
  byte, no pass throws, and after at most as many passes as there are bytes the whole rest of
  the file has been sent and the manager has finished. (The bound is the one up to which the
  count that \<open>send\<close> keeps in an \<open>int\<close> cannot be mistaken for an error.)
\<close>

theorem download_terminates:
  assumes "lock_objects (w_heap w) i = Some (Download_lock t)" and "node_at (w_disk w) (dt_path t) = Some (File b)"
    and "unat (dt_size t) = length b" and "dt_offset t < dt_size t" and "length b < 2 ^ 31"
    and "list_all (\<lambda>a. \<exists>k>0. a = Transferred k) as" and "length b - unat (dt_offset t) \<le> length as"
  shows "\<exists>w1 m1 w2 m2. start_download i w m = (Inr (), w1, m1) \<and>
    download_passes as w1 m1 = (Inr (), w2, m2, drop (unat (dt_offset t)) b) \<and> download_has_finished m2"
proof -
  let ?m = "m\<lparr>dm_token := Some i, dm_file := b, dm_offset := dt_offset t, dm_file_size := dt_size t\<rparr>"
  obtain w1 where start: "start_download i w m = (Inr (), w1, ?m)"
    and valid: "download_valid (w1, ?m)" and pend: "download_pending (w1, ?m) = drop (unat (dt_offset t)) b"
    using start_download_ready [OF assms(1-4)] by blast
  have "\<exists>w2 m2. download_passes as w1 ?m = (Inr (), w2, m2, download_pending (w1, ?m)) \<and> download_has_finished m2"
    using valid assms by (intro download_passes_complete) (simp_all add: pend)
  with start pend show ?thesis by metis
qed

section \<open>Renaming a complete upload\<close>

text \<open>The place of a new file: its directory exists and has no entry of that name.\<close>

definition vacant :: "disk \<Rightarrow> path \<Rightarrow> loc \<Rightarrow> bool" where
  "vacant d q k \<longleftrightarrow> resolve_parent d q = Inr k \<and> plain_name (last_component q) \<and> \<not> ends_in_sep q \<and>
     obs (tree d) (k @ [last_component q]) = None"

lemma upload_finish_stores:
  assumes "opened (w_disk w) (um_partial_file_name m) l c" and "vacant (w_disk w) (ut_path t) k" and "um_token m = Some i"
  shows "\<exists>w'. upload_finish t w m = (Inr (), w', m\<lparr>um_token := None\<rparr>) \<and> lock_objects (w_heap w') i = None \<and>
    obs (tree (w_disk w')) = (obs (tree (w_disk w)))
      (l @ [last_component (um_partial_file_name m)] := None, k @ [last_component (ut_path t)] \<mapsto> Regular c)"
proof -
  obtain tr where "fs_rename (w_disk w) (um_partial_file_name m) (ut_path t) = (None, (w_disk w)\<lparr>tree := tr\<rparr>)"
    "obs tr = (obs (tree (w_disk w)))
      (l @ [last_component (um_partial_file_name m)] := None, k @ [last_component (ut_path t)] \<mapsto> Regular c)"
    using fs_rename_file [OF assms(1)] assms(2) by (auto simp: vacant_def)
  with assms(3) show ?thesis by (simp add: upload_finish_def world_simps free_lock_def)
qed

text \<open>Feeding the missing bytes completes the upload.\<close>

lemma upload_feed_stores:
  assumes "um_token m = Some i" and "lock_objects (w_heap w) i = Some (Upload_lock t)"
    and "opened (w_disk w) (um_partial_file_name m) l c" and "vacant (w_disk w) (ut_path t) k"
    and "blocks \<noteq> []" and "list_all (\<lambda>b. b \<noteq> []) blocks" and "unat (get_remaining_bytes t) \<le> length (concat blocks)"
  shows "\<exists>w' m'. feed upload_commit_bytes upload_done (w, m) blocks =
      (Inr (), (w', m'), drop (unat (get_remaining_bytes t)) (concat blocks)) \<and>
    upload_has_finished m' \<and> lock_objects (w_heap w') i = None \<and>
    obs (tree (w_disk w')) = (obs (tree (w_disk w)))
      (l @ [last_component (um_partial_file_name m)] := None,
       k @ [last_component (ut_path t)] \<mapsto> Regular (c @ take (unat (get_remaining_bytes t)) (concat blocks)))"
proof -
  let ?n = "unat (get_remaining_bytes t)" and ?bs = "concat blocks"
  let ?t = "add_file_offset (of_nat ?n) t" and ?w = "upload_step ?n i t ?bs w m"
  have n: "?n = min (length ?bs) ?n" using assms(7) by simp
  have path: "ut_path (add_file_offset x t) = ut_path t" for x by (simp add: add_file_offset_def)
  have disk: "w_disk ?w = file_append (w_disk w) (um_partial_file_name m) (take ?n ?bs)"
    by (simp add: upload_step_def world_simps)
  have op: "opened (w_disk ?w) (um_partial_file_name m) l (c @ take ?n ?bs)"
    unfolding disk by (rule opened_append [OF assms(3)])
  have ne: "k @ [last_component (ut_path t)] \<noteq> l @ [last_component (um_partial_file_name m)]"
    using assms(3,4) by (auto simp: opened_def vacant_def)
  have "vacant (w_disk ?w) (ut_path ?t) k"
    using assms(4) resolve_parent_append [OF assms(3)] ne
    by (simp add: vacant_def disk path file_append_obs [OF assms(3)])
  then obtain w' where fin: "upload_finish ?t ?w m = (Inr (), w', m\<lparr>um_token := None\<rparr>)" "lock_objects (w_heap w') i = None"
    "obs (tree (w_disk w')) = (obs (tree (w_disk ?w)))
      (l @ [last_component (um_partial_file_name m)] := None, k @ [last_component (ut_path t)] \<mapsto> Regular (c @ take ?n ?bs))"
    using upload_finish_stores [OF op _ assms(1), of ?t k] by (auto simp: path)
  have run: "upload_commit_bytes (w, m) ?bs = (Inr (), (w', m\<lparr>um_token := None\<rparr>), drop ?n ?bs)"
    using upload_commit_cases [OF assms(1,2) n] assms(7) fin(1) by simp
  have ready: "upload_ready (w, m)" using assms(1-3) by (auto simp: upload_ready_def)
  have over: "upload_done (w', m\<lparr>um_token := None\<rparr>)" by (simp add: upload_has_finished_def)
  from upload_stream.one_block_as_feed [OF ready assms(6) run over assms(5)] over fin(2,3)
  show ?thesis by (auto simp: disk file_append_obs [OF assms(3)])
qed

text \<open>
  C4: an upload stores the file. The blocks of input that follow \<open>ul\<close>, however the network
  cut them, complete the partial file with exactly the bytes that are missing to the announced
  size; the partial file is then renamed to the requested path, nothing else on the disk
  changes, the lock on the path is released, and the bytes after the file are handed back to
  be read as requests.
\<close>

theorem upload_stores_file:
  assumes "um_token m = Some i" and "lock_objects (w_heap w) i = Some (Upload_lock t)"
    and "opened (w_disk w) (um_partial_file_name m) l c" and "vacant (w_disk w) (ut_path t) k"
    and "blocks \<noteq> []" and "list_all (\<lambda>b. b \<noteq> []) blocks" and "unat (get_remaining_bytes t) \<le> length (concat blocks)"
  shows "\<exists>w' m'. feed upload_commit_bytes upload_done (w, m) blocks =
      (Inr (), (w', m'), drop (unat (get_remaining_bytes t)) (concat blocks)) \<and>
    upload_has_finished m' \<and> lock_objects (w_heap w') i = None \<and>
    obs (tree (w_disk w')) = (obs (tree (w_disk w)))
      (l @ [last_component (um_partial_file_name m)] := None,
       k @ [last_component (ut_path t)] \<mapsto> Regular (c @ take (unat (get_remaining_bytes t)) (concat blocks)))"
  using assms by (rule upload_feed_stores)


definition sample_transfer_world :: world where
  "sample_transfer_world = sample_world
     \<lparr>w_heap := empty_heap\<lparr>lock_objects := [1 \<mapsto> Upload_lock \<lparr>ut_path = ''/srv/docs/b'', ut_destination_path = ''/srv/docs'',
         ut_file_name = ''b'', ut_temporary_filename_stem = ''7'', ut_size = 4, ut_offset = 1\<rparr>,
         2 \<mapsto> Download_lock \<lparr>dt_path = ''/srv/docs/a'', dt_size = 5, dt_offset = 2\<rparr>]\<rparr>,
      w_disk := \<lparr>tree = Dir [(''srv'', Dir [(''.tds'', Dir [(''7.partial'', File ''x'')]), (''docs'', Dir [(''a'', File ''hello'')])])],
        working_dir = [], available = 1000\<rparr>\<rparr>"

definition sample_upload_manager :: UploadManager where
  "sample_upload_manager = \<lparr>um_token = Some 1, um_partial_file_name = ''/srv/.tds/7.partial'',
     um_backup_file_name = ''/srv/.tds/7.backup''\<rparr>"

lemmas transfer_eval = sample_transfer_world_def sample_upload_manager_def sample_world_def empty_heap_def
  opened_def vacant_def resolve_parent_def last_component_def strip_trailing_def start_dir_def obs_def plain_name_def
  ends_in_sep_def get_remaining_bytes_def node_at_def resolve_def

theorem upload_stores_file_witness:
  "\<exists>w' m'. feed upload_commit_bytes upload_done (sample_transfer_world, sample_upload_manager) [''y'', ''zuls''] =
      (Inr (), (w', m'), ''ls'') \<and> obs (tree (w_disk w')) [''srv'', ''docs'', ''b''] = Some (Regular ''xyzu'')"
proof -
  have "\<exists>w' m'. feed upload_commit_bytes upload_done (sample_transfer_world, sample_upload_manager) [''y'', ''zuls''] =
      (Inr (), (w', m'), drop (unat (4 - 1 :: u64)) (concat [''y'', ''zuls''])) \<and>
    upload_has_finished m' \<and> lock_objects (w_heap w') 1 = None \<and>
    obs (tree (w_disk w')) = (obs (tree (w_disk sample_transfer_world)))
      ([''srv'', ''.tds''] @ [last_component ''/srv/.tds/7.partial''] := None,
       [''srv'', ''docs''] @ [last_component ''/srv/docs/b''] \<mapsto> Regular (''x'' @ take (unat (4 - 1 :: u64)) (concat [''y'', ''zuls''])))"
    using upload_stores_file [of sample_upload_manager 1 sample_transfer_world _ "[''srv'', ''.tds'']" "''x''" "[''srv'', ''docs'']" "[''y'', ''zuls'']"]
    by (simp add: transfer_eval)
  then show ?thesis by (auto simp: last_component_def strip_trailing_def)
qed

theorem download_delivers_witness:
  "\<exists>w1 m1. start_download 2 sample_transfer_world new_download_manager = (Inr (), w1, m1) \<and>
    (\<forall>as r w2 m2 out. download_passes as w1 m1 = (r, w2, m2, out) \<longrightarrow>
       (\<exists>rest. ''llo'' = out @ rest) \<and> (download_has_finished m2 \<longrightarrow> out = ''llo''))"
  using download_delivers [of sample_transfer_world 2 _ "''hello''" new_download_manager] by (simp add: transfer_eval)

theorem download_terminates_witness:
  "\<exists>w1 m1 w2 m2. start_download 2 sample_transfer_world new_download_manager = (Inr (), w1, m1) \<and>
    download_passes [Transferred 1, Transferred 7, Transferred 1] w1 m1 = (Inr (), w2, m2, ''llo'') \<and> download_has_finished m2"
  using download_terminates [of sample_transfer_world 2 _ "''hello''" "[Transferred 1, Transferred 7, Transferred 1]" new_download_manager]
  by (simp add: transfer_eval)

text \<open>
  The count that \<open>send\<close> looks at. \<open>transfer_bytes\<close> returns the requested count, not the
  transferred one, and \<open>send\<close> keeps it in an \<open>int\<close>: when the rest of the file is one byte
  short of a multiple of 4 GiB the count reads as -1, and the pass throws with the code 0 of
  \<open>success\<close> however much was transferred, which ends the session.
\<close>

lemma download_count_collision:
  assumes "\<not> download_has_finished m" and "unat (dm_file_size m - dm_offset m) mod 2 ^ 32 = 2 ^ 32 - 1"
    and "dm_file_size m - dm_offset m \<noteq> - 1"
  shows "fst (download_send a w m) = Inl (SystemError 0 ''DownloadManager::send(2)'')"
proof -
  have "unat (ucast (dm_file_size m - dm_offset m) :: 32 word) = 2 ^ 32 - 1"
    using assms(2) by (simp add: unsigned_ucast_eq take_bit_eq_mod)
  also have "\<dots> = unat (- 1 :: 32 word)" by (simp add: unsigned_minus_1_eq_mask mask_eq_exp_minus_1)
  finally have "(ucast (dm_file_size m - dm_offset m) :: 32 word) = - 1" by (simp add: word_unat_eq_iff)
  then have "int_of_count (dm_file_size m - dm_offset m) = - 1" by (simp add: int_of_count_def)
  with assms(1,3) show ?thesis by (simp add: download_send_def transfer_bytes_def Let_def EAGAIN_def)
qed

lemma download_count_collision_witness:
  "fst (download_send (Transferred 3) sample_world \<lparr>dm_token = Some 1, dm_file = ''abc'', dm_offset = 0, dm_file_size = 0xFFFFFFFF\<rparr>) =
     Inl (SystemError 0 ''DownloadManager::send(2)'')"
  using download_count_collision [of "\<lparr>dm_token = Some 1, dm_file = ''abc'', dm_offset = 0, dm_file_size = 0xFFFFFFFF\<rparr>"]
  by (simp add: download_has_finished_def)

end
