(* ===== verification/Interpreter.thy ===== *)
theory Interpreter
  imports Protocol_Field Byte_Stream
begin

text \<open>
  The protocol interpreter (\<open>request.hpp\<close>, \<open>protocol_interpreter.hpp\<close>,
  \<open>protocol_interpreter.cpp\<close>): it collects the bytes of a connection into lines and turns the
  lines up to an empty one into a request. Reading the length of the last line after the
  lines were cleared has no defined result in C++; the value it happens to give is the
  input \<open>stale_length\<close> of the state and appears in an error message only.
\<close>

section \<open>State\<close>

record Request =
  r_name :: string
  r_fields :: "Field list"

definition make_request :: "string \<Rightarrow> Request" where
  "make_request name = \<lparr>r_name = name, r_fields = []\<rparr>"

definition add_field :: "Request \<Rightarrow> Field \<Rightarrow> Request" where
  "add_field r f = r\<lparr>r_fields := r_fields r @ [f]\<rparr>"

record ProtocolInterpreter =
  m_lines :: "string list"
  m_request :: "Request option"
  m_last_line_complete :: bool
  stale_length :: nat

definition max_line_length :: nat where "max_line_length = 2048"
definition max_line_count :: nat where "max_line_count = 16"
definition line_separator :: char where "line_separator = newline"

definition new_interpreter :: "nat \<Rightarrow> ProtocolInterpreter" where
  "new_interpreter stale =
     \<lparr>m_lines = [], m_request = None, m_last_line_complete = True, stale_length = stale\<rparr>"

section \<open>Operations\<close>

definition restart :: "ProtocolInterpreter \<Rightarrow> ProtocolInterpreter" where
  "restart st = st\<lparr>m_lines := [], m_request := None, m_last_line_complete := True\<rparr>"

definition has_available_request :: "ProtocolInterpreter \<Rightarrow> bool" where
  "has_available_request st \<longleftrightarrow> m_request st \<noteq> None"

definition check_for_protocol_errors :: "(exn, ProtocolInterpreter, unit) action" where
  "check_for_protocol_errors st =
     (let line_length = length (last (m_lines st));
          line_count = length (m_lines st);
          too_long = line_length > max_line_length;
          too_many = line_count > max_line_count;
          st' = (if too_long \<or> too_many then restart st else st)
      in if too_long then
           raise (ProtocolError too_long_line
             (''Too long line ('' @ nat_to_string (stale_length st') @ '' bytes)'')) st'
         else if too_many then
           raise (ProtocolError too_many_fields
             (''Too many fields ('' @ nat_to_string (length (m_lines st')) @ '')'')) st'
         else ret () st')"

primrec parse_lines :: "Request \<Rightarrow> string list \<Rightarrow> exn + Request" where
  "parse_lines request [] = Inr request"
| "parse_lines request (line # lines) =
     (case field_from_string line of
        Inl e \<Rightarrow> Inl e
      | Inr f \<Rightarrow> parse_lines (add_field request f) lines)"

text \<open>The first line is moved into the request and leaves an empty string behind.\<close>

definition commit_request :: "(exn, ProtocolInterpreter, unit) action" where
  "commit_request st =
     (case m_request st of
        Some r \<Rightarrow> raise (RuntimeError (''ProtocolInterpreter: last request '' @ [apostrophe] @ r_name r @
                    [apostrophe] @ '' was not properly handled'')) st
      | None \<Rightarrow>
          let name = hd (m_lines st); st' = st\<lparr>m_lines := [] # tl (m_lines st)\<rparr>
          in (case parse_lines (make_request name) (drop 1 (m_lines st')) of
                Inl e \<Rightarrow> raise e st'
              | Inr r \<Rightarrow> ret () (st'\<lparr>m_request := Some r\<rparr>)))"

definition append_line :: "ProtocolInterpreter \<Rightarrow> string \<Rightarrow> ProtocolInterpreter" where
  "append_line st line =
     (if m_last_line_complete st then st\<lparr>m_lines := m_lines st @ [line]\<rparr>
      else st\<lparr>m_lines := butlast (m_lines st) @ [last (m_lines st) @ line]\<rparr>)"

definition finish_line :: "ProtocolInterpreter \<Rightarrow> ProtocolInterpreter" where
  "finish_line st =
     (if last (last (m_lines st)) = newline
      then st\<lparr>m_last_line_complete := True,
              m_lines := butlast (m_lines st) @ [butlast (last (m_lines st))]\<rparr>
      else st\<lparr>m_last_line_complete := False\<rparr>)"

definition pop_line :: "ProtocolInterpreter \<Rightarrow> ProtocolInterpreter" where
  "pop_line st = st\<lparr>m_lines := butlast (m_lines st)\<rparr>"

definition clear_lines :: "ProtocolInterpreter \<Rightarrow> ProtocolInterpreter" where
  "clear_lines st = st\<lparr>m_lines := []\<rparr>"

definition commit_line :: "string \<Rightarrow> (exn, ProtocolInterpreter, unit) action" where
  "commit_line line =
     andthen (modify (\<lambda>st. append_line st line))
     (andthen check_for_protocol_errors
     (andthen (modify finish_line)
     (bind (gets m_lines) (\<lambda>lines.
        if last lines = [] then
          andthen (if length lines > 1 then andthen (modify pop_line) commit_request else ret ())
            (modify clear_lines)
        else ret ()))))"

definition split_line :: "bytes \<Rightarrow> bytes \<times> bytes" where
  "split_line bs =
     (case dropWhile (\<lambda>c. c \<noteq> line_separator) bs of
        [] \<Rightarrow> (bs, [])
      | c # rest \<Rightarrow> (takeWhile (\<lambda>c. c \<noteq> line_separator) bs @ [c], rest))"

lemma split_line_append: "split_line bs = (line, rest) \<Longrightarrow> bs = line @ rest"
  unfolding split_line_def
  by (auto split: list.splits) (metis append.assoc append_Cons append_Nil takeWhile_dropWhile_id)

lemma split_line_nonempty: "bs \<noteq> [] \<Longrightarrow> split_line bs = (line, rest) \<Longrightarrow> line \<noteq> []"
  unfolding split_line_def by (auto split: list.splits)

function commit_bytes :: "ProtocolInterpreter \<Rightarrow> bytes \<Rightarrow> (exn + unit) \<times> ProtocolInterpreter \<times> bytes" where
  "commit_bytes st bs =
     (if bs = [] \<or> has_available_request st then (Inr (), st, bs)
      else case split_line bs of
             (line, rest) \<Rightarrow>
               (case commit_line line st of
                  (Inl e, st') \<Rightarrow> (Inl e, st', rest)
                | (Inr _, st') \<Rightarrow> commit_bytes st' rest))"
  by pat_completeness auto
termination
proof (relation "measure (\<lambda>(st, bs). length bs)")
  fix st bs line rest r st'
  assume ne: "\<not> (bs = [] \<or> has_available_request st)" and split: "(line, rest) = split_line bs"
  have "bs = line @ rest" "line \<noteq> []"
    using split_line_append [OF split [symmetric]] split_line_nonempty [OF _ split [symmetric]] ne
    by auto
  then show "((st', rest), st, bs) \<in> measure (\<lambda>(st, bs). length bs)" by simp
qed simp

declare commit_bytes.simps [simp del]

definition get_request :: "ProtocolInterpreter \<Rightarrow> exn + Request \<times> ProtocolInterpreter" where
  "get_request st =
     (case m_request st of
        None \<Rightarrow> Inl (RuntimeError ''bad optional access'')
      | Some r \<Rightarrow> Inr (r, restart st))"

section \<open>Lines and blocks\<close>

definition ready_interpreter :: "ProtocolInterpreter \<Rightarrow> bool" where
  "ready_interpreter st \<longleftrightarrow> m_request st = None \<and>
     (\<not> m_last_line_complete st \<longrightarrow>
        m_lines st \<noteq> [] \<and> last (m_lines st) \<noteq> [] \<and> newline \<notin> set (last (m_lines st)))"

definition within_limits :: "string list \<Rightarrow> bool" where
  "within_limits lines \<longleftrightarrow> length (last lines) \<le> max_line_length \<and> length lines \<le> max_line_count"

lemma check_passes: "within_limits (m_lines st) \<Longrightarrow> check_for_protocol_errors st = (Inr (), st)"
  by (simp add: check_for_protocol_errors_def within_limits_def Let_def)

lemma check_fails:
  "\<not> within_limits (m_lines st) \<Longrightarrow>
   \<exists>code msg. check_for_protocol_errors st = (Inl (ProtocolError code msg), restart st) \<and>
     code = (if length (last (m_lines st)) > max_line_length then too_long_line else too_many_fields)"
  by (auto simp: check_for_protocol_errors_def within_limits_def Let_def)

lemma append_line_facts [simp]:
  "m_lines (append_line st l) \<noteq> []" "m_request (append_line st l) = m_request st"
  "stale_length (append_line st l) = stale_length st"
  by (simp_all add: append_line_def)

lemma commit_line_error:
  "\<not> within_limits (m_lines (append_line st l)) \<Longrightarrow>
   commit_line l st = check_for_protocol_errors (append_line st l)"
  using check_fails [of "append_line st l"]
  by (auto simp: commit_line_def andthen_def bind_def)

lemma commit_line_pass:
  "within_limits (m_lines (append_line st l)) \<Longrightarrow>
   commit_line l st =
     (let st1 = finish_line (append_line st l); lines = m_lines st1
      in if last lines \<noteq> [] then (Inr (), st1)
         else if length lines > 1 then
           (case commit_request (pop_line st1) of (Inl e, st2) \<Rightarrow> (Inl e, st2)
            | (Inr _, st2) \<Rightarrow> (Inr (), clear_lines st2))
         else (Inr (), clear_lines st1))"
  using check_passes [of "append_line st l"]
  by (auto simp: commit_line_def andthen_def bind_def Let_def split: prod.splits sum.splits)

lemma last_append_line:
  "last (m_lines (append_line st l)) = (if m_last_line_complete st then l else last (m_lines st) @ l)"
  by (simp add: append_line_def)

lemma commit_partial_line:
  assumes "l \<noteq> []" and "newline \<notin> set l" and "within_limits (m_lines (append_line st l))"
  shows "commit_line l st = (Inr (), (append_line st l)\<lparr>m_last_line_complete := False\<rparr>)"
  using assms by (auto simp: commit_line_pass Let_def finish_line_def last_append_line last_in_set)
    (metis last_in_set)+

lemma commit_line_split:
  assumes "ready_interpreter st" and "l \<noteq> []" and "newline \<notin> set l" and "k \<noteq> []"
    and "commit_line l st = (Inr (), st')"
  shows "commit_line (l @ k) st = commit_line k st'" and "ready_interpreter st'"
proof -
  have lim: "within_limits (m_lines (append_line st l))"
  proof (rule ccontr)
    assume "\<not> within_limits (m_lines (append_line st l))"
    from commit_line_error [OF this] check_fails [OF this] assms(5) show False by auto
  qed
  then have st': "st' = (append_line st l)\<lparr>m_last_line_complete := False\<rparr>"
    using commit_partial_line [OF assms(2,3) lim] assms(5) by simp
  have same: "append_line st' k = (append_line st (l @ k))\<lparr>m_last_line_complete := False\<rparr>"
    by (simp add: st' append_line_def)
  have fin: "finish_line (st\<lparr>m_last_line_complete := b\<rparr>) = finish_line st" for st b
    by (simp add: finish_line_def)
  have chk: "check_for_protocol_errors (append_line st' k) = check_for_protocol_errors (append_line st (l @ k))"
    if "\<not> within_limits (m_lines (append_line st (l @ k)))"
    using that by (auto simp: same check_for_protocol_errors_def Let_def restart_def within_limits_def)
  show "commit_line (l @ k) st = commit_line k st'"
  proof (cases "within_limits (m_lines (append_line st (l @ k)))")
    case True
    then show ?thesis by (simp add: commit_line_pass same fin)
  next
    case False
    then show ?thesis using chk by (simp add: commit_line_error same)
  qed
  show "ready_interpreter st'"
    using assms(1-3) by (auto simp: st' ready_interpreter_def append_line_def)
qed


lemma commit_request_keeps:
  "commit_request st = (r, st') \<Longrightarrow>
   m_last_line_complete st' = m_last_line_complete st \<and>
   (case r of Inl e \<Rightarrow> m_request st' = m_request st | Inr _ \<Rightarrow> m_request st' \<noteq> None)"
  by (auto simp: commit_request_def Let_def split: option.splits sum.splits)

lemma commit_line_ready:
  assumes "ready_interpreter st" and "l \<noteq> []" and "newline \<notin> set (butlast l)"
    and "commit_line l st = (r, st')" and "m_request st' = None"
  shows "ready_interpreter st'"
proof (cases "within_limits (m_lines (append_line st l))")
  case False
  with assms(1,4) check_fails [OF False] show ?thesis
    by (auto simp: commit_line_error ready_interpreter_def restart_def)
next
  case True
  show ?thesis
  proof (cases "last l = newline")
    case False
    then have nn: "newline \<notin> set l"
      using assms(2,3) by (metis append_butlast_last_id rotate1.simps(2) set_ConsD set_rotate1)
    from commit_partial_line [OF assms(2) nn True] assms(1,2,4) nn show ?thesis
      by (auto simp: ready_interpreter_def append_line_def)
  next
    case last: True
    then have "m_last_line_complete (finish_line (append_line st l))"
      using assms(1,2) by (simp add: finish_line_def last_append_line)
    then have "m_last_line_complete st'"
      using assms(4) True
      by (auto simp: commit_line_pass Let_def clear_lines_def pop_line_def split: if_splits prod.splits sum.splits
          dest!: commit_request_keeps)
    with assms(5) show ?thesis by (simp add: ready_interpreter_def)
  qed
qed

lemma split_line_cases:
  "split_line bs = (if newline \<in> set bs
     then (takeWhile (\<lambda>c. c \<noteq> newline) bs @ [newline], tl (dropWhile (\<lambda>c. c \<noteq> newline) bs))
     else (bs, []))"
proof (cases "newline \<in> set bs")
  case True
  then obtain u v where "bs = u @ newline # v" "newline \<notin> set u" by (meson split_list_first)
  moreover from this have "dropWhile (\<lambda>c. c \<noteq> newline) u = []" by (intro dropWhile_all) auto
  ultimately show ?thesis
    by (simp add: split_line_def line_separator_def dropWhile_append_stop takeWhile_append_stop
        del: dropWhile_eq_Nil_conv)
next
  case False
  then have "dropWhile (\<lambda>c. c \<noteq> newline) bs = []" by (intro dropWhile_all) auto
  with False show ?thesis by (simp add: split_line_def line_separator_def del: dropWhile_eq_Nil_conv)
qed

lemma split_line_found: "newline \<notin> set u \<Longrightarrow> split_line (u @ newline # v) = (u @ [newline], v)"
proof -
  assume "newline \<notin> set u"
  then have "\<forall>c\<in>set u. c \<noteq> newline" by auto
  then show ?thesis
    by (simp add: split_line_cases takeWhile_append_stop dropWhile_prefix_all)
qed

lemma split_line_newlines: "split_line bs = (line, rest) \<Longrightarrow> newline \<notin> set (butlast line)"
proof (cases "newline \<in> set bs")
  case True
  moreover assume "split_line bs = (line, rest)"
  ultimately show ?thesis by (auto simp: split_line_cases dest: set_takeWhileD)
next
  case False
  moreover assume "split_line bs = (line, rest)"
  ultimately show ?thesis by (auto simp: split_line_cases dest: in_set_butlastD)
qed

lemma split_line_more:
  assumes "split_line xs = (line, rest)" and "newline \<in> set xs"
  shows "split_line (xs @ ys) = (line, rest @ ys)"
proof -
  obtain u v where "xs = u @ newline # v" "newline \<notin> set u" using assms(2) by (meson split_list_first)
  with assms(1) show ?thesis by (simp add: split_line_found)
qed

lemma split_line_join:
  assumes "newline \<notin> set xs" and "split_line ys = (line, rest)"
  shows "split_line (xs @ ys) = (xs @ line, rest)"
proof (cases "newline \<in> set ys")
  case True
  then obtain u v where "ys = u @ newline # v" "newline \<notin> set u" by (meson split_list_first)
  then show ?thesis using assms split_line_found [of u v] split_line_found [of "xs @ u" v] by simp
next
  case False
  with assms show ?thesis by (simp add: split_line_cases)
qed

lemma commit_bytes_nil [simp]: "commit_bytes st [] = (Inr (), st, [])"
  by (subst commit_bytes.simps) simp

lemma commit_bytes_step:
  "bs \<noteq> [] \<Longrightarrow> m_request st = None \<Longrightarrow> split_line bs = (line, rest) \<Longrightarrow>
   commit_bytes st bs = (case commit_line line st of
      (Inl e, st') \<Rightarrow> (Inl e, st', rest) | (Inr _, st') \<Rightarrow> commit_bytes st' rest)"
  by (subst commit_bytes.simps) (simp add: has_available_request_def split: prod.splits sum.splits)

lemma commit_bytes_done [simp]: "m_request st \<noteq> None \<Longrightarrow> commit_bytes st bs = (Inr (), st, bs)"
  by (subst commit_bytes.simps) (simp add: has_available_request_def)

text \<open>A block without a newline stays in the last line.\<close>

lemma commit_bytes_partial:
  assumes "ready_interpreter st" and "xs \<noteq> []" and "newline \<notin> set xs" and "commit_line xs st = (Inr u, st1)"
  shows "m_request st1 = None" and "ys \<noteq> [] \<Longrightarrow> commit_bytes st (xs @ ys) = commit_bytes st1 ys"
proof -
  have none: "m_request st = None" using assms(1) by (simp add: ready_interpreter_def)
  show "m_request st1 = None"
    using commit_line_split(2) [OF assms(1-3) _] assms(4) by (metis list.distinct(1) old.unit.exhaust ready_interpreter_def)
  assume ys: "ys \<noteq> []"
  obtain k rest' where k: "split_line ys = (k, rest')" by (cases "split_line ys")
  have "commit_line (xs @ k) st = commit_line k st1" and "ready_interpreter st1"
    using commit_line_split [OF assms(1-3) split_line_nonempty [OF ys k]] assms(4) by auto
  then show "commit_bytes st (xs @ ys) = commit_bytes st1 ys"
    using commit_bytes_step [OF _ none split_line_join [OF assms(3) k]] assms(2) ys commit_bytes_step [OF ys _ k, of st1]
    by (simp add: ready_interpreter_def)
qed

lemma commit_bytes_laws:
  assumes "ready_interpreter st" and "commit_bytes st xs = (r, st', zs)"
  shows "(\<exists>us. xs = us @ zs) \<and> (m_request st' = None \<longrightarrow> ready_interpreter st') \<and>
    (r = Inr () \<longrightarrow>
       (if m_request st' = None then zs = [] \<and> (ys \<noteq> [] \<longrightarrow> commit_bytes st (xs @ ys) = commit_bytes st' ys)
        else commit_bytes st (xs @ ys) = (Inr (), st', zs @ ys)))"
  using assms
proof (induction "length xs" arbitrary: st xs rule: less_induct)
  case less
  have none: "m_request st = None" using less.prems(1) by (simp add: ready_interpreter_def)
  show ?case
  proof (cases "xs = []")
    case True
    with less.prems none show ?thesis by auto
  next
    case ne: False
    obtain line rest where sp: "split_line xs = (line, rest)" by (cases "split_line xs")
    have parts: "xs = line @ rest" "line \<noteq> []" "newline \<notin> set (butlast line)"
      using split_line_append [OF sp] split_line_nonempty [OF ne sp] split_line_newlines [OF sp] by auto
    obtain q st1 where c: "commit_line line st = (q, st1)" by (cases "commit_line line st")
    note step = commit_bytes_step [OF ne none sp] and rdy = commit_line_ready [OF less.prems(1) parts(2,3) c]
    consider (error) e where "q = Inl e" | (line) u where "q = Inr u" "newline \<in> set xs" | (partial) u where "q = Inr u" "newline \<notin> set xs"
      by (cases q) auto
    then show ?thesis
    proof cases
      case error
      with less.prems(2) step c rdy parts(1) show ?thesis by auto
    next
      case line
      have rec: "commit_bytes st1 rest = (r, st', zs)" using step c less.prems(2) line(1) by simp
      have more: "commit_bytes st (xs @ ys) = commit_bytes st1 (rest @ ys)"
        using commit_bytes_step [OF _ none split_line_more [OF sp line(2), of ys]] ne c line(1) by simp
      show ?thesis
      proof (cases "m_request st1 = None")
        case True
        have "length rest < length xs" using parts by simp
        from less.hyps [OF this rdy [OF True] rec] show ?thesis using parts(1) more by auto
      qed (use rec more parts(1) in auto)
    next
      case partial
      then have "line = xs" "rest = []" using sp by (simp_all add: split_line_cases)
      then show ?thesis
        using commit_bytes_partial [OF less.prems(1) ne partial(2), of _ st1] c partial(1) rdy step less.prems(2) by auto
    qed
  qed
qed

text \<open>A block without a newline that is too much is too much with anything behind it.\<close>

lemma commit_bytes_overflow:
  assumes "ready_interpreter st" and "xs \<noteq> []" and "newline \<notin> set xs" and "commit_bytes st xs = (Inl e, st', zs)"
  shows "\<exists>e' st'' zs'. commit_bytes st (xs @ ys) = (Inl e', st'', zs')"
proof (cases "ys = []")
  case ys: False
  have none: "m_request st = None" using assms(1) by (simp add: ready_interpreter_def)
  have sp: "split_line xs = (xs, [])" using assms(3) by (simp add: split_line_cases)
  obtain k rest' where k: "split_line ys = (k, rest')" by (cases "split_line ys")
  have "\<not> within_limits (m_lines (append_line st xs))"
    using commit_partial_line [OF assms(2,3)] commit_bytes_step [OF assms(2) none sp] assms(4) by auto
  then have "\<not> within_limits (m_lines (append_line st (xs @ k)))" by (auto simp: within_limits_def append_line_def)
  from commit_line_error [OF this] check_fails [OF this] show ?thesis
    using commit_bytes_step [OF _ none split_line_join [OF assms(3) k]] assms(2) by auto
qed (use assms(4) in simp)

lemma commit_bytes_error:
  assumes "ready_interpreter st" and "commit_bytes st xs = (Inl e, st', zs)"
  shows "\<exists>e' st'' zs'. commit_bytes st (xs @ ys) = (Inl e', st'', zs')"
  using assms
proof (induction "length xs" arbitrary: st xs rule: less_induct)
  case less
  have none: "m_request st = None" using less.prems(1) by (simp add: ready_interpreter_def)
  have ne: "xs \<noteq> []" using less.prems(2) by auto
  obtain line rest where sp: "split_line xs = (line, rest)" by (cases "split_line xs")
  have parts: "xs = line @ rest" "line \<noteq> []" "newline \<notin> set (butlast line)"
    using split_line_append [OF sp] split_line_nonempty [OF ne sp] split_line_newlines [OF sp] by auto
  obtain q st1 where c: "commit_line line st = (q, st1)" by (cases "commit_line line st")
  show ?case
  proof (cases "newline \<in> set xs")
    case True
    have more: "commit_bytes st (xs @ ys) = (case commit_line line st of
        (Inl e, st') \<Rightarrow> (Inl e, st', rest @ ys) | (Inr _, st') \<Rightarrow> commit_bytes st' (rest @ ys))"
      using commit_bytes_step [OF _ none split_line_more [OF sp True, of ys]] ne by simp
    show ?thesis
    proof (cases q)
      case (Inl x)
      with more c show ?thesis by simp
    next
      case (Inr u)
      then have rec: "commit_bytes st1 rest = (Inl e, st', zs)" using commit_bytes_step [OF ne none sp] c less.prems(2) by simp
      then have "m_request st1 = None" by (cases "m_request st1") auto
      then have "ready_interpreter st1" using commit_line_ready [OF less.prems(1) parts(2,3) c] by simp
      moreover have "length rest < length xs" using parts by simp
      ultimately show ?thesis using less.hyps [OF _ _ rec] more c Inr by simp
    qed
  next
    case False
    from commit_bytes_overflow [OF less.prems(1) ne False less.prems(2)] show ?thesis .
  qed
qed

interpretation interpreter_stream: byte_consumer commit_bytes has_available_request ready_interpreter
  using commit_bytes_laws commit_bytes_error
  by unfold_locales (auto simp: has_available_request_def)+

section \<open>Whole requests\<close>

text \<open>
  A request as clients write it: the command name, one line per field and an empty line.
\<close>

definition encode_lines :: "string list \<Rightarrow> bytes" where
  "encode_lines ls = concat (map (\<lambda>l. l @ [newline]) ls)"

definition encode_request :: "string \<Rightarrow> string list \<Rightarrow> bytes" where
  "encode_request name field_lines = encode_lines (name # field_lines) @ [newline]"

definition short_line :: "string \<Rightarrow> bool" where
  "short_line l \<longleftrightarrow> l \<noteq> [] \<and> newline \<notin> set l \<and> length l < max_line_length"

abbreviation idle :: "ProtocolInterpreter \<Rightarrow> bool" where
  "idle st \<equiv> m_request st = None \<and> m_last_line_complete st"

lemma commit_full_line:
  assumes "idle st" and "short_line l" and "length (m_lines st) < max_line_count"
  shows "commit_line (l @ [newline]) st = (Inr (), st\<lparr>m_lines := m_lines st @ [l]\<rparr>)"
  using assms
  by (simp add: commit_line_pass append_line_def finish_line_def within_limits_def short_line_def Let_def)

lemma commit_overflowing_line:
  assumes "idle st" and "l = [] \<or> short_line l" and "length (m_lines st) = max_line_count"
  shows "\<exists>msg. commit_line (l @ [newline]) st = (Inl (ProtocolError too_many_fields msg), restart st)"
proof -
  have lim: "\<not> within_limits (m_lines (append_line st (l @ [newline])))"
    using assms by (simp add: within_limits_def append_line_def)
  have "length (last (m_lines (append_line st (l @ [newline])))) \<le> max_line_length"
    using assms by (auto simp: append_line_def short_line_def max_line_length_def)
  with commit_line_error [OF lim] check_fails [OF lim] assms(1) show ?thesis
    by (auto simp: restart_def append_line_def)
qed

lemma commit_line_bytes:
  assumes "idle st" and "newline \<notin> set l"
  shows "commit_bytes st (l @ newline # rest) = (case commit_line (l @ [newline]) st of
     (Inl e, st') \<Rightarrow> (Inl e, st', rest) | (Inr _, st') \<Rightarrow> commit_bytes st' rest)"
  using commit_bytes_step [OF _ _ split_line_found [OF assms(2)]] assms(1) by simp

lemma commit_lines:
  assumes "idle st" and "list_all short_line ls" and "length (m_lines st) + length ls \<le> max_line_count"
  shows "commit_bytes st (encode_lines ls @ rest) = commit_bytes (st\<lparr>m_lines := m_lines st @ ls\<rparr>) rest"
  using assms
proof (induction ls arbitrary: st)
  case Nil
  then show ?case by (simp add: encode_lines_def)
next
  case (Cons l ls)
  then have l: "short_line l" "newline \<notin> set l" by (simp_all add: short_line_def)
  show ?case
    using Cons.IH [of "st\<lparr>m_lines := m_lines st @ [l]\<rparr>"] Cons.prems
      commit_full_line [OF Cons.prems(1) l(1)] commit_line_bytes [OF Cons.prems(1) l(2)]
    by (simp add: encode_lines_def)
qed

lemma commit_too_many_lines:
  assumes "idle st" and "list_all short_line ls" and "length (m_lines st) + length ls \<ge> max_line_count"
    and "length (m_lines st) \<le> max_line_count"
  shows "\<exists>msg rest. commit_bytes st (encode_lines ls @ [newline]) =
           (Inl (ProtocolError too_many_fields msg), restart st, rest)"
proof -
  define k where "k = max_line_count - length (m_lines st)"
  define st1 where "st1 = st\<lparr>m_lines := m_lines st @ take k ls\<rparr>"
  have len: "length (m_lines st1) = max_line_count" and idle1: "idle st1"
    using assms by (simp_all add: st1_def k_def)
  have r: "restart st1 = restart st" by (simp add: st1_def restart_def)
  have "encode_lines ls @ [newline] = encode_lines (take k ls) @ encode_lines (drop k ls) @ [newline]"
    by (metis (no_types) append.assoc append_take_drop_id concat_append encode_lines_def map_append)
  moreover have "commit_bytes st (encode_lines (take k ls) @ encode_lines (drop k ls) @ [newline]) =
      commit_bytes st1 (encode_lines (drop k ls) @ [newline])"
    unfolding st1_def using assms by (intro commit_lines) (auto simp: k_def list_all_iff dest: in_set_takeD)
  moreover have "\<exists>msg rest. commit_bytes st1 (encode_lines (drop k ls) @ [newline]) =
      (Inl (ProtocolError too_many_fields msg), restart st1, rest)"
  proof (cases "drop k ls")
    case Nil
    then show ?thesis
      using commit_line_bytes [OF idle1, of "[]" "[]"] commit_overflowing_line [OF idle1 _ len, of "[]"]
      by (auto simp: encode_lines_def)
  next
    case (Cons l ls')
    then have "l \<in> set ls" by (metis in_set_dropD list.set_intros(1))
    then have l: "short_line l" "newline \<notin> set l" using assms(2) by (auto simp: list_all_iff short_line_def)
    then show ?thesis
      using commit_line_bytes [OF idle1 l(2), of "encode_lines ls' @ [newline]"]
        commit_overflowing_line [OF idle1 _ len, of l] Cons
      by (auto simp: encode_lines_def)
  qed
  ultimately show ?thesis using r by auto
qed

lemma parse_lines_fields:
  "list_all2 (\<lambda>l f. field_from_string l = Inr f) ls fs \<Longrightarrow>
   parse_lines r ls = Inr (r\<lparr>r_fields := r_fields r @ fs\<rparr>)"
  by (induction ls fs arbitrary: r rule: list_all2_induct) (simp_all add: add_field_def)

lemma commit_request_lines:
  assumes "idle st" and "m_lines st = []" and "list_all short_line (name # ls)" and "length ls \<le> 14"
  shows "commit_bytes st (encode_request name ls @ rest) =
    (case parse_lines (make_request name) ls of
       Inl e \<Rightarrow> (Inl e, st\<lparr>m_lines := [] # ls\<rparr>, rest)
     | Inr r \<Rightarrow> (Inr (), st\<lparr>m_request := Some r\<rparr>, rest))"
proof -
  define st1 where "st1 = st\<lparr>m_lines := name # ls\<rparr>"
  have idle1: "idle st1" using assms(1) by (simp add: st1_def)
  have "commit_bytes st (encode_request name ls @ rest) = commit_bytes st1 ([newline] @ rest)"
    using commit_lines [OF assms(1,3), of "[newline] @ rest"] assms(2,4)
    by (simp add: encode_request_def st1_def max_line_count_def)
  also have "\<dots> = (case commit_line [newline] st1 of
     (Inl e, st') \<Rightarrow> (Inl e, st', rest) | (Inr _, st') \<Rightarrow> commit_bytes st' rest)"
    using commit_line_bytes [OF idle1, of "[]"] by simp
  also have "commit_line [newline] st1 =
      (case parse_lines (make_request name) ls of Inl e \<Rightarrow> (Inl e, st\<lparr>m_lines := [] # ls\<rparr>)
       | Inr r \<Rightarrow> (Inr (), st\<lparr>m_request := Some r\<rparr>))"
    using assms(1,2,4) idle1
    by (cases st) (auto simp: commit_line_pass append_line_def finish_line_def within_limits_def Let_def pop_line_def
        commit_request_def clear_lines_def st1_def max_line_count_def max_line_length_def split: sum.splits)
  finally show ?thesis by (auto split: sum.splits)
qed

section \<open>Bounds on what is stored\<close>

definition bounded_interpreter :: "ProtocolInterpreter \<Rightarrow> bool" where
  "bounded_interpreter st \<longleftrightarrow> length (m_lines st) \<le> max_line_count \<and>
     (\<forall>l\<in>set (m_lines st). length l \<le> max_line_length)"

lemma bounded_append_line:
  "bounded_interpreter st \<Longrightarrow> within_limits (m_lines (append_line st l)) \<Longrightarrow>
   bounded_interpreter (append_line st l)"
  by (auto simp: bounded_interpreter_def within_limits_def append_line_def dest: in_set_butlastD)

lemma bounded_edits:
  "bounded_interpreter (restart st)" "bounded_interpreter (clear_lines st)"
  "bounded_interpreter st \<Longrightarrow> bounded_interpreter (pop_line st)"
  "bounded_interpreter st \<Longrightarrow> m_lines st \<noteq> [] \<Longrightarrow> bounded_interpreter (finish_line st)"
  by (auto simp: bounded_interpreter_def restart_def clear_lines_def pop_line_def finish_line_def
      dest: in_set_butlastD) (metis diff_le_self le_trans last_in_set)+

lemma bounded_commit_request: "bounded_interpreter st \<Longrightarrow> bounded_interpreter (snd (commit_request st))"
  by (cases "m_lines st")
    (auto simp: bounded_interpreter_def commit_request_def Let_def max_line_count_def split: option.splits sum.splits)

lemma bounded_commit_line: "bounded_interpreter st \<Longrightarrow> bounded_interpreter (snd (commit_line l st))"
proof (cases "within_limits (m_lines (append_line st l))")
  case True
  assume "bounded_interpreter st"
  then have fin: "bounded_interpreter (finish_line (append_line st l))"
    using True by (simp add: bounded_append_line bounded_edits)
  then have "bounded_interpreter (snd (commit_request (pop_line (finish_line (append_line st l)))))"
    by (simp add: bounded_edits bounded_commit_request)
  with fin show ?thesis
    by (auto simp: commit_line_pass [OF True] Let_def bounded_edits split: prod.splits sum.splits)
next
  case False
  with check_fails [OF False] show ?thesis by (auto simp: commit_line_error bounded_edits)
qed

lemma bounded_commit_bytes: "bounded_interpreter st \<Longrightarrow> bounded_interpreter (fst (snd (commit_bytes st bs)))"
proof (induction st bs rule: commit_bytes.induct)
  case (1 st bs)
  obtain line rest where sp: "split_line bs = (line, rest)" by (cases "split_line bs")
  obtain q st1 where c: "commit_line line st = (q, st1)" by (cases "commit_line line st")
  have "bounded_interpreter st1" using bounded_commit_line [OF 1(2), of line] c by simp
  with 1 sp c show ?case by (subst commit_bytes.simps) (cases q, auto)
qed

section \<open>Properties\<close>



text \<open>
  C22: round trip. A request written as its name, one line per field and an empty line is
  read back as that name and those fields, in order, and the bytes after it are left for the
  next request; with fifteen or more field lines it is refused with \<open>too_many_fields\<close>, so
  fourteen fields is the exact capacity.
\<close>

theorem request_roundtrip:
  assumes "list_all short_line (name # ls)" and "list_all2 (\<lambda>l f. field_from_string l = Inr f) ls fs"
  shows "if length ls \<le> 14
         then commit_bytes (new_interpreter k) (encode_request name ls @ rest) =
           (Inr (), (new_interpreter k)\<lparr>m_request := Some \<lparr>r_name = name, r_fields = fs\<rparr>\<rparr>, rest)
         else \<exists>msg left. commit_bytes (new_interpreter k) (encode_request name ls) =
           (Inl (ProtocolError too_many_fields msg), new_interpreter k, left)"
proof (cases "length ls \<le> 14")
  case True
  then show ?thesis
    using commit_request_lines [of "new_interpreter k" name ls rest] assms
      parse_lines_fields [OF assms(2), of "make_request name"]
    by (simp add: new_interpreter_def make_request_def)
next
  case False
  have "restart (new_interpreter k) = new_interpreter k" by (simp add: restart_def new_interpreter_def)
  with commit_too_many_lines [of "new_interpreter k" "name # ls"] assms(1) False show ?thesis
    by (simp add: encode_request_def new_interpreter_def max_line_count_def)
qed

theorem request_roundtrip_witness:
  "commit_bytes (new_interpreter 0) (encode_request ''cd'' [''path:1'', ''all:true''] @ ''ls'') =
     (Inr (), (new_interpreter 0)\<lparr>m_request := Some \<lparr>r_name = ''cd'', r_fields =
        [\<lparr>f_name = ''path'', f_value = integer 1\<rparr>, \<lparr>f_name = ''all'', f_value = boolean True\<rparr>]\<rparr>\<rparr>, ''ls'')"
proof -
  have "field_from_string ''path:1'' = Inr \<lparr>f_name = ''path'', f_value = integer 1\<rparr>"
    and "field_from_string ''all:true'' = Inr \<lparr>f_name = ''all'', f_value = boolean True\<rparr>"
    using parse_number [of "''path''" 1] parse_bool(1) [of "''all''"]
    by (simp_all add: in_char_range_def char_code_def nat_to_string.simps digit_char_def char_of_def bit_0)
  then show ?thesis
    using request_roundtrip [of "''cd''" "[''path:1'', ''all:true'']"
        "[\<lparr>f_name = ''path'', f_value = integer 1\<rparr>, \<lparr>f_name = ''all'', f_value = boolean True\<rparr>]" 0 "''ls''"]
    by (simp add: short_line_def newline_def max_line_length_def)
qed

text \<open>
  C28: whatever bytes a client sends, the interpreter never holds more than sixteen lines of
  2048 bytes; the bound holds for a new interpreter, after every call of \<open>commit_bytes\<close>,
  failed calls included, and after a restart.
\<close>

theorem interpreter_memory_bounded:
  "bounded_interpreter (new_interpreter k) \<and>
   (bounded_interpreter st \<longrightarrow> bounded_interpreter (fst (snd (commit_bytes st bs)))) \<and>
   bounded_interpreter (restart st)"
  using bounded_commit_bytes bounded_edits(1)
  by (auto simp: bounded_interpreter_def new_interpreter_def)

theorem interpreter_memory_bounded_witness:
  "bounded_interpreter (fst (snd (commit_bytes (new_interpreter 0) (replicate 5000 newline))))"
  using interpreter_memory_bounded [of 0 "new_interpreter 0" "replicate 5000 newline"] by blast

end
