(* ===== verification/Client_Session.thy ===== *)
theory Client_Session
  imports Transfers Interpreter
begin

text \<open>
  One connection (\<open>server/client.hpp\<close>, \<open>server/client.cpp\<close>): the object that owns the
  interpreter, the command executor, the sender and the two transfer managers of a client and
  connects them. An event on the socket makes it read and interpret input, execute requests,
  and write responses or file content. The kernel's answers to the calls of one event are
  inputs of the model; what it writes to the socket is a result.
\<close>

section \<open>Events\<close>

type_synonym EventType = "32 word"

definition ev_in :: EventType where "ev_in = 0x1"
definition ev_out :: EventType where "ev_out = 0x4"
definition edge_triggered :: EventType where "edge_triggered = 0x80000000"
definition one_shot :: EventType where "one_shot = 0x40000000"

definition has_event :: "EventType \<Rightarrow> EventType \<Rightarrow> bool" where
  "has_event events e \<longleftrightarrow> and events e \<noteq> 0"

section \<open>State\<close>

record Client =
  c_context :: ClientContext
  c_pending_input :: bytes
  c_interpreter :: ProtocolInterpreter
  c_sender :: Sender
  c_download_manager :: DownloadManager
  c_upload_manager :: UploadManager

record session =
  ss_world :: world
  ss_client :: Client

definition new_client :: "nat \<Rightarrow> Client" where
  "new_client stale = \<lparr>c_context = new_client_context, c_pending_input = [], c_interpreter = new_interpreter stale,
     c_sender = new_sender, c_download_manager = new_download_manager, c_upload_manager = new_upload_manager\<rparr>"

record io_round =
  io_reads :: "read_answer list"
  io_writes :: "io_answer list"
  io_sendfile :: io_answer

abbreviation context_of :: "session \<Rightarrow> ClientContext" where
  "context_of s \<equiv> c_context (ss_client s)"

definition on_conn :: "(Client \<Rightarrow> Client) \<Rightarrow> session \<Rightarrow> session" where
  "on_conn f s = s\<lparr>ss_client := f (ss_client s)\<rparr>"

definition set_context :: "ClientContext \<Rightarrow> session \<Rightarrow> session" where
  "set_context ctx = on_conn (\<lambda>c. c\<lparr>c_context := ctx\<rparr>)"

definition put_response :: "Response \<Rightarrow> session \<Rightarrow> session" where
  "put_response r = on_conn (\<lambda>c. c\<lparr>c_sender := add_response r (c_sender c)\<rparr>)"

text \<open>The part of the session that a command works on.\<close>

definition exec_of :: "session \<Rightarrow> exec" where
  "exec_of s = \<lparr>ex_world = ss_world s, ex_client = context_of s\<rparr>"

definition with_exec :: "exec \<Rightarrow> session \<Rightarrow> session" where
  "with_exec x s = set_context (ex_client x) (s\<lparr>ss_world := ex_world x\<rparr>)"

definition is_alive :: "Client \<Rightarrow> bool" where
  "is_alive c \<longleftrightarrow> m_alive (c_context c)"

definition get_required_events :: "Client \<Rightarrow> exn + EventType" where
  "get_required_events c =
     (let mode = m_mode (c_context c)
      in if c_pending_input c \<noteq> [] \<and> mode = mode_command \<or> has_responses (c_sender c) \<or> mode = mode_download
         then Inr ev_out
         else if mode = mode_command \<or> mode = mode_upload then Inr ev_in
         else Inl (RuntimeError ''Unexpected event required by client''))"

section \<open>Executing a request\<close>

definition client_start_download :: "session \<Rightarrow> (exn + unit) \<times> session" where
  "client_start_download s =
     (case get_download_token (exec_of s) of
        (Inr (Some i), x) \<Rightarrow>
          (case start_download i (ex_world x) (c_download_manager (ss_client s)) of
             (r, w, m) \<Rightarrow> (r, on_conn (\<lambda>c. c\<lparr>c_download_manager := m\<rparr>) (with_exec (x\<lparr>ex_world := w\<rparr>) s)))
      | (_, x) \<Rightarrow> (Inl (NullDereference ''download_token''), with_exec x s))"

definition client_start_upload :: "session \<Rightarrow> (exn + unit) \<times> session" where
  "client_start_upload s =
     (case get_upload_token (exec_of s) of
        (Inr (Some i), x) \<Rightarrow>
          (case start_upload i (ex_world x) (c_upload_manager (ss_client s)) of
             (r, w, m) \<Rightarrow> (r, on_conn (\<lambda>c. c\<lparr>c_upload_manager := m\<rparr>) (with_exec (x\<lparr>ex_world := w\<rparr>) s)))
      | (_, x) \<Rightarrow> (Inl (NullDereference ''upload_token''), with_exec x s))"

definition error_response :: "ProtocolCode \<Rightarrow> string \<Rightarrow> string \<Rightarrow> Response" where
  "error_response code name msg = get_response (add_line msg (set_command_name name (set_code code new_builder)))"

definition execute_command :: "env \<Rightarrow> Request \<Rightarrow> session \<Rightarrow> (exn + unit) \<times> session" where
  "execute_command e request s =
     (case run_command e (r_name request) (r_fields request) (exec_of s) of
        (Inl (ProtocolError code msg), x) \<Rightarrow>
          (Inr (), put_response (error_response code (r_name request) msg) (with_exec x s))
      | (Inl err, x) \<Rightarrow> (Inl err, with_exec x s)
      | (Inr response, x) \<Rightarrow>
          let s' = with_exec x s
          in if m_mode (context_of s') = mode_download then client_start_download s'
             else
               let s'' = put_response response s'
               in if m_mode (context_of s'') = mode_upload then client_start_upload s'' else (Inr (), s''))"

section \<open>Handling input\<close>

definition set_interpreter :: "ProtocolInterpreter \<Rightarrow> session \<Rightarrow> session" where
  "set_interpreter it = on_conn (\<lambda>c. c\<lparr>c_interpreter := it\<rparr>)"

definition handle_request :: "env \<Rightarrow> session consumer" where
  "handle_request e s input =
     (case commit_bytes (c_interpreter (ss_client s)) input of
        (Inl (ProtocolError code msg), it, rest) \<Rightarrow>
          (Inr (), set_interpreter (restart it) (put_response (error_response code ''<interpreter>'' msg) s), rest)
      | (Inl err, it, rest) \<Rightarrow> (Inl err, set_interpreter it s, rest)
      | (Inr _, it, rest) \<Rightarrow>
          if has_available_request it then
            (case get_request it of
               Inl err \<Rightarrow> (Inl err, set_interpreter it s, rest)
             | Inr (request, it') \<Rightarrow>
                 (case execute_command e request (set_interpreter it' s) of (r, s') \<Rightarrow> (r, s', rest)))
          else (Inr (), set_interpreter it s, rest))"

definition handle_upload :: "session consumer" where
  "handle_upload s input =
     (case upload_commit_bytes (ss_world s, c_upload_manager (ss_client s)) input of
        (r, (w, m), rest) \<Rightarrow>
          let s' = on_conn (\<lambda>c. c\<lparr>c_upload_manager := m\<rparr>) (s\<lparr>ss_world := w\<rparr>)
          in case r of
               Inl err \<Rightarrow> (Inl err, s', rest)
             | Inr _ \<Rightarrow>
                 if upload_has_finished m
                 then (Inr (), set_context ((context_of s')\<lparr>m_mode := mode_command\<rparr>) s', rest)
                 else (Inr (), s', rest))"

text \<open>One turn of the loop of \<open>handle_input\<close>. In download mode the input is put aside.\<close>

definition input_step :: "env \<Rightarrow> session consumer" where
  "input_step e s input =
     (case m_mode (context_of s) of
        mode_command \<Rightarrow> handle_request e s input
      | mode_download \<Rightarrow> (Inr (), on_conn (\<lambda>c. c\<lparr>c_pending_input := input\<rparr>) s, [])
      | mode_upload \<Rightarrow> handle_upload s input)"

text \<open>
  The loop ends: a turn in command mode uses up input or a complete request, a turn in upload
  mode uses up input or goes back to command mode.
\<close>

definition pending_work :: "session \<Rightarrow> bytes \<Rightarrow> nat" where
  "pending_work s input = 3 * length input + (if m_request (c_interpreter (ss_client s)) \<noteq> None then 2 else 0) +
     (if m_mode (context_of s) = mode_upload then 1 else 0)"

lemma session_simps [simp]:
  "ss_world (on_conn f s) = ss_world s" "ss_client (on_conn f s) = f (ss_client s)"
  "ss_world (set_context ctx s) = ss_world s" "c_context (ss_client (set_context ctx s)) = ctx"
  "c_interpreter (ss_client (set_context ctx s)) = c_interpreter (ss_client s)"
  "ss_world (put_response r s) = ss_world s" "c_context (ss_client (put_response r s)) = c_context (ss_client s)"
  "c_interpreter (ss_client (put_response r s)) = c_interpreter (ss_client s)"
  "ss_world (with_exec x s) = ex_world x" "c_context (ss_client (with_exec x s)) = ex_client x"
  "c_interpreter (ss_client (with_exec x s)) = c_interpreter (ss_client s)"
  "ss_world (set_interpreter it s) = ss_world s" "c_context (ss_client (set_interpreter it s)) = c_context (ss_client s)"
  "c_interpreter (ss_client (set_interpreter it s)) = it"
  by (simp_all add: on_conn_def set_context_def put_response_def with_exec_def set_interpreter_def)

lemma start_interpreter:
  "client_start_download s = (r, s') \<Longrightarrow> c_interpreter (ss_client s') = c_interpreter (ss_client s)"
  "client_start_upload s = (r, s') \<Longrightarrow> c_interpreter (ss_client s') = c_interpreter (ss_client s)"
  by (auto simp: client_start_download_def client_start_upload_def get_download_token_def get_upload_token_def
      split: prod.splits option.splits)

lemma execute_command_interpreter:
  "execute_command e q s = (r, s') \<Longrightarrow> c_interpreter (ss_client s') = c_interpreter (ss_client s)"
  by (auto simp: execute_command_def Let_def dest: start_interpreter
      split: prod.splits sum.splits exn.splits if_splits)

lemma commit_bytes_consumes:
  assumes "commit_bytes st xs = (r, st', zs)" and "xs \<noteq> []" and "m_request st = None"
  shows "length zs < length xs"
  using assms
proof (induction st xs rule: commit_bytes.induct)
  case (1 st bs)
  obtain line rest where sp: "split_line bs = (line, rest)" by (cases "split_line bs")
  obtain q st1 where c: "commit_line line st = (q, st1)" by (cases "commit_line line st")
  have shorter: "length rest < length bs"
    using split_line_append [OF sp] split_line_nonempty [OF 1(3) sp] by simp
  note run = 1(2) [unfolded commit_bytes_step [OF 1(3,4) sp] c prod.case]
  show ?case
  proof (cases q)
    case (Inl err)
    with run shorter show ?thesis by simp
  next
    case (Inr u)
    with run have run': "commit_bytes st1 rest = (r, st', zs)" by simp
    show ?thesis
    proof (cases "rest \<noteq> [] \<and> m_request st1 = None")
      case True
      then have "length zs < length rest"
        using 1(1) [OF _ sp [symmetric] c [symmetric] Inr] run' 1(3,4) by (auto simp: has_available_request_def)
      then show ?thesis using shorter by simp
    next
      case False
      then have "zs = rest" using run' by (cases "rest = []") auto
      then show ?thesis using shorter by simp
    qed
  qed
qed

lemma handle_request_progress:
  assumes "handle_request e s input = (Inr (), s', rest)" and "rest \<noteq> []"
  shows "3 * length rest + 1 < 3 * length input + (if m_request (c_interpreter (ss_client s)) \<noteq> None then 2 else 0)"
    and "m_request (c_interpreter (ss_client s')) = None"
proof -
  let ?it = "c_interpreter (ss_client s)"
  obtain r it zs where run: "commit_bytes ?it input = (r, it, zs)" by (cases "commit_bytes ?it input")
  have zs: "zs = rest"
    using assms(1) run
    by (auto simp: handle_request_def split: sum.splits exn.splits prod.splits if_splits)
  show "3 * length rest + 1 < 3 * length input + (if m_request ?it \<noteq> None then 2 else 0)"
  proof (cases "m_request ?it = None")
    case True
    have "input \<noteq> []" using run zs assms(2) by auto
    from commit_bytes_consumes [OF run this True] zs True show ?thesis by simp
  next
    case False
    then show ?thesis using run zs by simp
  qed
  have restarted: "m_request (restart it) = None" by (simp add: restart_def)
  show "m_request (c_interpreter (ss_client s')) = None"
    using assms(1) run restarted
    by (auto simp: handle_request_def get_request_def has_available_request_def dest!: execute_command_interpreter
        split: sum.splits exn.splits prod.splits if_splits option.splits)
qed

lemma upload_commit_progress:
  assumes "upload_commit_bytes (w, m) input = (Inr (), (w', m'), rest)" and "rest \<noteq> []"
  shows "length rest < length input \<or> upload_has_finished m' \<and> rest = input"
proof -
  obtain i t where i: "um_token m = Some i" "lock_objects (w_heap w) i = Some (Upload_lock t)"
    using assms(1)
    by (auto simp: upload_commit_bytes_def upload_token_of_def Option.bind_eq_Some_conv
        split: option.splits lock_object.splits)
  define n where "n = min (length input) (unat (get_remaining_bytes t))"
  note run = upload_commit_cases [OF i n_def]
  from run assms have rest: "rest = drop n input" and fin: "upload_has_finished m'"
    using upload_finish_manager(1) by (auto split: if_splits prod.splits sum.splits)
  then show ?thesis using assms(2) by (cases "n = 0") auto
qed

lemma handle_upload_progress:
  assumes "handle_upload s input = (Inr (), s', rest)" and "rest \<noteq> []" and "m_mode (context_of s) = mode_upload"
  shows "pending_work s' rest < pending_work s input"
proof -
  obtain r w m zs where run: "upload_commit_bytes (ss_world s, c_upload_manager (ss_client s)) input = (r, (w, m), zs)"
    by (metis surj_pair)
  with assms(1) have r: "r = Inr ()" "zs = rest" by (auto simp: handle_upload_def Let_def split: sum.splits if_splits)
  have "c_interpreter (ss_client s') = c_interpreter (ss_client s)"
    and "upload_has_finished m \<Longrightarrow> m_mode (context_of s') = mode_command"
    using assms(1) run r by (auto simp: handle_upload_def Let_def split: if_splits)
  with upload_commit_progress [OF run [unfolded r] assms(2)] assms(3) show ?thesis
    by (auto simp: pending_work_def)
qed

lemma input_step_progress:
  assumes "input_step e s input = (Inr (), s', rest)" and "rest \<noteq> []"
  shows "pending_work s' rest < pending_work s input"
proof (cases "m_mode (context_of s)")
  case mode_command
  with assms have "handle_request e s input = (Inr (), s', rest)" by (simp add: input_step_def)
  from handle_request_progress [OF this assms(2)] show ?thesis by (auto simp: pending_work_def)
next
  case mode_download
  with assms show ?thesis by (simp add: input_step_def)
next
  case mode_upload
  with assms have "handle_upload s input = (Inr (), s', rest)" by (simp add: input_step_def)
  then show ?thesis using handle_upload_progress assms(2) mode_upload by blast
qed

function handle_input :: "env \<Rightarrow> session \<Rightarrow> bytes \<Rightarrow> (exn + unit) \<times> session" where
  "handle_input e s input =
     (case input_step e s input of
        (Inl err, s', rest) \<Rightarrow> (Inl err, s')
      | (Inr u, s', rest) \<Rightarrow> if rest \<noteq> [] then handle_input e s' rest else (Inr (), s'))"
  by pat_completeness auto
termination
  by (relation "measure (\<lambda>(e, s, input). pending_work s input)") (auto simp: input_step_progress [unfolded One_nat_def])

declare handle_input.simps [simp del]

text \<open>
  Pending input is handled first; what a turn put aside meanwhile is overwritten by the rest
  of the span, which the loop left empty.
\<close>

definition handle_pending_input :: "env \<Rightarrow> session \<Rightarrow> (exn + unit) \<times> session" where
  "handle_pending_input e s =
     (case handle_input e s (c_pending_input (ss_client s)) of
        (Inl err, s') \<Rightarrow> (Inl err, s')
      | (Inr u, s') \<Rightarrow> (Inr (), on_conn (\<lambda>c. c\<lparr>c_pending_input := []\<rparr>) s'))"

definition handle_current_input :: "env \<Rightarrow> read_answer list \<Rightarrow> session \<Rightarrow> (exn + unit) \<times> session" where
  "handle_current_input e reads s =
     (case receiver_receive reads of
        Inl err \<Rightarrow> (Inl err, s)
      | Inr input \<Rightarrow> handle_input e s input)"

section \<open>Handling output\<close>

definition handle_executor_output :: "io_answer list \<Rightarrow> session \<Rightarrow> (exn + unit) \<times> session \<times> bytes" where
  "handle_executor_output answers s =
     (case sender_send answers (c_sender (ss_client s)) of
        (r, sender, out) \<Rightarrow> (map_sum id (\<lambda>_. ()) r, on_conn (\<lambda>c. c\<lparr>c_sender := sender\<rparr>) s, out))"

definition handle_download_manager_output :: "io_answer \<Rightarrow> session \<Rightarrow> (exn + unit) \<times> session \<times> bytes" where
  "handle_download_manager_output answer s =
     (case download_send answer (ss_world s) (c_download_manager (ss_client s)) of
        (r, w, m, out) \<Rightarrow>
          let s' = on_conn (\<lambda>c. c\<lparr>c_download_manager := m\<rparr>) (s\<lparr>ss_world := w\<rparr>)
          in case r of
               Inl err \<Rightarrow> (Inl err, s', out)
             | Inr _ \<Rightarrow>
                 if download_has_finished m
                 then (Inr (), set_context ((context_of s')\<lparr>m_mode := mode_command\<rparr>) s', out)
                 else (Inr (), s', out))"

definition handle_output :: "io_round \<Rightarrow> session \<Rightarrow> (exn + unit) \<times> session \<times> bytes" where
  "handle_output io s =
     (if has_responses (c_sender (ss_client s)) then handle_executor_output (io_writes io) s
      else if m_mode (context_of s) = mode_download then handle_download_manager_output (io_sendfile io) s
      else (Inr (), s, []))"

text \<open>An exception of any kind is caught here and ends the session.\<close>

definition kill_session :: "session \<Rightarrow> session" where
  "kill_session s = set_context ((context_of s)\<lparr>m_alive := False\<rparr>) s"

definition handle_events_input :: "env \<Rightarrow> EventType \<Rightarrow> io_round \<Rightarrow> session \<Rightarrow> (exn + unit) \<times> session" where
  "handle_events_input e events io s =
     (if c_pending_input (ss_client s) \<noteq> [] then handle_pending_input e s
      else if has_event events ev_in then handle_current_input e (io_reads io) s
      else (Inr (), s))"

definition handle :: "env \<Rightarrow> EventType \<Rightarrow> io_round \<Rightarrow> session \<Rightarrow> session \<times> bytes" where
  "handle e events io s =
     (case handle_events_input e events io s of
        (Inl err, s') \<Rightarrow> (kill_session s', [])
      | (Inr _, s') \<Rightarrow>
          if has_event events ev_out then
            (case handle_output io s' of
               (Inl err, s'', out) \<Rightarrow> (kill_session s'', out)
             | (Inr _, s'', out) \<Rightarrow> (s'', out))
          else (s', []))"

end
