(* ===== verification/Command_Frame.thy ===== *)
theory Command_Frame
  imports Command_Safety
begin

text \<open>
  What a command leaves alone: the tokens and locks that other parts of the program own (other
  clients, the transfer managers of this one). A command frees or changes only objects that
  the client context points to and objects it has allocated itself.
\<close>

definition foreign :: "(oid \<times> lock_object) set \<Rightarrow> (oid \<times> AuthToken) set \<Rightarrow> exec \<Rightarrow> bool" where
  "foreign L A s \<longleftrightarrow> heap_fresh (w_heap (ex_world s)) \<and>
     (\<forall>(i, l)\<in>L. lock_objects (w_heap (ex_world s)) i = Some l \<and> unowned i s) \<and>
     (\<forall>(j, a)\<in>A. auth_objects (w_heap (ex_world s)) j = Some a \<and> m_auth_token (ex_client s) \<noteq> Some j)"

text \<open>\<open>yields I m P\<close>: the action keeps \<open>I\<close>, and what it returns satisfies \<open>P\<close>.\<close>

definition yields :: "('s \<Rightarrow> bool) \<Rightarrow> ('e, 's, 'a) action \<Rightarrow> ('a \<Rightarrow> bool) \<Rightarrow> bool" where
  "yields I m P \<longleftrightarrow> (\<forall>s r t. I s \<longrightarrow> m s = (r, t) \<longrightarrow> I t \<and> (\<forall>x. r = Inr x \<longrightarrow> P x))"

lemma yields_keeps: "yields I m P \<Longrightarrow> keeps I m"
  unfolding yields_def keeps_def by (metis surj_pair snd_conv)

lemma keeps_bind_yields:
  "yields I m P \<Longrightarrow> (\<And>x. P x \<Longrightarrow> keeps I (f x)) \<Longrightarrow> keeps I (bind m f)"
  unfolding yields_def keeps_def bind_def by (fastforce split: prod.splits sum.splits)

lemma yields_bind:
  assumes "yields I m Q" and "\<And>x. Q x \<Longrightarrow> yields I (f x) P"
  shows "yields I (bind m f) P"
  unfolding yields_def
proof (intro allI impI)
  fix s r t
  assume s: "I s" and run: "bind m f s = (r, t)"
  obtain r1 s1 where one: "m s = (r1, s1)" by (cases "m s")
  with assms(1) s have "I s1" "\<forall>x. r1 = Inr x \<longrightarrow> Q x" by (auto simp: yields_def)
  with assms(2) run one show "I t \<and> (\<forall>x. r = Inr x \<longrightarrow> P x)"
    by (cases r1) (auto simp: bind_def yields_def)
qed

lemma yields_ret: "P x \<Longrightarrow> yields I (ret x) P"
  and yields_raise: "yields I (raise e) P"
  by (auto simp: yields_def action_defs)

lemma keeps_yields: "keeps I m \<Longrightarrow> yields I m (\<lambda>_. True)"
  by (auto simp: yields_def dest: keeps_result)

lemma yields_andthen: "keeps I m \<Longrightarrow> yields I n P \<Longrightarrow> yields I (andthen m n) P"
  unfolding andthen_def by (rule yields_bind [OF keeps_yields])

section \<open>Allocation\<close>

abbreviation new_lock_id :: "(oid \<times> lock_object) set \<Rightarrow> oid \<Rightarrow> bool" where
  "new_lock_id L i \<equiv> i \<notin> fst ` L"

lemma foreign_extend:
  assumes "foreign L A s" and "heap_fresh (w_heap w)"
    and "\<And>i l. lock_objects (w_heap (ex_world s)) i = Some l \<Longrightarrow> lock_objects (w_heap w) i = Some l"
    and "\<And>i a. auth_objects (w_heap (ex_world s)) i = Some a \<Longrightarrow> auth_objects (w_heap w) i = Some a"
  shows "foreign L A (s\<lparr>ex_world := w\<rparr>)"
  using assms by (auto simp: foreign_def unowned_def)

lemma yields_allocate_lock:
  assumes "\<And>w r w'. m w = (r, w') \<Longrightarrow> (case r of Inl e \<Rightarrow> w' = w | Inr i \<Rightarrow> \<exists>l. allocate_lock l w = (i, w'))"
  shows "yields (foreign L A) (with_world m) (new_lock_id L)"
  unfolding yields_def
proof (intro allI impI)
  fix s r t
  assume s: "foreign L A s" and run: "with_world m s = (r, t)"
  obtain w' where w': "m (ex_world s) = (r, w')" "t = s\<lparr>ex_world := w'\<rparr>"
    using run by (auto simp: with_world_def split: prod.splits)
  have fresh: "heap_fresh (w_heap (ex_world s))" using s by (simp add: foreign_def)
  show "foreign L A t \<and> (\<forall>x. r = Inr x \<longrightarrow> new_lock_id L x)"
  proof (cases r)
    case (Inl e)
    with assms [OF w'(1)] s w'(2) show ?thesis by simp
  next
    case (Inr i)
    with assms [OF w'(1)] obtain l where a: "allocate_lock l (ex_world s) = (i, w')" by auto
    have new: "lock_objects (w_heap (ex_world s)) i = None" using lock_registry.enter_new [OF fresh a] .
    have "foreign L A t"
      unfolding w'(2)
      by (rule foreign_extend [OF s lock_registry.enter_fresh [OF fresh a]])
        (use new lock_registry.enter_objects [OF a] allocate_lock_simps(1) [OF a] in auto)
    with new s Inr show ?thesis by (auto simp: foreign_def)
  qed
qed

lemma yields_locks:
  "yields (foreign L A) (with_world (lock_path p)) (new_lock_id L)"
  "yields (foreign L A) (with_world (download_file p)) (new_lock_id L)"
  "yields (foreign L A) (with_world (upload_file p n)) (new_lock_id L)"
  by (rule yields_allocate_lock;
      auto simp: lock_path_run download_file_run upload_file_run map_prod_def split: sum.splits prod.splits)+

lemma yields_authorize_user:
  "yields (foreign L A) (with_world (authorize_user c n pw)) (\<lambda>i. i \<notin> fst ` A)"
  unfolding yields_def
proof (intro allI impI)
  fix s r t
  assume s: "foreign L A s" and run: "with_world (authorize_user c n pw) s = (r, t)"
  obtain w' where w': "authorize_user c n pw (ex_world s) = (r, w')" "t = s\<lparr>ex_world := w'\<rparr>"
    using run by (auto simp: with_world_def split: prod.splits)
  let ?w1 = "remove_expired_auth_tokens (ex_world s)"
  have fresh: "heap_fresh (w_heap ?w1)" using s by (simp add: foreign_def world_simps)
  show "foreign L A t \<and> (\<forall>x. r = Inr x \<longrightarrow> x \<notin> fst ` A)"
  proof (cases r)
    case (Inl e)
    with authorize_error [OF w'(1) [unfolded Inl]] s w'(2) show ?thesis by (auto simp: foreign_def unowned_def)
  next
    case (Inr i)
    then obtain a where a: "allocate_auth a ?w1 = (i, w')"
      using w'(1) by (auto simp: authorize_user_cases Let_def map_prod_def split: sum.splits if_splits prod.splits)
    have new: "auth_objects (w_heap (ex_world s)) i = None"
      using auth_registry.enter_new [OF fresh a] by (simp add: world_simps)
    have "foreign L A t"
      unfolding w'(2)
      by (rule foreign_extend [OF s auth_registry.enter_fresh [OF fresh a]])
        (use new auth_registry.enter_objects [OF a] allocate_auth_simps(1) [OF a] in \<open>auto simp: world_simps\<close>)
    with new s Inr show ?thesis by (auto simp: foreign_def)
  qed
qed

section \<open>The operations of the client context\<close>

lemma foreign_on_world:
  assumes "foreign L A s" and "w_heap (g (ex_world s)) = w_heap (ex_world s)"
  shows "foreign L A (on_world g s)"
  using assms by (auto simp: foreign_def unowned_def on_world_def)

lemma keeps_foreign_on_disk: "keeps (foreign L A) (on_disk f)"
  by (auto simp: keeps_def on_disk_def world_simps intro!: foreign_on_world split: prod.splits)

lemma keeps_foreign_ops:
  "keeps (foreign L A) kill" "keeps (foreign L A) (set_mode m)" "keeps (foreign L A) (set_auth_token None)"
  "keeps (foreign L A) logout"
  by (auto simp: keeps_def foreign_def unowned_def kill_def set_mode_def set_auth_token_def logout_def world_simps
      heap_fresh_ops free_auth_other split: prod.splits)

lemma keeps_foreign_set_auth_token: "i \<notin> fst ` A \<Longrightarrow> keeps (foreign L A) (set_auth_token (Some i))"
proof (rule keepsI)
  fix s
  assume i: "i \<notin> fst ` A" and s: "foreign L A s"
  then have other: "auth_objects (free_auth (Some i) h) j = auth_objects h j" if "(j, a) \<in> A" for j a h
    using that by (intro free_auth_other) force
  have "foreign L A (on_heap (free_auth (Some i)) s)"
    using s other by (auto simp: foreign_def unowned_def world_simps heap_fresh_ops)
  moreover have "foreign L A (on_client (\<lambda>c. c\<lparr>m_auth_token := Some i, m_auth_try_count := 0\<rparr>) s)"
    using s i by (force simp: foreign_def unowned_def world_simps)
  ultimately show "foreign L A (snd (set_auth_token (Some i) s))"
    by (simp add: set_auth_token_def andthen_def)
qed

lemma foreign_free_lock:
  assumes "foreign L A s" and "\<And>i l. (i, l) \<in> L \<Longrightarrow> p \<noteq> Some i"
  shows "foreign L A (on_heap (free_lock p) s)"
  using assms by (auto simp: foreign_def unowned_def world_simps heap_fresh_ops free_lock_other)

lemma foreign_set_lock:
  assumes "foreign L A s" and "new_lock_id L i" and "lock_objects (w_heap (ex_world s)) i \<noteq> None"
  shows "foreign L A (on_heap (set_lock i l) s)"
  using assms by (force simp: foreign_def unowned_def world_simps heap_fresh_ops)

lemma foreign_unowned: "foreign L A s \<Longrightarrow> (i, l) \<in> L \<Longrightarrow> unowned i s"
  by (auto simp: foreign_def)

lemma keeps_foreign_pointers:
  assumes "new_lock_id L i"
  shows "keeps (foreign L A) (set_path_lock i)" and "keeps (foreign L A) (set_download_token (Some i))"
    and "keeps (foreign L A) (set_upload_token (Some i))"
proof -
  have "foreign L A (on_client f (on_heap (free_lock p) s))"
    if s: "foreign L A s" and p: "p \<in> {m_current_path_lock (ex_client s), m_download_token (ex_client s), m_upload_token (ex_client s)}"
      and f: "\<And>j. unowned j s \<Longrightarrow> j \<noteq> i \<Longrightarrow> unowned j (on_client f s)" "m_auth_token (f (ex_client s)) = m_auth_token (ex_client s)"
    for f p s
  proof -
    have "foreign L A (on_heap (free_lock p) s)"
      using foreign_free_lock [OF s] foreign_unowned [OF s] p unfolding unowned_def by blast
    moreover have "unowned j (on_client f (on_heap (free_lock p) s))" if "(j, l) \<in> L" for j l
    proof -
      have "j \<noteq> i" using that assms by force
      from f(1) [OF foreign_unowned [OF s that] this] show ?thesis by (simp add: unowned_def world_simps)
    qed
    ultimately show ?thesis using f(2) by (fastforce simp: foreign_def world_simps)
  qed
  note this [intro]
  show "keeps (foreign L A) (set_path_lock i)" and "keeps (foreign L A) (set_download_token (Some i))"
    and "keeps (foreign L A) (set_upload_token (Some i))"
    by (auto simp: keeps_def set_path_lock_def set_download_token_def set_upload_token_def unowned_def world_simps)
qed

lemma keeps_foreign_set_current_path: "keeps (foreign L A) (set_current_path q)"
proof (rule keepsI)
  fix s
  assume s: "foreign L A s"
  show "foreign L A (snd (set_current_path q s))"
  proof (cases "\<exists>i l. m_current_path_lock (ex_client s) = Some i \<and> path_lock_of s = Some l")
    case True
    then obtain i l where i: "m_current_path_lock (ex_client s) = Some i" "path_lock_of s = Some l" by blast
    have "new_lock_id L i" using foreign_unowned [OF s] i(1) by (fastforce simp: unowned_def)
    moreover have "lock_objects (w_heap (ex_world s)) i \<noteq> None" using i by (simp add: path_lock_of_def)
    ultimately show ?thesis using foreign_set_lock [OF s] i by (simp add: set_current_path_def)
  qed (use s in \<open>auto simp: set_current_path_def split: option.splits\<close>)
qed

lemma keeps_foreign_update_upload: "new_lock_id L i \<Longrightarrow> keeps (foreign L A) (update_upload i f)"
  by (auto simp: keeps_def update_upload_def foreign_set_lock split: option.splits lock_object.splits)

section \<open>The commands\<close>

lemmas foreign_readers = reader_keeps [OF keeps_readers(1)] reader_keeps [OF keeps_readers(2)]
  reader_keeps [OF keeps_readers(3)] reader_keeps [OF keeps_readers(4)] reader_keeps [OF keeps_readers(5)]

lemma keeps_foreign_auth: "keeps (foreign L A) (execute_auth e u p rb)"
proof -
  have handler: "keeps (foreign L A) (case x of
          ProtocolError code msg \<Rightarrow>
            andthen
              (if code = invalid_credentials then
                 andthen (set_auth_token None)
                 (bind (gets (\<lambda>s. get_auth_try_count (ex_client s))) (\<lambda>n.
                   if n = max_try_count then kill else ret ()))
               else ret ())
              (raise x)
        | _ \<Rightarrow> raise x)" for x
    by (cases x) (auto intro!: keeps_intros keeps_foreign_ops)
  show ?thesis
    unfolding execute_auth_def
    by (intro keeps_bind foreign_readers keeps_catching handler keeps_bind_yields [OF yields_authorize_user]
        keeps_bind_yields [OF yields_locks(1)] keeps_andthen keeps_foreign_set_auth_token keeps_foreign_pointers
        keeps_gets keeps_ret)
qed

lemma keeps_foreign_dl: "keeps (foreign L A) (execute_dl n k rb)"
proof -
  have "keeps (foreign L A) (\<lambda>s. case lock_objects (w_heap (ex_world s)) token of
         Some (Download_lock t) \<Rightarrow>
           (case download_set_file_offset k t of
              Inl x \<Rightarrow> raise x (on_heap (free_lock (Some token)) s)
            | Inr t' \<Rightarrow>
                andthen (modify (on_heap (set_lock token (Download_lock t'))))
                (andthen (set_download_token (Some token))
                  (ret (add_line (nat_to_string (unat (dt_size t' - dt_offset t'))) rb))) s)
       | _ \<Rightarrow> raise (NullDereference ''token'') s)" (is "keeps _ ?m") if new: "new_lock_id L token" for token
  proof (rule keepsI)
    fix s
    assume s: "foreign L A s"
    have free: "foreign L A (on_heap (free_lock (Some token)) s)"
      by (rule foreign_free_lock [OF s]) (use new in force)
    have store: "foreign L A (snd (set_download_token (Some token) (on_heap (set_lock token l) s)))"
      if "lock_objects (w_heap (ex_world s)) token \<noteq> None" for l
      using keepsD [OF keeps_foreign_pointers(2) [OF new] foreign_set_lock [OF s new that]] .
    show "foreign L A (snd (?m s))"
      using s free store
      by (auto simp: andthen_def bind_def split: option.splits lock_object.splits sum.splits prod.splits)
        (metis option.distinct(1) snd_conv)+
  qed
  then show ?thesis
    unfolding execute_dl_def
    by (intro keeps_bind foreign_readers keeps_bind_yields [OF yields_locks(2)])
qed

lemma yields_foreign_retry_upload: "yields (foreign L A) (retry_upload e) (new_lock_id L)"
proof -
  have last: "yields (foreign L A) (bind (with_world (upload_file p k)) (\<lambda>token.
      andthen (update_upload token f) (ret token))) (new_lock_id L)" for p k f
    by (intro yields_bind [OF yields_locks(3)] yields_andthen keeps_foreign_update_upload yields_ret)
  have tail: "yields (foreign L A) (case (removed, a, b, c) of
               (Inl x, _, _, _) \<Rightarrow> raise (system_error x ''remove'')
             | (Inr _, Some p, Some sz, Some off) \<Rightarrow>
                 bind (with_world (upload_file p (word_of_int sz))) (\<lambda>token.
                 andthen (update_upload token (add_file_offset (word_of_int off))) (ret token))
             | (Inr _, _, _, _) \<Rightarrow> raise (protocol_error no_upload_to_resume)) (new_lock_id L)"
    for removed :: "errno + bool" and a b c
    using last yields_raise by (auto split: sum.splits option.splits)
  have body: "yields (foreign L A) (case tab of
         None \<Rightarrow> raise (protocol_error no_upload_to_resume)
       | Some table \<Rightarrow>
           bind (on_disk (\<lambda>d. fs_remove d q)) (\<lambda>removed.
             case (removed, toml_as_string (map_of table ''path''), toml_as_integer (map_of table ''size''),
                   toml_as_integer (map_of table ''offset'')) of
               (Inl x, _, _, _) \<Rightarrow> raise (system_error x ''remove'')
             | (Inr _, Some p, Some sz, Some off) \<Rightarrow>
                 bind (with_world (upload_file p (word_of_int sz))) (\<lambda>token.
                 andthen (update_upload token (add_file_offset (word_of_int off))) (ret token))
             | (Inr _, _, _, _) \<Rightarrow> raise (protocol_error no_upload_to_resume))) (new_lock_id L)" for tab q
    using tail by (cases tab) (auto intro: yields_raise yields_bind [OF keeps_yields [OF keeps_foreign_on_disk]])
  show ?thesis
    unfolding retry_upload_def
    by (intro yields_bind [OF keeps_yields] foreign_readers keeps_gets body)
qed

lemma keeps_foreign_ul: "keeps (foreign L A) (execute_ul e n sz retry rb)"
proof -
  have "yields (foreign L A) (start_new_upload n sz) (new_lock_id L)"
    unfolding start_new_upload_def
    by (intro yields_bind [OF keeps_yields] foreign_readers yields_locks(3))
  with yields_foreign_retry_upload
  have start: "yields (foreign L A) (if retry then retry_upload e else start_new_upload n sz) (new_lock_id L)" by simp
  show ?thesis
    unfolding execute_ul_def
    by (intro keeps_bind_yields [OF start] keeps_bind foreign_readers keeps_foreign_update_upload keeps_andthen
        keeps_foreign_pointers keeps_foreign_ops keeps_ret)
qed

lemma keeps_foreign_files:
  "keeps (foreign L A) (execute_mkdir n rb)" "keeps (foreign L A) (execute_rm n rb)"
  "keeps (foreign L A) (execute_rename x y rb)" "keeps (foreign L A) (execute_mv p n rb)"
  "keeps (foreign L A) (execute_cp p n rb)"
  unfolding execute_mkdir_def execute_rm_def execute_rename_def execute_mv_def execute_cp_def
  by (intro keeps_intros foreign_readers keeps_foreign_on_disk keeps_cases)+

lemma keeps_foreign_execute: "keeps (foreign L A) (execute e c rb)"
proof (cases c)
  case (Cd p)
  show ?thesis unfolding Cd execute.simps execute_cd_def set_path_of_client_def
    by (intro keeps_intros foreign_readers keeps_foreign_set_current_path)
next
  case (Ls p b1 b2)
  show ?thesis unfolding Ls execute.simps execute_ls_def path_or_current_def
    by (intro keeps_intros keeps_cases foreign_readers)
next
  case (Tree p)
  show ?thesis unfolding Tree execute.simps execute_tree_def path_or_current_def
    by (intro keeps_intros keeps_cases foreign_readers)
qed (auto simp: execute_dls_def execute_name_def execute_perms_def execute_pwd_def keeps_foreign_auth keeps_foreign_dl
    keeps_foreign_ul keeps_foreign_files intro!: keeps_intros keeps_foreign_ops foreign_readers)

lemma run_command_foreign: "foreign L A s \<Longrightarrow> run_command e name flds s = (r, t) \<Longrightarrow> foreign L A t"
  by (erule run_command_cases) (auto dest: keeps_result [OF keeps_foreign_execute])

section \<open>Modes and tokens\<close>

text \<open>
  A command switches the mode only when it has put the token of the transfer in place, and
  only on success.
\<close>

abbreviation commanding :: "exec \<Rightarrow> bool" where
  "commanding s \<equiv> m_mode (ex_client s) = mode_command"

definition transfer_prepared :: "exec \<Rightarrow> bool" where
  "transfer_prepared s \<longleftrightarrow> (m_mode (ex_client s) = mode_upload \<longrightarrow> m_upload_token (ex_client s) \<noteq> None) \<and>
     (m_mode (ex_client s) = mode_download \<longrightarrow> m_download_token (ex_client s) \<noteq> None)"

lemma keeps_commanding_world: "keeps commanding (with_world m)"
  by (auto simp: keeps_def with_world_def split: prod.splits)

lemma keeps_commanding_ops:
  "keeps commanding kill" "keeps commanding (set_auth_token p)" "keeps commanding logout"
  "keeps commanding (set_path_lock i)" "keeps commanding (set_current_path q)" "keeps commanding (set_download_token d)"
  "keeps commanding (set_upload_token d)" "keeps commanding (on_disk f)" "keeps commanding (update_upload i g)"
  by (auto simp: keeps_def kill_def set_auth_token_def logout_def set_path_lock_def set_current_path_def
      set_download_token_def set_upload_token_def on_disk_def update_upload_def andthen_def world_simps
      split: option.splits lock_object.splits prod.splits)

lemma keeps_commanding_auth: "keeps commanding (execute_auth e u p rb)"
proof -
  have handler: "keeps commanding (case x of
          ProtocolError code msg \<Rightarrow>
            andthen
              (if code = invalid_credentials then
                 andthen (set_auth_token None)
                 (bind (gets (\<lambda>s. get_auth_try_count (ex_client s))) (\<lambda>n.
                   if n = max_try_count then kill else ret ()))
               else ret ())
              (raise x)
        | _ \<Rightarrow> raise x)" for x
    by (cases x) (auto intro!: keeps_intros keeps_commanding_ops)
  show ?thesis
    unfolding execute_auth_def
    by (intro keeps_intros foreign_readers handler keeps_commanding_ops keeps_commanding_world)
qed

lemma keeps_commanding_dl: "keeps commanding (execute_dl n k rb)"
proof -
  have "keeps commanding (\<lambda>s. case lock_objects (w_heap (ex_world s)) token of
         Some (Download_lock t) \<Rightarrow>
           (case download_set_file_offset k t of
              Inl x \<Rightarrow> raise x (on_heap (free_lock (Some token)) s)
            | Inr t' \<Rightarrow>
                andthen (modify (on_heap (set_lock token (Download_lock t'))))
                (andthen (set_download_token (Some token))
                  (ret (add_line (nat_to_string (unat (dt_size t' - dt_offset t'))) rb))) s)
       | _ \<Rightarrow> raise (NullDereference ''token'') s)" for token
    by (auto simp: keeps_def andthen_def bind_def set_download_token_def world_simps
        split: option.splits lock_object.splits sum.splits)
  then show ?thesis
    unfolding execute_dl_def by (intro keeps_bind foreign_readers keeps_commanding_world)
qed

lemma keeps_commanding_files:
  "keeps commanding (execute_mkdir n rb)" "keeps commanding (execute_rm n rb)"
  "keeps commanding (execute_rename x y rb)" "keeps commanding (execute_mv p n rb)"
  "keeps commanding (execute_cp p n rb)" "keeps commanding (execute_cd p rb)"
  "keeps commanding (execute_ls e p b1 b2 rb)" "keeps commanding (execute_tree p rb)"
  unfolding execute_mkdir_def execute_rm_def execute_rename_def execute_mv_def execute_cp_def execute_cd_def
    set_path_of_client_def execute_ls_def execute_tree_def path_or_current_def
  by (intro keeps_intros foreign_readers keeps_commanding_ops keeps_cases)+

lemma keeps_commanding_retry_upload: "keeps commanding (retry_upload e)"
proof -
  have tail: "keeps commanding (case (removed, a, b, c) of
               (Inl x, _, _, _) \<Rightarrow> raise (system_error x ''remove'')
             | (Inr _, Some p, Some sz, Some off) \<Rightarrow>
                 bind (with_world (upload_file p (word_of_int sz))) (\<lambda>token.
                 andthen (update_upload token (add_file_offset (word_of_int off))) (ret token))
             | (Inr _, _, _, _) \<Rightarrow> raise (protocol_error no_upload_to_resume))"
    for removed :: "errno + bool" and a b c
    by (auto split: sum.splits option.splits intro!: keeps_intros keeps_commanding_ops keeps_commanding_world)
  show ?thesis
    unfolding retry_upload_def
    by (intro keeps_bind foreign_readers keeps_gets keeps_case_option keeps_raise keeps_commanding_ops tail)
qed

lemma execute_ul_mode:
  assumes "commanding s" and "execute_ul e n sz retry rb s = (r, t)"
  shows "case r of Inl x \<Rightarrow> commanding t | Inr _ \<Rightarrow> transfer_prepared t"
proof -
  have start: "keeps commanding (if retry then retry_upload e else start_new_upload n sz)"
    unfolding start_new_upload_def
    by (intro keeps_if keeps_commanding_retry_upload keeps_bind foreign_readers keeps_commanding_world)
  obtain q s1 where one: "(if retry then retry_upload e else start_new_upload n sz) s = (q, s1)" by fastforce
  have s1: "commanding s1" using keeps_result [OF start assms(1) one] .
  show ?thesis
  proof (cases q)
    case (Inl x)
    with assms(2) one s1 show ?thesis by (auto simp: execute_ul_def bind_def)
  next
    case (Inr i)
    obtain q2 s2 where two: "get_auth_token s1 = (q2, s2)" by fastforce
    then have s2: "s2 = s1" by (auto simp: get_auth_token_def split: option.splits)
    obtain q3 s3 where three: "update_upload i (set_temporary_filename_stem (at_username (projr q2))) s1 = (q3, s3)" by fastforce
    have s3: "commanding s3" using keeps_result [OF keeps_commanding_ops(9) s1 three] .
    from assms(2) one two three s1 s3 Inr s2 show ?thesis
      by (cases q2; cases q3)
        (auto simp: execute_ul_def bind_def andthen_def set_upload_token_def set_mode_def transfer_prepared_def world_simps)
  qed
qed

lemma execute_mode:
  assumes "commanding s" and "execute e c rb s = (r, t)"
  shows "case r of Inl x \<Rightarrow> commanding t | Inr _ \<Rightarrow> transfer_prepared t"
proof -
  have prepared: "commanding t \<Longrightarrow> transfer_prepared t" by (simp add: transfer_prepared_def)
  consider n sz b where "c = Ul n sz b" | "c = Dls" | "keeps commanding (execute e c rb)"
    by (cases c) (auto simp: execute_name_def execute_perms_def execute_pwd_def keeps_commanding_auth keeps_commanding_dl
        keeps_commanding_files intro!: keeps_intros keeps_commanding_ops foreign_readers)
  then show ?thesis
  proof cases
    case 1
    with assms execute_ul_mode show ?thesis by simp
  next
    case 2
    with assms show ?thesis
      by (auto simp: execute_dls_def bind_def andthen_def set_mode_def has_download_token_def transfer_prepared_def
          world_simps split: if_splits)
  next
    case 3
    from keeps_result [OF this assms] prepared show ?thesis by (auto split: sum.splits)
  qed
qed

lemma run_command_mode:
  assumes "commanding s" and "run_command e name flds s = (r, t)"
  shows "case r of Inl x \<Rightarrow> commanding t | Inr _ \<Rightarrow> transfer_prepared t"
  using assms(2)
proof (cases rule: run_command_cases)
  case (executed c rb c' q)
  from execute_mode [OF assms(1) executed(3)] executed(4) show ?thesis by (cases q) auto
qed (use assms(1) in auto)

end
