(* ===== verification/Session_Safety.thy ===== *)
theory Session_Safety
  imports Client_Session Command_Frame
begin

text \<open>
  The invariant of a connection: every pointer of the client and of its transfer managers has
  a live object of the right kind, no two of them share one, and the mode of the protocol
  agrees with the managers. Every event keeps it, and it leaves the objects of all other
  connections alone.
\<close>

section \<open>The invariant\<close>

abbreviation heap_of :: "session \<Rightarrow> heap" where
  "heap_of s \<equiv> w_heap (ss_world s)"

abbreviation dm_of :: "session \<Rightarrow> oid option" where
  "dm_of s \<equiv> dm_token (c_download_manager (ss_client s))"

abbreviation um_of :: "session \<Rightarrow> oid option" where
  "um_of s \<equiv> um_token (c_upload_manager (ss_client s))"

text \<open>The pointers to locks: path, download and upload of the context, then those of the managers.\<close>

definition locks_apart :: "heap \<Rightarrow> oid option \<Rightarrow> oid option \<Rightarrow> oid option \<Rightarrow> oid option \<Rightarrow> oid option \<Rightarrow> bool" where
  "locks_apart h p d u dm um \<longleftrightarrow> points_to h is_plain p \<and> points_to h is_download d \<and> points_to h is_upload u \<and>
     points_to h is_download dm \<and> points_to h is_upload um \<and> (dm = None \<or> dm \<noteq> d) \<and> (um = None \<or> um \<noteq> u)"

definition session_base :: "session \<Rightarrow> bool" where
  "session_base s \<longleftrightarrow> world_ok (ss_world s) \<and>
     (\<forall>i. m_auth_token (context_of s) = Some i \<longrightarrow> auth_objects (heap_of s) i \<noteq> None) \<and>
     locks_apart (heap_of s) (m_current_path_lock (context_of s)) (m_download_token (context_of s))
       (m_upload_token (context_of s)) (dm_of s) (um_of s) \<and>
     sender_wf (c_sender (ss_client s))"

definition mode_ok :: "session \<Rightarrow> bool" where
  "mode_ok s \<longleftrightarrow> (m_mode (context_of s) = mode_upload \<longrightarrow> um_of s \<noteq> None)"

definition running :: "session \<Rightarrow> bool" where
  "running s \<longleftrightarrow> session_base s \<and> located (context_of s) \<and> mode_ok s \<and>
     ready_interpreter (c_interpreter (ss_client s)) \<and> bounded_interpreter (c_interpreter (ss_client s))"

text \<open>Objects that belong to somebody else.\<close>

definition lock_ptrs :: "session \<Rightarrow> oid set" where
  "lock_ptrs s = {i. Some i \<in> {m_current_path_lock (context_of s), m_download_token (context_of s),
     m_upload_token (context_of s), dm_of s, um_of s}}"

definition session_foreign :: "(oid \<times> lock_object) set \<Rightarrow> (oid \<times> AuthToken) set \<Rightarrow> session \<Rightarrow> bool" where
  "session_foreign L A s \<longleftrightarrow> heap_fresh (heap_of s) \<and>
     (\<forall>(i, l)\<in>L. lock_objects (heap_of s) i = Some l \<and> i \<notin> lock_ptrs s) \<and>
     (\<forall>(j, a)\<in>A. auth_objects (heap_of s) j = Some a \<and> m_auth_token (context_of s) \<noteq> Some j)"

definition outcome_ok :: "(exn + unit) \<Rightarrow> session \<Rightarrow> bool" where
  "outcome_ok r s \<longleftrightarrow> (case r of Inr _ \<Rightarrow> running s | Inl x \<Rightarrow> \<not> is_null x \<and> session_base s)"

lemma manager_simps [simp]:
  "c_download_manager (ss_client (set_context ctx s)) = c_download_manager (ss_client s)"
  "c_upload_manager (ss_client (set_context ctx s)) = c_upload_manager (ss_client s)"
  "c_sender (ss_client (set_context ctx s)) = c_sender (ss_client s)"
  "c_pending_input (ss_client (set_context ctx s)) = c_pending_input (ss_client s)"
  "c_download_manager (ss_client (put_response r s)) = c_download_manager (ss_client s)"
  "c_upload_manager (ss_client (put_response r s)) = c_upload_manager (ss_client s)"
  "c_sender (ss_client (put_response r s)) = add_response r (c_sender (ss_client s))"
  "c_download_manager (ss_client (with_exec x s)) = c_download_manager (ss_client s)"
  "c_upload_manager (ss_client (with_exec x s)) = c_upload_manager (ss_client s)"
  "c_sender (ss_client (with_exec x s)) = c_sender (ss_client s)"
  "c_download_manager (ss_client (set_interpreter it s)) = c_download_manager (ss_client s)"
  "c_upload_manager (ss_client (set_interpreter it s)) = c_upload_manager (ss_client s)"
  "c_sender (ss_client (set_interpreter it s)) = c_sender (ss_client s)"
  by (simp_all add: on_conn_def set_context_def put_response_def with_exec_def set_interpreter_def)

lemma exec_of_simps [simp]:
  "exec_of (put_response r s) = exec_of s" "exec_of (set_interpreter it s) = exec_of s" "exec_of (with_exec x s) = x"
  "ex_world (exec_of s) = ss_world s" "ex_client (exec_of s) = context_of s"
  by (simp_all add: exec_of_def)

lemma kind_iff:
  "is_plain l \<longleftrightarrow> (\<exists>p. l = PathLock p)" "is_upload l \<longleftrightarrow> (\<exists>t. l = Upload_lock t)"
  "is_download l \<longleftrightarrow> (\<exists>t. l = Download_lock t \<and> dt_offset t \<le> dt_size t)"
  by (auto simp: is_plain_def is_upload_def is_download_def split: lock_object.splits)

lemma locks_apart_edits:
  "locks_apart h p (Some i) u dm um \<Longrightarrow> locks_apart (free_lock dm h) p None u (Some i) um"
  "locks_apart h p (Some i) u dm um \<Longrightarrow> locks_apart (free_lock (Some i) h) p None u dm um"
  "locks_apart h p d (Some i) dm um \<Longrightarrow> locks_apart (free_lock um h) p d None dm (Some i)"
  "locks_apart h p d u dm um \<Longrightarrow> locks_apart (free_lock dm h) p d u None um"
  "locks_apart h p d u dm um \<Longrightarrow> locks_apart (free_lock um h) p d u dm None"
  "locks_apart h p d u dm (Some i) \<Longrightarrow> locks_apart (set_lock i (Upload_lock t) h) p d u dm (Some i)"
  by (auto simp: locks_apart_def points_to_def free_lock_def set_lock_def kind_iff split: option.splits)

lemma session_base_exec: "session_base s \<Longrightarrow> base_ok (exec_of s)"
  by (simp add: session_base_def base_ok_def client_ok_def locks_apart_def)

lemma session_foreign_exec: "session_foreign L A s \<Longrightarrow> foreign L A (exec_of s)"
  by (auto simp: session_foreign_def foreign_def unowned_def lock_ptrs_def)

lemma session_foreign_edit:
  assumes "session_foreign L A s" and "lock_ptrs s' \<subseteq> lock_ptrs s" and "m_auth_token (context_of s') = m_auth_token (context_of s)"
    and "heap_fresh (heap_of s')" and "auth_objects (heap_of s') = auth_objects (heap_of s)"
    and "\<And>i. i \<notin> lock_ptrs s \<Longrightarrow> lock_objects (heap_of s') i = lock_objects (heap_of s) i"
  shows "session_foreign L A s'"
  using assms unfolding session_foreign_def by fastforce

lemma session_edits:
  "session_base s \<Longrightarrow> response_wf r \<Longrightarrow> session_base (put_response r s)"
  "session_base s \<Longrightarrow> session_base (set_interpreter it s)"
  "mode_ok (put_response r s) = mode_ok s" "mode_ok (set_interpreter it s) = mode_ok s"
  "session_foreign L A (put_response r s) = session_foreign L A s"
  "session_foreign L A (set_interpreter it s) = session_foreign L A s"
  by (simp_all add: session_base_def mode_ok_def session_foreign_def lock_ptrs_def sender_wf_add)

section \<open>Executing a request\<close>

definition manager_locks :: "session \<Rightarrow> (oid \<times> lock_object) set" where
  "manager_locks s = {(i, l). (dm_of s = Some i \<or> um_of s = Some i) \<and> lock_objects (heap_of s) i = Some l}"

lemma points_to_Some: "points_to h k (Some i) \<longleftrightarrow> (\<exists>l. lock_objects h i = Some l \<and> k l)"
  by (simp add: points_to_def)

lemma managers_foreign:
  assumes "session_base s"
  shows "foreign (manager_locks s) {} (exec_of s)"
proof -
  have "heap_fresh (heap_of s)" using assms by (simp add: session_base_def world_ok_def)
  moreover have "unowned i (exec_of s)" if "dm_of s = Some i \<or> um_of s = Some i" for i
    using that assms by (auto simp: session_base_def locks_apart_def unowned_def points_to_def kind_iff)
  ultimately show ?thesis by (auto simp: foreign_def manager_locks_def)
qed

lemma session_base_with_exec:
  assumes "session_base s" and "base_ok x" and "foreign (manager_locks s) {} x"
  shows "session_base (with_exec x s)"
proof -
  have kept: "lock_objects (w_heap (ex_world x)) i = Some l \<and> unowned i x"
    if "dm_of s = Some i \<or> um_of s = Some i" "lock_objects (heap_of s) i = Some l" for i l
    using assms(3) that by (auto simp: foreign_def manager_locks_def)
  have "points_to (w_heap (ex_world x)) is_download (dm_of s)" "points_to (w_heap (ex_world x)) is_upload (um_of s)"
    using assms(1) kept unfolding session_base_def locks_apart_def points_to_def by blast+
  moreover have "dm_of s = None \<or> dm_of s \<noteq> m_download_token (ex_client x)"
    "um_of s = None \<or> um_of s \<noteq> m_upload_token (ex_client x)"
    using assms(1) kept unfolding session_base_def locks_apart_def points_to_def unowned_def by (metis not_None_eq)+
  ultimately show ?thesis using assms(1,2) by (simp add: session_base_def locks_apart_def base_ok_def client_ok_def)
qed

lemma start_download_effect:
  assumes "lock_objects (w_heap w) i = Some (Download_lock t)" and "start_download i w m = (r, w', m')"
  shows "(\<forall>x. r = Inl x \<longrightarrow> \<not> is_null x) \<and>
    (w' = set_heap (free_lock (dm_token m) (w_heap w)) w \<and> dm_token m' = Some i \<or>
     w' = set_heap (free_lock (Some i) (w_heap w)) w \<and> m' = m)"
  using assms by (auto simp: start_download_def Let_def split: if_splits option.splits node.splits)

lemma client_start_download_ok:
  assumes "session_base s" and "m_download_token (context_of s) \<noteq> None" and "client_start_download s = (r, s')"
  shows "session_base s' \<and> (\<forall>x. r = Inl x \<longrightarrow> \<not> is_null x) \<and> context_of s' = (context_of s)\<lparr>m_download_token := None\<rparr> \<and>
    um_of s' = um_of s \<and> (session_foreign L A s \<longrightarrow> session_foreign L A s')"
proof -
  obtain i t where i: "m_download_token (context_of s) = Some i" "lock_objects (heap_of s) i = Some (Download_lock t)"
    using assms(1,2) by (auto simp: session_base_def locks_apart_def points_to_def kind_iff)
  obtain w m where run: "start_download i (ss_world s) (c_download_manager (ss_client s)) = (r, w, m)"
    and s': "s' = on_conn (\<lambda>c. c\<lparr>c_download_manager := m\<rparr>)
      (with_exec \<lparr>ex_world = w, ex_client = (context_of s)\<lparr>m_download_token := None\<rparr>\<rparr> s)"
    using assms(3) i(1)
    by (auto simp: client_start_download_def get_download_token_def on_client_def exec_of_def split: prod.splits)
  note eff = start_download_effect [OF i(2) run]
  have locks: "locks_apart (heap_of s) (m_current_path_lock (context_of s)) (Some i) (m_upload_token (context_of s)) (dm_of s) (um_of s)"
    and w: "world_ok (ss_world s)" using assms(1) i(1) by (simp_all add: session_base_def)
  obtain p where p: "w = set_heap (free_lock p (heap_of s)) (ss_world s)" "p = dm_of s \<or> p = Some i"
    and ptrs: "locks_apart (free_lock p (heap_of s)) (m_current_path_lock (context_of s)) None (m_upload_token (context_of s)) (dm_token m) (um_of s)"
    and m: "dm_token m = Some i \<or> dm_token m = dm_of s"
    using eff locks_apart_edits(1,2) [OF locks] by auto
  have "session_base s'"
    using assms(1) ptrs by (simp add: session_base_def s' p(1) world_simps world_ok_heap_edits(2) [OF w])
  moreover have "session_foreign L A s'" if "session_foreign L A s"
    by (rule session_foreign_edit [OF that])
      (use m p(2) i(1) w in \<open>auto simp: s' p(1) lock_ptrs_def world_simps heap_fresh_ops world_ok_def free_lock_other\<close>)
  ultimately show ?thesis using eff by (simp add: s')
qed

lemma disk_ok_file_ops:
  "disk_ok d \<Longrightarrow> disk_ok (snd (file_open_trunc d p))" "disk_ok d \<Longrightarrow> disk_ok (snd (file_open_append d p))"
  "disk_ok d \<Longrightarrow> disk_ok (snd (open_partial t p d))"
  by (auto simp: file_open_trunc_def file_open_append_def open_partial_def disk_ok_put
      split: option.splits node.splits sum.splits)

lemma disk_ok_file_append: "disk_ok d \<Longrightarrow> disk_ok (file_append d p b)"
proof -
  assume ok: "disk_ok d"
  have "plain_name (last_component p)" if reg: "lookup (tree d) (l @ [last_component p]) = Some (File c)" for l c
  proof -
    obtain n where "lookup (tree d) l = Some n" "lookup n [last_component p] \<noteq> None"
      using reg by (cases "lookup (tree d) l") (auto simp: lookup_append)
    then obtain es where "lookup (tree d) l = Some (Dir es)" "map_of es (last_component p) \<noteq> None"
      by (cases n) (auto split: option.splits)
    moreover have "wf_node (Dir es)" using ok wf_lookup calculation(1) by (auto simp: disk_ok_def simp del: wf_node.simps)
    ultimately show ?thesis using wf_Dir_map_of by blast
  qed
  then show ?thesis using ok
    by (auto simp: file_append_def disk_ok_put split: option.splits node.splits sum.splits)
qed

lemma world_ok_heap_disk:
  "world_ok (set_heap h w) \<Longrightarrow> disk_ok d \<Longrightarrow> world_ok (set_disk d (set_heap h w))"
  "world_ok (set_heap h w) \<Longrightarrow> disk_ok d \<Longrightarrow> world_ok (set_heap h (set_disk d w))"
  by (auto simp: world_ok_def disk_ok_def sessions_ok_def locks_ok_def world_simps)

lemma start_upload_effect:
  assumes "world_ok w" and "lock_objects (w_heap w) i = Some (Upload_lock t)" and "start_upload i w m = (r, w', m')"
  shows "(\<forall>x. r = Inl x \<longrightarrow> \<not> is_null x) \<and> um_token m' = Some i \<and>
    (\<exists>d. disk_ok d \<and> w' = set_disk d (set_heap (free_lock (um_token m) (w_heap w)) w))"
proof -
  have ok: "disk_ok (w_disk w)" using assms(1) by (rule world_ok_disk)
  obtain q d where op: "open_partial t (get_partial_file_path (w_server w) (ut_temporary_filename_stem t)) (w_disk w) = (q, d)"
    by fastforce
  have d: "disk_ok d" using disk_ok_file_ops(3) [OF ok] op by (metis snd_conv)
  have "disk_ok d'" if "fs_remove d p = (x, d')" for p x d' using disk_ok_remove [OF d] that by (metis snd_conv)
  with assms(2,3) op d show ?thesis
    by (auto simp: start_upload_def Let_def ios_failure_def system_error_def split: sum.splits if_splits prod.splits)
qed

lemma client_start_upload_ok:
  assumes "session_base s" and "m_upload_token (context_of s) \<noteq> None" and "client_start_upload s = (r, s')"
  shows "session_base s' \<and> (\<forall>x. r = Inl x \<longrightarrow> \<not> is_null x) \<and> context_of s' = (context_of s)\<lparr>m_upload_token := None\<rparr> \<and>
    um_of s' \<noteq> None \<and> (session_foreign L A s \<longrightarrow> session_foreign L A s')"
proof -
  obtain i t where i: "m_upload_token (context_of s) = Some i" "lock_objects (heap_of s) i = Some (Upload_lock t)"
    using assms(1,2) by (auto simp: session_base_def locks_apart_def points_to_def kind_iff)
  obtain w m where run: "start_upload i (ss_world s) (c_upload_manager (ss_client s)) = (r, w, m)"
    and s': "s' = on_conn (\<lambda>c. c\<lparr>c_upload_manager := m\<rparr>)
      (with_exec \<lparr>ex_world = w, ex_client = (context_of s)\<lparr>m_upload_token := None\<rparr>\<rparr> s)"
    using assms(3) i(1)
    by (auto simp: client_start_upload_def get_upload_token_def on_client_def exec_of_def split: prod.splits)
  have locks: "locks_apart (heap_of s) (m_current_path_lock (context_of s)) (m_download_token (context_of s)) (Some i) (dm_of s) (um_of s)"
    and w: "world_ok (ss_world s)" using assms(1) i(1) by (simp_all add: session_base_def)
  note eff = start_upload_effect [OF w i(2) run]
  then obtain d where d: "disk_ok d" "w = set_disk d (set_heap (free_lock (um_of s) (heap_of s)) (ss_world s))" by auto
  have "world_ok w" unfolding d(2) by (rule world_ok_heap_disk(1) [OF world_ok_heap_edits(2) [OF w] d(1)])
  then have "session_base s'"
    using assms(1) eff locks_apart_edits(3) [OF locks] by (simp add: session_base_def s' d(2) world_simps)
  moreover have "session_foreign L A s'" if "session_foreign L A s"
    by (rule session_foreign_edit [OF that])
      (use eff i(1) w in \<open>auto simp: s' d(2) lock_ptrs_def world_simps heap_fresh_ops world_ok_def free_lock_other\<close>)
  ultimately show ?thesis using eff by (simp add: s')
qed

lemma response_of_builder [simp]: "response_wf (error_response c n m)"
  by (simp add: error_response_def)

lemma run_command_response: "run_command e name flds s = (Inr q, t) \<Longrightarrow> response_wf q"
proof (erule run_command_cases)
  fix c rb c' p
  assume "Inr q = map_sum id get_response p"
  then show "response_wf q" by (cases p) auto
qed auto

lemma session_foreign_with_exec:
  assumes "session_foreign L A s" and "foreign L A x"
  shows "session_foreign L A (with_exec x s)"
  using assms by (auto simp: session_foreign_def foreign_def lock_ptrs_def unowned_def)

text \<open>A command as a step of the session.\<close>

lemma run_command_session:
  assumes "running s" and "m_mode (context_of s) = mode_command"
    and run: "run_command e (r_name q) (r_fields q) (exec_of s) = (r1, x)"
  shows "case r1 of Inl y \<Rightarrow> throws_safely y x \<and> commanding x | Inr _ \<Rightarrow> exec_ok x \<and> transfer_prepared x"
    and "session_base (with_exec x s)" and "session_foreign L A s \<Longrightarrow> session_foreign L A (with_exec x s)"
proof -
  have base: "session_base s" and ok: "exec_ok (exec_of s)"
    using assms(1) by (auto simp: running_def exec_ok_def session_base_exec)
  have out: "case r1 of Inl y \<Rightarrow> throws_safely y x | Inr _ \<Rightarrow> exec_ok x"
    using runsD [OF runs_run_command ok run] .
  moreover have "case r1 of Inl y \<Rightarrow> commanding x | Inr _ \<Rightarrow> transfer_prepared x"
    using run_command_mode [OF _ run] assms(2) by simp
  ultimately show "case r1 of Inl y \<Rightarrow> throws_safely y x \<and> commanding x | Inr _ \<Rightarrow> exec_ok x \<and> transfer_prepared x"
    by (auto split: sum.splits)
  have bx: "base_ok x" using out by (auto simp: throws_safely_def exec_ok_def split: sum.splits)
  show "session_base (with_exec x s)"
    by (rule session_base_with_exec [OF base bx run_command_foreign [OF managers_foreign [OF base] run]])
  show "session_foreign L A s \<Longrightarrow> session_foreign L A (with_exec x s)"
    using session_foreign_with_exec run_command_foreign [OF session_foreign_exec run] by blast
qed

lemma execute_command_ok:
  assumes "running s" and "m_mode (context_of s) = mode_command" and "execute_command e q s = (r, s')"
  shows "outcome_ok r s' \<and> (session_foreign L A s \<longrightarrow> session_foreign L A s')"
proof -
  let ?it = "c_interpreter (ss_client s)"
  obtain r1 x where run: "run_command e (r_name q) (r_fields q) (exec_of s) = (r1, x)" by fastforce
  have it: "ready_interpreter ?it" "bounded_interpreter ?it" using assms(1) by (auto simp: running_def)
  note out = run_command_session(1) [OF assms(1,2) run] and wx = run_command_session(2) [OF assms(1,2) run]
    and fx = run_command_session(3) [OF assms(1,2) run, of L A]
  show ?thesis
  proof (cases r1)
    case (Inl y)
    with out have safe: "\<not> is_null y" "commanding x" "is_protocol y \<Longrightarrow> exec_ok x" by (auto simp: throws_safely_def)
    show ?thesis
      using assms(3) run Inl safe wx fx it
      by (cases y) (auto simp: execute_command_def outcome_ok_def running_def session_edits mode_ok_def exec_ok_def)
  next
    case (Inr rs)
    then have ex: "exec_ok x" and prep: "transfer_prepared x" using out by auto
    have rs: "response_wf rs" using run_command_response run Inr by blast
    consider (dl) "m_mode (ex_client x) = mode_download" | (ul) "m_mode (ex_client x) = mode_upload"
      | (cm) "m_mode (ex_client x) = mode_command" by (cases "m_mode (ex_client x)") auto
    then show ?thesis
    proof cases
      case dl
      with assms(3) run Inr have go: "client_start_download (with_exec x s) = (r, s')" by (simp add: execute_command_def Let_def)
      have "m_download_token (context_of (with_exec x s)) \<noteq> None" using prep dl by (simp add: transfer_prepared_def)
      from client_start_download_ok [OF wx this go] start_interpreter(1) [OF go] fx ex it dl
      show ?thesis
        by (auto simp: outcome_ok_def running_def mode_ok_def exec_ok_def located_def is_authorized_def split: sum.splits)
    next
      case ul
      with assms(3) run Inr have go: "client_start_upload (put_response rs (with_exec x s)) = (r, s')"
        by (simp add: execute_command_def Let_def)
      have "m_upload_token (context_of (put_response rs (with_exec x s))) \<noteq> None" using prep ul by (simp add: transfer_prepared_def)
      from client_start_upload_ok [OF session_edits(1) [OF wx rs] this go] start_interpreter(2) [OF go] fx ex it ul
      show ?thesis
        by (auto simp: outcome_ok_def running_def mode_ok_def exec_ok_def located_def is_authorized_def session_edits
            split: sum.splits)
    next
      case cm
      with assms(3) run Inr have "r = Inr ()" "s' = put_response rs (with_exec x s)" by (simp_all add: execute_command_def Let_def)
      with wx fx ex it rs cm show ?thesis
        by (simp add: outcome_ok_def running_def session_edits mode_ok_def exec_ok_def)
    qed
  qed
qed

section \<open>Handling an event\<close>

lemma commit_request_not_null: "commit_request st = (Inl x, st') \<Longrightarrow> \<not> is_null x"
proof -
  have field: "field_from_string l = Inl y \<Longrightarrow> \<not> is_null y" for l y
    by (auto simp: field_from_string_def field_of_value_def Let_def
        split: option.splits if_splits sum.splits)
  have "parse_lines q ls = Inl y \<Longrightarrow> \<not> is_null y" for q ls y
    by (induction ls arbitrary: q) (auto split: sum.splits dest: field)
  then show "commit_request st = (Inl x, st') \<Longrightarrow> \<not> is_null x"
    by (auto simp: commit_request_def Let_def split: option.splits sum.splits)
qed

lemma commit_bytes_not_null: "commit_bytes st xs = (Inl x, st', zs) \<Longrightarrow> \<not> is_null x"
proof (induction st xs rule: commit_bytes.induct)
  case (1 st bs)
  obtain line rest where sp: "split_line bs = (line, rest)" by (cases "split_line bs")
  obtain q st1 where c: "commit_line line st = (q, st1)" by (cases "commit_line line st")
  have go: "bs \<noteq> []" "m_request st = None"
    using 1(2) by (auto simp: has_available_request_def) (metis commit_bytes_done not_None_eq prod.inject sum.distinct(1))
  have line_safe: "\<not> is_null y" if "commit_line line st = (Inl y, st2)" for y st2
  proof (cases "within_limits (m_lines (append_line st line))")
    case True
    with that commit_request_not_null show ?thesis
      by (auto simp: commit_line_pass Let_def split: if_splits sum.splits prod.splits)
  next
    case False
    with that check_fails [OF False] show ?thesis by (auto simp: commit_line_error)
  qed
  show ?case
    using 1 commit_bytes_step [OF go sp] c sp go line_safe
    by (cases q) (auto simp: has_available_request_def)
qed

lemma handle_request_ok:
  assumes "running s" and "m_mode (context_of s) = mode_command" and "handle_request e s input = (r, s', rest)"
  shows "outcome_ok r s' \<and> (session_foreign L A s \<longrightarrow> session_foreign L A s')"
proof -
  let ?it = "c_interpreter (ss_client s)"
  obtain q it zs where run: "commit_bytes ?it input = (q, it, zs)" by (cases "commit_bytes ?it input")
  have s: "session_base s" "located (context_of s)" "mode_ok s" "ready_interpreter ?it" "bounded_interpreter ?it"
    using assms(1) by (simp_all add: running_def)
  have ready: "m_request it = None \<Longrightarrow> ready_interpreter it"
    using commit_bytes_laws [OF s(4) run] by simp
  have bounded: "bounded_interpreter it" using bounded_commit_bytes [OF s(5), of input] run by simp
  have fresh: "ready_interpreter (restart it)" "bounded_interpreter (restart it)"
    by (simp_all add: ready_interpreter_def restart_def bounded_interpreter_def)
  have upd: "running (set_interpreter it' s)" if "ready_interpreter it'" "bounded_interpreter it'" for it'
    using s that by (simp add: running_def session_edits)
  show ?thesis
  proof (cases q)
    case (Inl x)
    have safe: "\<not> is_null x" using commit_bytes_not_null run Inl by blast
    show ?thesis
      using assms(3) run Inl safe s fresh
      by (cases x) (auto simp: handle_request_def outcome_ok_def running_def session_edits)
  next
    case (Inr u)
    show ?thesis
    proof (cases "m_request it")
      case None
      with assms(3) run Inr have "r = Inr ()" "s' = set_interpreter it s"
        by (simp_all add: handle_request_def has_available_request_def)
      then show ?thesis using upd [OF ready [OF None] bounded] by (simp add: outcome_ok_def session_edits)
    next
      case (Some rq)
      obtain s1 where ex: "execute_command e rq (set_interpreter (restart it) s) = (r, s')"
        using assms(3) run Inr Some
        by (auto simp: handle_request_def has_available_request_def get_request_def split: prod.splits)
      from execute_command_ok [OF upd [OF fresh] _ ex] assms(2) show ?thesis by (simp add: session_edits)
    qed
  qed
qed

lemma upload_finish_effect:
  assumes "upload_finish t w m = (r, w', m')" and "disk_ok (w_disk w)"
  shows "(\<forall>x. r = Inl x \<longrightarrow> \<not> is_null x) \<and> (\<exists>d. disk_ok d \<and>
    (w' = set_disk d w \<and> m' = m \<or>
     w' = set_heap (free_lock (um_token m) (w_heap w)) (set_disk d w) \<and> m' = m\<lparr>um_token := None\<rparr> \<and> r = Inr ()))"
proof -
  obtain q d where ren: "fs_rename (w_disk w) (um_partial_file_name m) (ut_path t) = (q, d)" by fastforce
  have "disk_ok d" using disk_ok_rename [OF assms(2)] ren by (metis snd_conv)
  with assms(1) ren show ?thesis
    by (auto simp: upload_finish_def system_error_def world_simps split: option.splits)
qed

lemma upload_commit_effect:
  assumes "world_ok w" and "um_token m = Some i" and "lock_objects (w_heap w) i = Some (Upload_lock t)"
    and "upload_commit_bytes (w, m) bs = (r, (w', m'), rest)"
  shows "(\<forall>x. r = Inl x \<longrightarrow> \<not> is_null x) \<and> (\<exists>d t'. disk_ok d \<and> ut_path t' = ut_path t \<and>
    (w' = set_disk d (set_heap (set_lock i (Upload_lock t') (w_heap w)) w) \<and> m' = m \<or>
     w' = set_disk d (set_heap (free_lock (Some i) (set_lock i (Upload_lock t') (w_heap w))) w) \<and> m' = m\<lparr>um_token := None\<rparr>))"
proof -
  define n where "n = min (length bs) (unat (get_remaining_bytes t))"
  let ?t = "add_file_offset (of_nat n) t" and ?w = "upload_step n i t bs w m"
  have w: "\<exists>d. disk_ok d \<and> ?w = set_disk d (set_heap (set_lock i (Upload_lock ?t) (w_heap w)) w)"
    using disk_ok_file_append [OF world_ok_disk(1) [OF assms(1)], of "um_partial_file_name m" "take n bs"]
    by (auto simp: upload_step_def set_disk_def set_heap_def)
  then have dw: "disk_ok (w_disk ?w)" by (auto simp: world_simps)
  have twice: "set_disk d' (set_disk d v) = set_disk d' v" "set_heap h (set_disk d v) = set_disk d (set_heap h v)"
    "set_heap h (set_heap h' v) = set_heap h v" for d d' h h' v
    by (simp_all add: set_disk_def set_heap_def)
  have path: "ut_path ?t = ut_path t" by (simp add: add_file_offset_def)
  obtain q w2 m2 where fin: "upload_finish ?t ?w m = (q, w2, m2)" by (metis surj_pair)
  have "(\<exists>d. disk_ok d \<and> w' = set_disk d (set_heap (set_lock i (Upload_lock ?t) (w_heap w)) w) \<and> m' = m) \<or>
      (\<exists>d. disk_ok d \<and> w' = set_disk d (set_heap (free_lock (Some i) (set_lock i (Upload_lock ?t) (w_heap w))) w) \<and> m' = m\<lparr>um_token := None\<rparr>)"
    and "\<forall>x. r = Inl x \<longrightarrow> \<not> is_null x"
    using assms(4) upload_commit_cases [OF assms(2,3) n_def] fin upload_finish_effect [OF fin dw] w assms(2)
    by (auto simp: twice world_simps split: if_splits sum.splits)
  with path show ?thesis by blast
qed

lemma handle_upload_ok:
  assumes "running s" and "m_mode (context_of s) = mode_upload" and "handle_upload s input = (r, s', rest)"
  shows "outcome_ok r s' \<and> (session_foreign L A s \<longrightarrow> session_foreign L A s')"
proof -
  have base: "session_base s" and w: "world_ok (ss_world s)" using assms(1) by (auto simp: running_def session_base_def)
  obtain i t where i: "um_of s = Some i" "lock_objects (heap_of s) i = Some (Upload_lock t)"
    using assms(1,2) by (auto simp: running_def mode_ok_def session_base_def locks_apart_def points_to_def kind_iff)
  obtain q w' m' zs where run: "upload_commit_bytes (ss_world s, c_upload_manager (ss_client s)) input = (q, (w', m'), zs)"
    by (metis surj_pair)
  from upload_commit_effect [OF w i(1,2) run] obtain d t' h where
    safe: "\<forall>x. q = Inl x \<longrightarrow> \<not> is_null x" and d: "disk_ok d" "ut_path t' = ut_path t"
    and w': "w' = set_disk d (set_heap h (ss_world s))"
    and h: "h = set_lock i (Upload_lock t') (heap_of s) \<and> m' = c_upload_manager (ss_client s) \<or>
      h = free_lock (Some i) (set_lock i (Upload_lock t') (heap_of s)) \<and> m' = (c_upload_manager (ss_client s))\<lparr>um_token := None\<rparr>"
    by metis
  let ?c = "context_of s"
  let ?s = "on_conn (\<lambda>c. c\<lparr>c_upload_manager := m'\<rparr>) (s\<lparr>ss_world := w'\<rparr>)"
  have abs: "is_absolute (ut_path t')"
    using w i(2) d(2) by (auto simp: world_ok_def locks_ok_def) (metis get_locked_path.simps(3))
  have set: "world_ok (set_heap (set_lock i (Upload_lock t') (heap_of s)) (ss_world s))"
    using world_ok_heap_edits(3) [OF w] i(2) abs by simp
  have "world_ok (set_heap h (ss_world s))"
    using h set world_ok_heap_edits(2) [OF set, of "Some i"] by (auto simp: world_simps set_heap_def)
  then have ww: "world_ok w'" unfolding w' using d(1) by (rule world_ok_heap_disk(1))
  have locks: "locks_apart (heap_of s) (m_current_path_lock ?c) (m_download_token ?c) (m_upload_token ?c) (dm_of s) (Some i)"
    using base i(1) by (simp add: session_base_def)
  have la: "locks_apart h (m_current_path_lock ?c) (m_download_token ?c) (m_upload_token ?c) (dm_of s) (um_token m')"
    using h i(1) locks_apart_edits(6) [OF locks] locks_apart_edits(5) [OF locks_apart_edits(6) [OF locks]] by auto
  have auth: "auth_objects h = auth_objects (heap_of s)" using h by (auto simp: world_simps)
  have base': "session_base ?s" using base ww la auth by (simp add: session_base_def w' world_simps)
  have foreign: "session_foreign L A ?s" if "session_foreign L A s"
    by (rule session_foreign_edit [OF that])
      (use h i w ww auth in \<open>auto simp: w' lock_ptrs_def world_simps world_ok_def free_lock_other\<close>)
  have ctx: "session_base (set_context (c\<lparr>m_mode := md\<rparr>) t) = session_base t"
    "session_foreign L A (set_context (c\<lparr>m_mode := md\<rparr>) t) = session_foreign L A t" if "c = context_of t" for c md t
    using that by (simp_all add: session_base_def session_foreign_def lock_ptrs_def)
  show ?thesis
  proof (cases q)
    case (Inl x)
    with assms(3) run safe base' foreign show ?thesis by (auto simp: handle_upload_def Let_def outcome_ok_def)
  next
    case (Inr u)
    have um: "\<not> upload_has_finished m' \<Longrightarrow> um_token m' \<noteq> None" by (simp add: upload_has_finished_def)
    have s': "r = Inr ()" "s' = (if upload_has_finished m' then set_context (?c\<lparr>m_mode := mode_command\<rparr>) ?s else ?s)"
      using assms(3) run Inr by (auto simp: handle_upload_def Let_def split: if_splits)
    show ?thesis
      using assms(1) base' foreign um by (auto simp: s' outcome_ok_def running_def ctx mode_ok_def located_def is_authorized_def)
  qed
qed

lemma input_step_ok:
  assumes "running s" and "input_step e s input = (r, s', rest)"
  shows "outcome_ok r s' \<and> (session_foreign L A s \<longrightarrow> session_foreign L A s')"
proof (cases "m_mode (context_of s)")
  case mode_command
  with assms handle_request_ok show ?thesis by (simp add: input_step_def)
next
  case mode_download
  with assms show ?thesis
    by (auto simp: input_step_def outcome_ok_def running_def session_base_def mode_ok_def session_foreign_def lock_ptrs_def)
next
  case mode_upload
  with assms handle_upload_ok show ?thesis by (simp add: input_step_def)
qed

lemma handle_input_ok:
  "running s \<Longrightarrow> handle_input e s input = (r, s') \<Longrightarrow>
   outcome_ok r s' \<and> (session_foreign L A s \<longrightarrow> session_foreign L A s')"
proof (induction e s input arbitrary: r s' rule: handle_input.induct)
  case (1 e s input)
  obtain q s1 rest where step: "input_step e s input = (q, s1, rest)" by (cases "input_step e s input")
  note ok = input_step_ok [OF 1(2) step, of L A]
  show ?case
  proof (cases "\<exists>u. q = Inr u \<and> rest \<noteq> []")
    case True
    then obtain u where u: "q = Inr u" "rest \<noteq> []" by blast
    then have "running s1" using ok by (simp add: outcome_ok_def)
    moreover have "handle_input e s1 rest = (r, s')"
      using 1(3) step u by (subst (asm) handle_input.simps) simp
    ultimately show ?thesis using 1(1) [OF step [symmetric] u(1) refl u(2)] ok by auto
  next
    case False
    then have "r = q \<and> s' = s1"
      using 1(3) step by (subst (asm) handle_input.simps) (auto split: sum.splits)
    then show ?thesis using ok by simp
  qed
qed

lemma running_pending [simp]:
  "running (on_conn (\<lambda>c. c\<lparr>c_pending_input := p\<rparr>) s) = running s"
  "session_base (on_conn (\<lambda>c. c\<lparr>c_pending_input := p\<rparr>) s) = session_base s"
  "session_foreign L A (on_conn (\<lambda>c. c\<lparr>c_pending_input := p\<rparr>) s) = session_foreign L A s"
  by (simp_all add: running_def session_base_def mode_ok_def session_foreign_def lock_ptrs_def)

lemma handle_events_input_ok:
  assumes "running s" and "handle_events_input e events io s = (r, s')"
  shows "outcome_ok r s' \<and> (session_foreign L A s \<longrightarrow> session_foreign L A s')"
proof -
  have receive: "\<not> is_null x" if "receiver_receive a = Inl x" for a x
    using that by (auto simp: receiver_receive_def Let_def split: if_splits prod.splits)
  obtain q s1 where go: "handle_input e s (c_pending_input (ss_client s)) = (q, s1)" by fastforce
  note one = handle_input_ok [OF assms(1) go, of L A]
  have pending: "outcome_ok r s' \<and> (session_foreign L A s \<longrightarrow> session_foreign L A s')"
    if "handle_pending_input e s = (r, s')"
    using that go one by (cases q) (auto simp: handle_pending_input_def outcome_ok_def)
  have current: "outcome_ok r s' \<and> (session_foreign L A s \<longrightarrow> session_foreign L A s')"
    if "handle_current_input e a s = (r, s')" for a
    using that handle_input_ok [OF assms(1), of e _ r s' L A] assms(1) receive
    by (auto simp: handle_current_input_def outcome_ok_def running_def split: sum.splits)
  show ?thesis
    using assms pending current by (auto simp: handle_events_input_def outcome_ok_def split: if_splits)
qed

lemma download_send_heap:
  assumes "download_send a w m = (r, w', m', out)"
  shows "(\<forall>x. r = Inl x \<longrightarrow> \<not> is_null x) \<and> (w' = w \<and> dm_token m' = dm_token m \<or>
    w' = set_heap (free_lock (dm_token m) (w_heap w)) w \<and> dm_token m' = None)"
  using assms by (auto simp: download_send_def Let_def split: if_splits prod.splits)

lemma handle_output_ok:
  assumes "running s" and "handle_output io s = (r, s', out)"
  shows "outcome_ok r s' \<and> (session_foreign L A s \<longrightarrow> session_foreign L A s')"
proof -
  have s: "session_base s" "world_ok (ss_world s)" using assms(1) by (simp_all add: running_def session_base_def)
  consider (executor) "handle_executor_output (io_writes io) s = (r, s', out)"
    | (download) "handle_download_manager_output (io_sendfile io) s = (r, s', out)" "m_mode (context_of s) = mode_download"
    | (nothing) "r = Inr ()" "s' = s"
    using assms(2) by (auto simp: handle_output_def split: if_splits)
  then show ?thesis
  proof cases
    case executor
    obtain q sn o1 where send: "sender_send (io_writes io) (c_sender (ss_client s)) = (q, sn, o1)"
      by (metis surj_pair)
    have "sender_wf sn"
      using sender_source.emit_valid [of "c_sender (ss_client s)" "io_writes io" sn o1] s(1) send by (simp add: session_base_def)
    moreover have "\<not> is_null x" if "q = Inl x" for x
      using that send
      by (auto simp: sender_send_def sender_check_error_def Let_def split: if_splits prod.splits)
    ultimately show ?thesis
      using executor send assms(1)
      by (cases q) (auto simp: handle_executor_output_def outcome_ok_def running_def session_base_def mode_ok_def
          session_foreign_def lock_ptrs_def)
  next
    case download
    obtain q w m o1 where send: "download_send (io_sendfile io) (ss_world s) (c_download_manager (ss_client s)) = (q, w, m, o1)"
      by (metis surj_pair)
    note eff = download_send_heap [OF send]
    let ?s = "on_conn (\<lambda>c. c\<lparr>c_download_manager := m\<rparr>) (s\<lparr>ss_world := w\<rparr>)"
    have base: "session_base ?s"
      using eff s locks_apart_edits(4) world_ok_heap_edits(2) by (auto simp: session_base_def world_simps)
    have foreign: "session_foreign L A ?s" if "session_foreign L A s"
      by (rule session_foreign_edit [OF that])
        (use eff s(2) in \<open>auto simp: lock_ptrs_def world_simps world_ok_def heap_fresh_ops free_lock_other\<close>)
    show ?thesis
      using download send eff base foreign assms(1)
      by (auto simp: handle_download_manager_output_def Let_def outcome_ok_def running_def mode_ok_def session_base_def
          session_foreign_def lock_ptrs_def located_def is_authorized_def split: sum.splits if_splits)
  next
    case nothing
    with assms(1) show ?thesis by (simp add: outcome_ok_def)
  qed
qed

lemma kill_session_ok:
  "session_base s \<Longrightarrow> session_base (kill_session s)" "session_foreign L A s \<Longrightarrow> session_foreign L A (kill_session s)"
  "\<not> is_alive (ss_client (kill_session s))"
  by (simp_all add: kill_session_def session_base_def session_foreign_def lock_ptrs_def is_alive_def)

lemma handle_ok:
  assumes "running s" and "handle e events io s = (s', out)"
  shows "session_base s' \<and> (is_alive (ss_client s') \<longrightarrow> running s') \<and> (session_foreign L A s \<longrightarrow> session_foreign L A s')"
proof -
  obtain r s1 where inp: "handle_events_input e events io s = (r, s1)" by fastforce
  obtain r2 s2 o2 where outp: "handle_output io s1 = (r2, s2, o2)" by (metis surj_pair)
  note one = handle_events_input_ok [OF assms(1) inp, of L A]
  have two: "outcome_ok r2 s2 \<and> (session_foreign L A s1 \<longrightarrow> session_foreign L A s2)" if "running s1"
    using handle_output_ok [OF that outp] .
  show ?thesis
    using assms(2) inp outp one two kill_session_ok
    by (auto simp: handle_def outcome_ok_def running_def split: sum.splits if_splits)
qed

section \<open>The loop, with a bound on its turns\<close>

primrec handle_input_within :: "nat \<Rightarrow> env \<Rightarrow> session \<Rightarrow> bytes \<Rightarrow> ((exn + unit) \<times> session) option" where
  "handle_input_within 0 e s input = None"
| "handle_input_within (Suc n) e s input =
     (case input_step e s input of
        (Inl err, s', rest) \<Rightarrow> Some (Inl err, s')
      | (Inr u, s', rest) \<Rightarrow> if rest \<noteq> [] then handle_input_within n e s' rest else Some (Inr (), s'))"

lemma handle_input_fuel: "pending_work s input < n \<Longrightarrow> handle_input_within n e s input = Some (handle_input e s input)"
proof (induction n arbitrary: s input)
  case (Suc n)
  obtain q s1 rest where step: "input_step e s input = (q, s1, rest)" by (cases "input_step e s input")
  have "handle_input_within n e s1 rest = Some (handle_input e s1 rest)" if "q = Inr ()" "rest \<noteq> []"
    using Suc.IH [of s1 rest] Suc.prems input_step_progress [OF step [unfolded that(1)] that(2)] by simp
  then show ?case using step by (subst handle_input.simps) (auto split: sum.splits)
qed simp

definition sample_connection :: session where
  "sample_connection = \<lparr>ss_world = sample_world, ss_client = new_client 0\<rparr>"

lemma sample_connection_running: "running sample_connection"
  using sample_world_ok
  by (simp add: running_def session_base_def locks_apart_def mode_ok_def located_def is_authorized_def sender_wf_def
      ready_interpreter_def bounded_interpreter_def sample_connection_def new_client_def new_client_context_def
      new_interpreter_def new_sender_def new_download_manager_def new_upload_manager_def)

section \<open>Properties\<close>



text \<open>
  C7: \<open>handle_input\<close> returns on every input and from every state, within three turns per byte
  and four more: a turn that leaves input behind has consumed a byte, executed a complete
  request or ended an upload.
\<close>

theorem handle_input_terminates:
  "handle_input_within (3 * length input + 4) e s input = Some (handle_input e s input)"
  by (rule handle_input_fuel) (simp add: pending_work_def)

text \<open>
  C9: a request is answered. When a request ends without a fatal error, exactly one response
  has been queued, behind those that were queued before; only a request that starts a
  download queues none, because the file itself is the answer.
\<close>

theorem request_answered:
  assumes "execute_command e q s = (Inr (), s')"
  shows "(\<exists>r. c_sender (ss_client s') = add_response r (c_sender (ss_client s)) \<and> response_wf r) \<or>
    (c_sender (ss_client s') = c_sender (ss_client s) \<and> m_mode (context_of s') = mode_download)"
proof -
  obtain r1 x where run: "run_command e (r_name q) (r_fields q) (exec_of s) = (r1, x)" by fastforce
  have dl: "client_start_download t = (r, t') \<Longrightarrow> c_sender (ss_client t') = c_sender (ss_client t) \<and> m_mode (context_of t') = m_mode (context_of t)"
    and ul: "client_start_upload t = (r, t') \<Longrightarrow> c_sender (ss_client t') = c_sender (ss_client t)" for t t' r
    by (auto simp: client_start_download_def client_start_upload_def get_download_token_def get_upload_token_def
        on_client_def split: prod.splits option.splits)
  show ?thesis
  proof (cases r1)
    case (Inl y)
    with assms run show ?thesis by (cases y) (auto simp: execute_command_def)
  next
    case (Inr rs)
    then have "response_wf rs" using run run_command_response by blast
    with assms run Inr dl ul show ?thesis
      by (auto simp: execute_command_def Let_def split: if_splits)
  qed
qed

theorem request_answered_witness:
  "\<exists>s' r. execute_command sample_env (make_request ''pwd'') sample_connection = (Inr (), s') \<and>
     c_sender (ss_client s') = add_response r (c_sender (ss_client sample_connection))"
proof -
  have run: "run_command sample_env ''pwd'' [] (exec_of sample_connection) = (Inl (protocol_error not_logged_in), exec_of sample_connection)"
    by (simp add: run_command_def set_command_def construct_command_def command_table_def check_authorization_def
        is_authorized_def sample_connection_def new_client_def new_client_context_def andthen_def bind_def)
  then obtain s' where s': "execute_command sample_env (make_request ''pwd'') sample_connection = (Inr (), s')"
    "m_mode (context_of s') = mode_command"
    by (auto simp: execute_command_def make_request_def protocol_error_def sample_connection_def new_client_def new_client_context_def)
  from request_answered [OF s'(1)] s' show ?thesis by auto
qed

text \<open>
  C29: input that arrives behind a \<open>dls\<close> is lost. It is put aside while the download runs, but
  the next event on the socket hands it to \<open>handle_pending_input\<close> while the download is still
  in progress; there it is put aside again and then overwritten. The event has the same
  effect as if the input had never been sent.
\<close>

theorem pending_input_lost:
  assumes "m_mode (context_of s) = mode_download" and "\<not> has_event events ev_in"
  shows "handle e events io s = handle e events io (on_conn (\<lambda>c. c\<lparr>c_pending_input := []\<rparr>) s)"
proof -
  let ?s = "on_conn (\<lambda>c. c\<lparr>c_pending_input := []\<rparr>) s"
  have clear: "on_conn (\<lambda>c. c\<lparr>c_pending_input := []\<rparr>) (on_conn (\<lambda>c. c\<lparr>c_pending_input := p\<rparr>) s) = ?s" for p
    by (simp add: on_conn_def)
  have "handle_input e s input = (Inr (), on_conn (\<lambda>c. c\<lparr>c_pending_input := input\<rparr>) s)" for input
    using assms(1) by (subst handle_input.simps) (simp add: input_step_def)
  then have "handle_pending_input e s = (Inr (), ?s)" by (simp add: handle_pending_input_def clear)
  moreover have "?s = s" if "c_pending_input (ss_client s) = []" using that by (simp add: on_conn_def)
  ultimately have "handle_events_input e events io s = (Inr (), ?s)" "handle_events_input e events io ?s = (Inr (), ?s)"
    using assms(2) by (auto simp: handle_events_input_def)
  then show ?thesis by (simp add: handle_def)
qed

theorem pending_input_lost_witness:
  "\<exists>s. c_pending_input (ss_client s) = ''exit'' @ [newline, newline] \<and> is_alive (ss_client s) \<and>
     (\<forall>io. handle sample_env ev_out io s = handle sample_env ev_out io (on_conn (\<lambda>c. c\<lparr>c_pending_input := []\<rparr>) s))"
proof -
  let ?s = "set_context (new_client_context\<lparr>m_mode := mode_download\<rparr>)
    (on_conn (\<lambda>c. c\<lparr>c_pending_input := ''exit'' @ [newline, newline]\<rparr>) sample_connection)"
  have "\<not> has_event ev_out ev_in" by (simp add: has_event_def ev_out_def ev_in_def)
  from pending_input_lost [OF _ this, of ?s sample_env]
  have "\<forall>io. handle sample_env ev_out io ?s = handle sample_env ev_out io (on_conn (\<lambda>c. c\<lparr>c_pending_input := []\<rparr>) ?s)" by simp
  moreover have "is_alive (ss_client ?s)" by (simp add: is_alive_def new_client_context_def)
  ultimately show ?thesis by (intro exI [of _ ?s]) simp
qed

end
