(* ===== verification/Config.thy ===== *)
theory Config
  imports User_Table
begin

text \<open>
  The configuration of a server (\<open>config/server_config.cpp\<close>, \<open>config/config_reader.cpp\<close>,
  \<open>config/defaults.cpp\<close>) and the addresses it uses (\<open>ip/port.cpp\<close>, \<open>ip/address_v4.cpp\<close>,
  \<open>ip/endpoint_v4.cpp\<close>). Ports and addresses are kept in network byte order, on a
  little-endian machine. The TOML parser and the number of hardware threads are parameters.
\<close>

section \<open>Addresses\<close>

definition htons :: "u16 \<Rightarrow> u16" where
  "htons x = or (push_bit 8 x) (drop_bit 8 x)"

definition htonl :: "u32 \<Rightarrow> u32" where
  "htonl x = or (or (push_bit 24 (take_bit 8 x)) (push_bit 16 (take_bit 8 (drop_bit 8 x))))
     (or (push_bit 8 (take_bit 8 (drop_bit 16 x))) (drop_bit 24 x))"

datatype Port = Port (p_port: u16)

definition make_port :: "u16 \<Rightarrow> Port" where
  "make_port port = Port (htons port)"

definition port_as_integer :: "Port \<Rightarrow> u16" where
  "port_as_integer p = htons (p_port p)"

definition invalid_port :: Port where
  "invalid_port = make_port 0"

text \<open>The buffer of six characters always has room for the digits.\<close>

definition print_port :: "Port \<Rightarrow> string" where
  "print_port p = nat_to_string (unat (port_as_integer p))"

datatype AddressV4 = AddressV4 (a_address: u32)

definition make_address :: "u32 \<Rightarrow> AddressV4" where
  "make_address address = AddressV4 (htonl address)"

definition address_as_integer :: "AddressV4 \<Rightarrow> u32" where
  "address_as_integer a = htonl (a_address a)"

definition any_address :: AddressV4 where
  "any_address = make_address 0"

definition byte_of :: "nat \<Rightarrow> u32 \<Rightarrow> nat" where
  "byte_of k x = unat (take_bit 8 (drop_bit (8 * k) x))"

definition inet_ntoa :: "u32 \<Rightarrow> string" where
  "inet_ntoa s_addr =
     nat_to_string (byte_of 0 s_addr) @ ''.'' @ nat_to_string (byte_of 1 s_addr) @ ''.'' @
     nat_to_string (byte_of 2 s_addr) @ ''.'' @ nat_to_string (byte_of 3 s_addr)"

definition print_address :: "AddressV4 \<Rightarrow> string" where
  "print_address a = inet_ntoa (htonl (address_as_integer a))"

record EndpointV4 =
  ep_address :: AddressV4
  ep_port :: Port

definition make_endpoint :: "AddressV4 \<Rightarrow> Port \<Rightarrow> EndpointV4" where
  "make_endpoint a p = \<lparr>ep_address = a, ep_port = p\<rparr>"

definition print_endpoint :: "EndpointV4 \<Rightarrow> string" where
  "print_endpoint e = print_address (ep_address e) @ '':'' @ print_port (ep_port e)"

section \<open>The configuration\<close>

record ServerConfig =
  cfg_max_thread_count :: int
  cfg_max_user_count :: int
  cfg_backlog :: int
  cfg_port :: Port
  cfg_upload_max_size :: u64

definition default_max_thread_count :: "int \<Rightarrow> int" where
  "default_max_thread_count hardware = hardware"

definition default_max_user_count :: "int \<Rightarrow> int" where
  "default_max_user_count hardware = 5 * default_max_thread_count hardware"

definition default_backlog :: int where "default_backlog = 32"

definition default_port :: Port where "default_port = make_port 37666"

definition default_upload_max_size :: u64 where
  "default_upload_max_size = push_bit 31 1 - 1"

definition new_config :: "int \<Rightarrow> ServerConfig" where
  "new_config hardware = \<lparr>cfg_max_thread_count = default_max_thread_count hardware,
     cfg_max_user_count = default_max_user_count hardware, cfg_backlog = default_backlog, cfg_port = default_port,
     cfg_upload_max_size = default_upload_max_size\<rparr>"

definition int_to_string :: "int \<Rightarrow> string" where
  "int_to_string i = (if i < 0 then CHR ''-'' # nat_to_string (nat (- i)) else nat_to_string (nat i))"

definition set_max_thread_count :: "int \<Rightarrow> ServerConfig \<Rightarrow> exn + ServerConfig" where
  "set_max_thread_count n c =
     (if n < 1 then Inl (RuntimeError (''Max thread count should be at least 1 (is '' @ int_to_string n @ '')''))
      else Inr (c\<lparr>cfg_max_thread_count := n\<rparr>))"

definition set_max_user_count :: "int \<Rightarrow> ServerConfig \<Rightarrow> exn + ServerConfig" where
  "set_max_user_count n c =
     (if n < 1 then Inl (RuntimeError (''Max user count should be at least 1 (is '' @ int_to_string n @ '')''))
      else Inr (c\<lparr>cfg_max_user_count := n\<rparr>))"

definition set_config_backlog :: "int \<Rightarrow> ServerConfig \<Rightarrow> exn + ServerConfig" where
  "set_config_backlog n c =
     (if n < 1 then Inl (RuntimeError (''Backlog should be at least 1 (is '' @ int_to_string n @ '')''))
      else Inr (c\<lparr>cfg_backlog := n\<rparr>))"

definition set_port :: "Port \<Rightarrow> ServerConfig \<Rightarrow> exn + ServerConfig" where
  "set_port p c =
     (if p = invalid_port
      then Inl (RuntimeError (nat_to_string (unat (port_as_integer invalid_port)) @ '' is not valid port''))
      else Inr (c\<lparr>cfg_port := p\<rparr>))"

definition set_upload_max_size :: "u64 \<Rightarrow> ServerConfig \<Rightarrow> ServerConfig" where
  "set_upload_max_size n c = c\<lparr>cfg_upload_max_size := n\<rparr>"

section \<open>Reading it\<close>

text \<open>An \<open>int64_t\<close> passed where an \<open>int\<close> or a \<open>uintmax_t\<close> is expected is converted silently.\<close>

definition to_int :: "int \<Rightarrow> int" where
  "to_int v = sint (word_of_int v :: 32 word)"

definition set_integer_field :: "string \<Rightarrow> int \<Rightarrow> ServerConfig \<Rightarrow> exn + ServerConfig" where
  "set_integer_field name v c =
     (if name = ''max_thread_count'' then set_max_thread_count (to_int v) c
      else if name = ''max_user_count'' then set_max_user_count (to_int v) c
      else if name = ''backlog'' then set_config_backlog (to_int v) c
      else if name = ''port'' then
        (if \<not> (0 \<le> v \<and> v \<le> 65535)
         then Inl (RuntimeError (''ConfigReader: invalid port value in config file ('' @ int_to_string v @ '')''))
         else set_port (make_port (word_of_int v)) c)
      else if name = ''upload_max_size'' then Inr (set_upload_max_size (word_of_int v) c)
      else Inl (RuntimeError (''ConfigReader: '' @ name @ '' is not valid integer field'')))"

primrec read_fields :: "(string \<times> toml) list \<Rightarrow> ServerConfig \<Rightarrow> exn + ServerConfig" where
  "read_fields [] c = Inr c"
| "read_fields (x # xs) c =
     (case x of
        (name, Toml_integer v) \<Rightarrow>
          (case set_integer_field name v c of Inl e \<Rightarrow> Inl e | Inr c' \<Rightarrow> read_fields xs c')
      | (name, _) \<Rightarrow> Inl (RuntimeError (''ConfigReader: field '' @ [apostrophe] @ name @ [apostrophe] @ '' is invalid'')))"

definition open_config :: "toml_reader \<Rightarrow> disk \<Rightarrow> path \<Rightarrow> exn + (string \<times> toml) list" where
  "open_config toml_parse d root =
     (case Option.bind (read_file d (path_append root ''.tds/config'')) toml_parse of
        None \<Rightarrow> Inl (RuntimeError ''toml::parse_error'')
      | Some tab \<Rightarrow> Inr tab)"

definition read_config :: "int \<Rightarrow> (string \<times> toml) list \<Rightarrow> exn + ServerConfig" where
  "read_config hardware tab =
     (case map_of tab ''server'' of
        None \<Rightarrow> Inl (RuntimeError ''Section [server] does not exist in config file!'')
      | Some (Toml_table entries) \<Rightarrow> read_fields entries (new_config hardware)
      | Some _ \<Rightarrow> Inr (new_config hardware))"

definition default_config_file :: "int \<Rightarrow> bytes" where
  "default_config_file hardware =
     ''[server]'' @ [newline] @ ''max_thread_count = '' @ int_to_string (default_max_thread_count hardware) @
     [newline] @ ''max_user_count = '' @ int_to_string (default_max_user_count hardware) @
     [newline] @ ''backlog = '' @ int_to_string default_backlog @
     [newline] @ ''port = '' @ print_port default_port @
     [newline] @ ''upload_max_size = '' @ nat_to_string (unat default_upload_max_size) @ [newline]"

definition default_users_file :: "crypt_fn \<Rightarrow> exn + bytes" where
  "default_users_file crypt =
     map_sum id (\<lambda>h. ''[[users]]'' @ [newline] @ ''name = '' @ [quotation] @ ''admin'' @ [quotation, newline] @
        ''passwd = '' @ [quotation] @ h @ [quotation, newline] @
        ''perms = '' @ [quotation] @ perms_to_string perm_all @ [quotation, newline])
       (hash crypt ''admin'')"

section \<open>Facts\<close>

lemma htons_htons [simp]: "htons (htons x) = x"
  by (rule bit_word_eqI) (auto simp: htons_def bit_simps)

lemma bit_htonl:
  "bit (htonl x) n \<longleftrightarrow> (if n < 8 then bit x (n + 24) else if n < 16 then bit x (n + 8)
     else if n < 24 then bit x (n - 8) else n < 32 \<and> bit x (n - 24))"
proof -
  consider "n < 8" | "8 \<le> n" "n < 16" | "16 \<le> n" "n < 24" | "24 \<le> n" "n < 32" | "32 \<le> n" by linarith
  then show ?thesis by cases (auto simp: htonl_def bit_simps add.commute dest: bit_imp_le_length)
qed

lemma htonl_htonl [simp]: "htonl (htonl x) = x"
  by (rule bit_word_eqI) (auto simp: bit_htonl)

lemma port_roundtrip [simp]: "port_as_integer (make_port p) = p"
  and address_roundtrip [simp]: "address_as_integer (make_address a) = a"
  by (simp_all add: port_as_integer_def make_port_def address_as_integer_def make_address_def)

lemma byte_of_htonl: "k < 4 \<Longrightarrow> byte_of k (htonl x) = byte_of (3 - k) x"
proof -
  assume k: "k < 4"
  have "take_bit 8 (drop_bit (8 * k) (htonl x)) = take_bit 8 (drop_bit (8 * (3 - k)) x)"
  proof (rule bit_word_eqI)
    fix n
    assume "n < LENGTH(32)"
    from k consider "k = 0" | "k = 1" | "k = 2" | "k = 3" by fastforce
    then show "bit (take_bit 8 (drop_bit (8 * k) (htonl x))) n \<longleftrightarrow> bit (take_bit 8 (drop_bit (8 * (3 - k)) x)) n"
      by cases (auto simp: bit_htonl bit_simps add.commute)
  qed
  then show ?thesis by (simp add: byte_of_def)
qed


lemma to_int_small: "- (2 ^ 31) \<le> v \<Longrightarrow> v < 2 ^ 31 \<Longrightarrow> to_int v = v"
  by (simp add: to_int_def signed_of_int signed_take_bit_int_eq_self)

definition config_ok :: "ServerConfig \<Rightarrow> bool" where
  "config_ok c \<longleftrightarrow> 1 \<le> cfg_max_thread_count c \<and> 1 \<le> cfg_max_user_count c \<and> 1 \<le> cfg_backlog c \<and>
     cfg_port c \<noteq> invalid_port"

lemma set_integer_field_ok: "config_ok c \<Longrightarrow> set_integer_field name v c = Inr c' \<Longrightarrow> config_ok c'"
  by (auto simp: config_ok_def set_integer_field_def set_max_thread_count_def set_max_user_count_def
      set_config_backlog_def set_port_def set_upload_max_size_def split: if_splits)

lemma read_fields_ok: "config_ok c \<Longrightarrow> read_fields es c = Inr c' \<Longrightarrow> config_ok c'"
  by (induction es arbitrary: c) (auto split: prod.splits toml.splits sum.splits dest: set_integer_field_ok)

lemma default_port_valid: "default_port \<noteq> invalid_port"
proof
  assume "default_port = invalid_port"
  then have "port_as_integer default_port = port_as_integer invalid_port" by simp
  then show False by (simp add: default_port_def invalid_port_def)
qed

lemma new_config_ok: "1 \<le> hardware \<Longrightarrow> config_ok (new_config hardware)"
  using default_port_valid
  by (simp add: config_ok_def new_config_def default_max_thread_count_def default_max_user_count_def default_backlog_def)

section \<open>Properties\<close>

text \<open>
  A configuration that was read is usable. On a machine that reports at least one
  hardware thread, whatever the file says, the reader either throws or returns a configuration
  with at least one thread, one user and one place in the backlog, and with a port.
\<close>

lemma read_config_valid:
  assumes "1 \<le> hardware" and "read_config hardware tab = Inr c"
  shows "config_ok c"
  using assms new_config_ok [OF assms(1)] read_fields_ok
  by (auto simp: read_config_def split: option.splits toml.splits)

lemma read_config_valid_witness:
  "\<exists>c. read_config 4 [(''server'', Toml_table [(''port'', Toml_integer 80), (''backlog'', Toml_integer 5)])] = Inr c \<and>
     config_ok c \<and> cfg_backlog c = 5"
proof -
  have "make_port 80 \<noteq> invalid_port"
    using port_roundtrip [of 80] port_roundtrip [of 0] by (auto simp: invalid_port_def simp del: port_roundtrip)
  then obtain c where c: "read_config 4 [(''server'', Toml_table [(''port'', Toml_integer 80), (''backlog'', Toml_integer 5)])] = Inr c"
    "cfg_backlog c = 5"
    by (simp add: read_config_def set_integer_field_def set_port_def set_config_backlog_def to_int_small)
  from read_config_valid [OF _ c(1)] c show ?thesis by auto
qed

text \<open>
  The value of an integer field of the configuration reaches the server unchanged when it
  fits into an \<open>int\<close>; a larger one is accepted and taken modulo 2 to the 32. In particular a
  limit of 4294967297 users becomes a limit of one, and a negative upload limit becomes an
  enormous one.
\<close>

lemma config_narrowing:
  "(1 \<le> v \<and> v < 2 ^ 31 \<longrightarrow> set_integer_field ''max_user_count'' v c = Inr (c\<lparr>cfg_max_user_count := v\<rparr>)) \<and>
   set_integer_field ''max_user_count'' (2 ^ 32 + 1) c = Inr (c\<lparr>cfg_max_user_count := 1\<rparr>) \<and>
   set_integer_field ''upload_max_size'' (- 1) c = Inr (c\<lparr>cfg_upload_max_size := - 1\<rparr>)"
proof -
  have "word_of_int (2 ^ 32 + 1) = (1 :: 32 word)" by simp
  then have "to_int (2 ^ 32 + 1) = 1" by (simp add: to_int_def)
  then show ?thesis
    by (auto simp: set_integer_field_def set_max_user_count_def set_upload_max_size_def to_int_small)
qed

lemma config_narrowing_witness:
  "set_integer_field ''max_user_count'' 7 (new_config 2) = Inr ((new_config 2)\<lparr>cfg_max_user_count := 7\<rparr>)"
  using config_narrowing [of 7 "new_config 2"] by simp

text \<open>
  An endpoint is printed the way people write it, whatever the byte order it is stored
  in: the four bytes of the address from the most significant on, then the port.
\<close>

lemma endpoint_text:
  "print_endpoint (make_endpoint (make_address a) (make_port p)) =
     nat_to_string (byte_of 3 a) @ ''.'' @ nat_to_string (byte_of 2 a) @ ''.'' @ nat_to_string (byte_of 1 a) @ ''.'' @
     nat_to_string (byte_of 0 a) @ '':'' @ nat_to_string (unat p)"
  using byte_of_htonl [of 0 a] byte_of_htonl [of 1 a] byte_of_htonl [of 2 a] byte_of_htonl [of 3 a]
  by (simp add: print_endpoint_def make_endpoint_def print_address_def inet_ntoa_def print_port_def)

end
