(* ===== verification/Server.thy ===== *)
theory Server
  imports Session_Safety Config
begin

text \<open>
  The server around the connections: the pool of clients (\<open>client_pool.cpp\<close>), the supervisor
  of the service threads (\<open>client_service_supervisor.cpp\<close>), the loop of a service thread
  (\<open>client_service.cpp\<close>) and the main loop (\<open>server.cpp\<close>), with the epoll devices they use
  (\<open>epoll_device.cpp\<close>, \<open>epoll_buffer.cpp\<close>). The service threads share the pool; one event of
  one connection is one step of the model, and the threads may take such steps in any order.
  The answers of the kernel are inputs.
\<close>

section \<open>Clients that go away\<close>

text \<open>
  Destroying a client destroys its members in reverse order: the upload manager, which leaves
  a backup of an unfinished upload, then the download manager, then the context with its
  tokens.
\<close>

definition destroy_context :: "ClientContext \<Rightarrow> heap \<Rightarrow> heap" where
  "destroy_context ctx h =
     free_auth (m_auth_token ctx) (free_lock (m_current_path_lock ctx)
       (free_lock (m_download_token ctx) (free_lock (m_upload_token ctx) h)))"

definition destroy_client :: "world \<Rightarrow> Client \<Rightarrow> world" where
  "destroy_client w c =
     (let w1 = destroy_upload_manager w (c_upload_manager c);
          h1 = free_lock (dm_token (c_download_manager c)) (w_heap w1)
      in set_heap (destroy_context (c_context c) h1) w1)"

section \<open>Epoll devices\<close>

text \<open>
  The interest list of an epoll device, and the buffer it fills. An error number is what
  \<open>epoll_ctl\<close> reports.
\<close>

type_synonym fd = int
type_synonym interest = "(fd \<times> EventType) list"

definition epoll_ctl :: "nat option \<Rightarrow> fd \<Rightarrow> EventType \<Rightarrow> interest \<Rightarrow> exn + interest" where
  "epoll_ctl answer fd events q =
     (case answer of
        Some code \<Rightarrow> Inl (SystemError code ''epoll_ctl(2)'')
      | None \<Rightarrow> Inr (AList.update fd events q))"

definition buffer_capacity :: "ServerConfig \<Rightarrow> nat" where
  "buffer_capacity c = max (nat (cfg_max_user_count c div cfg_max_thread_count c)) 1"

section \<open>The pool and its supervisor\<close>

record supervisor =
  sv_world :: world
  sv_pool :: "(fd \<times> Client) list"
  sv_epoll :: interest
  sv_running :: bool

definition has_client :: "supervisor \<Rightarrow> fd \<Rightarrow> bool" where
  "has_client v fd \<longleftrightarrow> map_of (sv_pool v) fd \<noteq> None"

definition get_client_count :: "supervisor \<Rightarrow> nat" where
  "get_client_count v = length (sv_pool v)"

definition get_client :: "supervisor \<Rightarrow> fd \<Rightarrow> exn + Client" where
  "get_client v fd =
     (case map_of (sv_pool v) fd of
        Some c \<Rightarrow> Inr c
      | None \<Rightarrow> Inl (RuntimeError (''ClientPool: could not find client with fd '' @ int_to_string fd)))"

text \<open>The new client is built first; where the number is taken, it is destroyed again.\<close>

definition spawn_client :: "nat \<Rightarrow> fd \<Rightarrow> supervisor \<Rightarrow> (exn + unit) \<times> supervisor" where
  "spawn_client stale fd v =
     (if has_client v fd
      then (Inl (RuntimeError (''ClientPool: failed to accept new connection (fd = '' @ int_to_string (- 1) @ '')'')),
            v\<lparr>sv_world := destroy_client (sv_world v) (new_client stale)\<rparr>)
      else (Inr (), v\<lparr>sv_pool := sv_pool v @ [(fd, new_client stale)]\<rparr>))"

text \<open>Closing the socket takes it off the interest list.\<close>

definition close_one :: "fd \<Rightarrow> supervisor \<Rightarrow> (exn + unit) \<times> supervisor" where
  "close_one fd v =
     (case map_of (sv_pool v) fd of
        None \<Rightarrow> (Inl (RuntimeError (''ClientPool: could not close connection with client (fd = '' @ int_to_string fd @ '')'')), v)
      | Some c \<Rightarrow>
          (Inr (), v\<lparr>sv_world := destroy_client (sv_world v) c, sv_pool := AList.delete fd (sv_pool v),
                     sv_epoll := AList.delete fd (sv_epoll v)\<rparr>))"

definition close_all :: "supervisor \<Rightarrow> supervisor" where
  "close_all v = v\<lparr>sv_world := foldl (\<lambda>w x. destroy_client w (snd x)) (sv_world v) (sv_pool v), sv_pool := [],
     sv_epoll := filter (\<lambda>x. fst x \<notin> fst ` set (sv_pool v)) (sv_epoll v)\<rparr>"

definition is_system_error :: "exn \<Rightarrow> bool" where
  "is_system_error e = (case e of SystemError n m \<Rightarrow> True | _ \<Rightarrow> False)"

text \<open>
  A connection whose registration fails has no client yet, so that closing it throws; the
  socket, still a local variable, is closed then.
\<close>

definition accept_connection :: "nat option \<Rightarrow> nat \<Rightarrow> fd \<Rightarrow> supervisor \<Rightarrow> (exn + unit) \<times> supervisor" where
  "accept_connection answer stale fd v =
     (case epoll_ctl answer fd (or (or ev_in edge_triggered) one_shot) (sv_epoll v) of
        Inl e \<Rightarrow> close_one fd v
      | Inr q \<Rightarrow>
          (case spawn_client stale fd (v\<lparr>sv_epoll := q\<rparr>) of
             (Inl e, v') \<Rightarrow> if is_system_error e then close_one fd v' else (Inl e, v')
           | (Inr _, v') \<Rightarrow> (Inr (), v')))"

definition rearm_device :: "nat option \<Rightarrow> fd \<Rightarrow> supervisor \<Rightarrow> (exn + unit) \<times> supervisor" where
  "rearm_device answer fd v =
     (case get_client v fd of
        Inl e \<Rightarrow> (Inl e, v)
      | Inr c \<Rightarrow>
          if is_alive c then
            (case get_required_events c of
               Inl e \<Rightarrow> (Inl e, v)
             | Inr events \<Rightarrow>
                 (case epoll_ctl answer fd (or (or edge_triggered one_shot) events) (sv_epoll v) of
                    Inl e \<Rightarrow> (Inl e, v)
                  | Inr q \<Rightarrow> (Inr (), v\<lparr>sv_epoll := q\<rparr>)))
          else close_one fd v)"

section \<open>A service thread\<close>

record service_event =
  se_fd :: fd
  se_events :: EventType
  se_io :: io_round
  se_epoll_answer :: "nat option"

definition handle_client :: "env \<Rightarrow> EventType \<Rightarrow> io_round \<Rightarrow> fd \<Rightarrow> Client \<Rightarrow> supervisor \<Rightarrow> supervisor" where
  "handle_client e events io fd c v =
     (case handle e events io \<lparr>ss_world = sv_world v, ss_client = c\<rparr> of
        (s, out) \<Rightarrow> v\<lparr>sv_world := ss_world s, sv_pool := AList.update fd (ss_client s) (sv_pool v)\<rparr>)"

definition process_client_input :: "env \<Rightarrow> service_event \<Rightarrow> Client \<Rightarrow> supervisor \<Rightarrow> (exn + unit) \<times> supervisor" where
  "process_client_input e x c v =
     rearm_device (se_epoll_answer x) (se_fd x) (handle_client e (se_events x) (se_io x) (se_fd x) c v)"

text \<open>One event of the buffer: the second result tells whether the thread goes on.\<close>

definition service_step :: "env \<Rightarrow> fd \<Rightarrow> service_event \<Rightarrow> supervisor \<Rightarrow> (exn + bool) \<times> supervisor" where
  "service_step e pipe_fd x v =
     (case map_of (sv_pool v) (se_fd x) of
        Some c \<Rightarrow> (case process_client_input e x c v of (r, v') \<Rightarrow> (map_sum id (\<lambda>_. True) r, v'))
      | None \<Rightarrow> if se_fd x = pipe_fd then (Inr False, v) else (Inr True, v))"

primrec service_events :: "env \<Rightarrow> fd \<Rightarrow> service_event list \<Rightarrow> bool \<Rightarrow> supervisor \<Rightarrow> (exn + bool) \<times> supervisor" where
  "service_events e pipe_fd [] going v = (Inr going, v)"
| "service_events e pipe_fd (x # xs) going v =
     (case service_step e pipe_fd x v of
        (Inl err, v') \<Rightarrow> (Inl err, v')
      | (Inr go, v') \<Rightarrow> service_events e pipe_fd xs (going \<and> go) v')"

text \<open>
  The loop of a thread over the answers of \<open>epoll_wait\<close>; it ends with the pipe's signal, with
  an exception, which \<open>launch\<close> logs, or where the list of answers ends.
\<close>

primrec service_loop :: "env \<Rightarrow> fd \<Rightarrow> (nat + service_event list) list \<Rightarrow> supervisor \<Rightarrow> supervisor" where
  "service_loop e pipe_fd [] v = v"
| "service_loop e pipe_fd (b # bs) v =
     (case b of
        Inl code \<Rightarrow> v
      | Inr xs \<Rightarrow>
          (case service_events e pipe_fd xs True v of
             (Inl err, v') \<Rightarrow> v'
           | (Inr going, v') \<Rightarrow> if going then service_loop e pipe_fd bs v' else v'))"

section \<open>The server\<close>

record server =
  srv_config :: ServerConfig
  srv_running :: bool
  srv_supervisor :: supervisor

definition supervisor_stop :: "supervisor \<Rightarrow> supervisor" where
  "supervisor_stop v = (if sv_running v then (close_all v)\<lparr>sv_running := False\<rparr> else v)"

definition server_stop :: "server \<Rightarrow> server" where
  "server_stop s =
     (if srv_running s then s\<lparr>srv_running := False, srv_supervisor := supervisor_stop (srv_supervisor s)\<rparr> else s)"

text \<open>A connection that cannot be taken is closed when the local socket is destroyed.\<close>

definition handle_connection :: "nat option \<Rightarrow> nat \<Rightarrow> fd \<Rightarrow> server \<Rightarrow> server" where
  "handle_connection answer stale fd s =
     (if int (get_client_count (srv_supervisor s)) < cfg_max_user_count (srv_config s)
      then s\<lparr>srv_supervisor := snd (accept_connection answer stale fd (srv_supervisor s))\<rparr>
      else s)"

section \<open>Listening\<close>

record TcpListener =
  l_backlog :: int
  l_nonblocking :: bool
  l_listening :: "(EndpointV4 \<times> int) option"

definition new_listener :: TcpListener where
  "new_listener = \<lparr>l_backlog = 32, l_nonblocking = False, l_listening = None\<rparr>"

definition set_backlog :: "int \<Rightarrow> TcpListener \<Rightarrow> exn + TcpListener" where
  "set_backlog n l =
     (if n \<le> 0 then Inl (RuntimeError ''Listener: backlog should not be negative'') else Inr (l\<lparr>l_backlog := n\<rparr>))"

definition set_connection_type :: "bool \<Rightarrow> TcpListener \<Rightarrow> TcpListener" where
  "set_connection_type nonblocking l = l\<lparr>l_nonblocking := nonblocking\<rparr>"

text \<open>The answers of \<open>bind\<close> and \<open>listen\<close>: an error number, or success.\<close>

definition listen_endpoint :: "nat option \<Rightarrow> nat option \<Rightarrow> EndpointV4 \<Rightarrow> TcpListener \<Rightarrow> exn + TcpListener" where
  "listen_endpoint bind_answer listen_answer endpoint l =
     (case bind_answer of
        Some code \<Rightarrow> Inl (SystemError code ''bind(2)'')
      | None \<Rightarrow>
          (case listen_answer of
             Some code \<Rightarrow> Inl (SystemError code ''listen(2)'')
           | None \<Rightarrow> Inr (l\<lparr>l_listening := Some (endpoint, l_backlog l)\<rparr>)))"

definition listen_port :: "nat option \<Rightarrow> nat option \<Rightarrow> Port \<Rightarrow> TcpListener \<Rightarrow> exn + TcpListener" where
  "listen_port bind_answer listen_answer port l =
     listen_endpoint bind_answer listen_answer (make_endpoint any_address port) l"

definition configure_listener :: "nat option \<Rightarrow> nat option \<Rightarrow> ServerConfig \<Rightarrow> TcpListener \<Rightarrow> exn + TcpListener" where
  "configure_listener bind_answer listen_answer config l =
     (case listen_port bind_answer listen_answer (cfg_port config) l of
        Inl e \<Rightarrow> Inl e
      | Inr l1 \<Rightarrow> (case set_backlog (cfg_backlog config) l1 of
                   Inl e \<Rightarrow> Inl e
                 | Inr l2 \<Rightarrow> Inr (set_connection_type True l2)))"

section \<open>The main loop\<close>

text \<open>
  What \<open>accept4\<close> and the option on the new socket answer. The check for an address that is
  not IPv4 builds an exception without throwing it, so such a connection is taken, too.
\<close>

datatype accept_answer =
    Accept_error nat
  | Accept_bad_length
  | Accept_option_error nat
  | Accepted fd nat "nat option"

datatype main_event = Signal_event int | Listener_event accept_answer | Unknown_event fd

definition stop_signals :: "int list" where
  "stop_signals = [2, 3, 15]"

definition handle_signal :: "int \<Rightarrow> server \<Rightarrow> (exn + unit) \<times> server" where
  "handle_signal signo s =
     (if signo \<in> set stop_signals then (Inr (), server_stop s)
      else (Inl (RuntimeError (''No handler for signal with '' @ [apostrophe] @ int_to_string signo @ [apostrophe] @ '' code'')), s))"

definition listener_handle_connection :: "accept_answer \<Rightarrow> server \<Rightarrow> (exn + unit) \<times> server" where
  "listener_handle_connection a s =
     (case a of
        Accept_error code \<Rightarrow> (Inl (SystemError code ''accept4(2)''), s)
      | Accept_bad_length \<Rightarrow> (Inl (RuntimeError ''Listener: accept(2) returned invalid addrlen''), s)
      | Accept_option_error code \<Rightarrow> (Inl (SystemError code ''setsockopt(2)''), s)
      | Accepted fd stale answer \<Rightarrow> (Inr (), handle_connection answer stale fd s))"

primrec main_events :: "main_event list \<Rightarrow> server \<Rightarrow> (exn + unit) \<times> server" where
  "main_events [] s = (Inr (), s)"
| "main_events (x # xs) s =
     (case (case x of
              Signal_event signo \<Rightarrow> handle_signal signo s
            | Listener_event a \<Rightarrow> listener_handle_connection a s
            | Unknown_event fd \<Rightarrow> (Inr (), s)) of
        (Inl e, s') \<Rightarrow> (Inl e, s')
      | (Inr _, s') \<Rightarrow> main_events xs s')"

end
