(* ===== verification/Server_Safety.thy ===== *)
theory Server_Safety
  imports Server
begin

text \<open>
  Many connections at once: the invariant of the whole server. Every connection in the pool
  satisfies the invariant of a connection, the objects of different connections are different,
  and every live authorisation token belongs to a connection of the pool.
\<close>

section \<open>Who owns the authorisation tokens\<close>

text \<open>
  \<open>auths_owned F s\<close>: every live authorisation token is one of \<open>F\<close> or the one the client holds.
\<close>

definition auths_in :: "oid set \<Rightarrow> (oid \<Rightarrow> AuthToken option) \<Rightarrow> oid option \<Rightarrow> bool" where
  "auths_in F tokens own \<longleftrightarrow> dom tokens \<subseteq> F \<union> set_option own"

definition auths_owned :: "oid set \<Rightarrow> exec \<Rightarrow> bool" where
  "auths_owned F s \<longleftrightarrow> auths_in F (auth_objects (w_heap (ex_world s))) (m_auth_token (ex_client s))"

lemma auths_in_logout: "auths_in F A own \<Longrightarrow> own = Some i \<Longrightarrow> auths_in F (A(i := None)) None"
  by (auto simp: auths_in_def)

lemma keeps_auths_ops:
  "keeps (auths_owned F) kill" "keeps (auths_owned F) (set_mode m)" "keeps (auths_owned F) (set_auth_token None)"
  "keeps (auths_owned F) logout" "keeps (auths_owned F) (set_path_lock i)" "keeps (auths_owned F) (set_current_path q)"
  "keeps (auths_owned F) (set_download_token d)" "keeps (auths_owned F) (set_upload_token d)"
  "keeps (auths_owned F) (on_disk f)" "keeps (auths_owned F) (update_upload i g)"
  by (auto simp: keeps_def auths_owned_def kill_def set_mode_def set_auth_token_def logout_def set_path_lock_def
      set_current_path_def set_download_token_def set_upload_token_def on_disk_def update_upload_def world_simps
      free_auth_def auths_in_logout split: option.splits lock_object.splits prod.splits if_splits)

lemma keeps_auths_locks:
  "keeps (auths_owned F) (with_world (lock_path p))" "keeps (auths_owned F) (with_world (download_file p))"
  "keeps (auths_owned F) (with_world (upload_file p n))"
  by (auto simp: keeps_def with_world_def lock_path_run download_file_run upload_file_run map_prod_def
      auths_owned_def split: prod.splits sum.splits dest!: allocate_lock_simps(1))

lemma keeps_auths_login:
  assumes K: "keeps (auths_owned F) K"
  shows "keeps (auths_owned F) (bind (with_world (authorize_user c u pw)) (\<lambda>token. andthen (set_auth_token (Some token)) K))"
proof (rule keepsI)
  fix s
  assume s: "auths_owned F s"
  obtain r w where run: "authorize_user c u pw (ex_world s) = (r, w)" by fastforce
  let ?t = "s\<lparr>ex_world := w\<rparr>"
  show "auths_owned F (snd (bind (with_world (authorize_user c u pw)) (\<lambda>token. andthen (set_auth_token (Some token)) K) s))"
  proof (cases r)
    case (Inl x)
    with run authorize_error [OF run [unfolded Inl]] s show ?thesis
      by (auto simp: bind_def with_world_def auths_owned_def)
  next
    case (Inr i)
    let ?w1 = "remove_expired_auth_tokens (ex_world s)"
    obtain a where a: "allocate_auth a ?w1 = (i, w)"
      using run Inr by (auto simp: authorize_user_cases Let_def map_prod_def split: sum.splits if_splits prod.splits)
    have heap: "auth_objects (w_heap w) = (auth_objects (w_heap (ex_world s)))(i \<mapsto> a)"
      using auth_registry.enter_objects [OF a] by (simp add: world_simps)
    show ?thesis
    proof (cases "is_authorized (ex_client s)")
      case True
      have "auths_owned F (on_heap (free_auth (Some i)) ?t)"
        using s by (auto simp: auths_owned_def auths_in_def world_simps heap free_auth_def)
      with True run Inr show ?thesis
        by (simp add: bind_def with_world_def andthen_def set_auth_token_def)
    next
      case False
      have "auths_owned F (on_client (\<lambda>c. c\<lparr>m_auth_token := Some i, m_auth_try_count := 0\<rparr>) ?t)"
        using s False by (auto simp: auths_owned_def auths_in_def world_simps heap is_authorized_def)
      from keepsD [OF K this] False run Inr show ?thesis
        by (simp add: bind_def with_world_def andthen_def set_auth_token_def)
    qed
  qed
qed

lemma keeps_auths_auth: "keeps (auths_owned F) (execute_auth e u p rb)"
proof -
  have handler: "keeps (auths_owned F) (case x of
          ProtocolError code msg \<Rightarrow>
            andthen
              (if code = invalid_credentials then
                 andthen (set_auth_token None)
                 (bind (gets (\<lambda>s. get_auth_try_count (ex_client s))) (\<lambda>n.
                   if n = max_try_count then kill else ret ()))
               else ret ())
              (raise x)
        | _ \<Rightarrow> raise x)" for x
    by (cases x) (auto intro!: keeps_intros keeps_auths_ops)
  show ?thesis
    unfolding execute_auth_def
    by (intro keeps_bind [OF foreign_readers(4)] keeps_catching handler keeps_auths_login)
      (intro keeps_intros keeps_auths_locks keeps_auths_ops)
qed

lemma keeps_auths_dl: "keeps (auths_owned F) (execute_dl n k rb)"
proof -
  have "keeps (auths_owned F) (\<lambda>s. case lock_objects (w_heap (ex_world s)) token of
         Some (Download_lock t) \<Rightarrow>
           (case download_set_file_offset k t of
              Inl x \<Rightarrow> raise x (on_heap (free_lock (Some token)) s)
            | Inr t' \<Rightarrow>
                andthen (modify (on_heap (set_lock token (Download_lock t'))))
                (andthen (set_download_token (Some token))
                  (ret (add_line (nat_to_string (unat (dt_size t' - dt_offset t'))) rb))) s)
       | _ \<Rightarrow> raise (NullDereference ''token'') s)" for token
    by (auto simp: keeps_def auths_owned_def andthen_def bind_def set_download_token_def world_simps
        split: option.splits lock_object.splits sum.splits)
  then show ?thesis
    unfolding execute_dl_def by (intro keeps_bind foreign_readers keeps_auths_locks)
qed

lemma keeps_auths_ul: "keeps (auths_owned F) (execute_ul e n sz retry rb)"
proof -
  have tail: "keeps (auths_owned F) (case (removed, a, b, c) of
               (Inl x, _, _, _) \<Rightarrow> raise (system_error x ''remove'')
             | (Inr _, Some p, Some sz, Some off) \<Rightarrow>
                 bind (with_world (upload_file p (word_of_int sz))) (\<lambda>token.
                 andthen (update_upload token (add_file_offset (word_of_int off))) (ret token))
             | (Inr _, _, _, _) \<Rightarrow> raise (protocol_error no_upload_to_resume))"
    for removed :: "errno + bool" and a b c
    by (auto split: sum.splits option.splits intro!: keeps_intros keeps_auths_ops keeps_auths_locks)
  have "keeps (auths_owned F) (retry_upload e)"
    unfolding retry_upload_def
    by (intro keeps_bind foreign_readers keeps_gets keeps_case_option keeps_raise keeps_auths_ops tail)
  moreover have "keeps (auths_owned F) (start_new_upload n sz)"
    unfolding start_new_upload_def by (intro keeps_bind foreign_readers keeps_auths_locks)
  ultimately show ?thesis
    unfolding execute_ul_def by (intro keeps_intros foreign_readers keeps_auths_ops)
qed

lemma keeps_auths_files:
  "keeps (auths_owned F) (execute_mkdir n rb)" "keeps (auths_owned F) (execute_rm n rb)"
  "keeps (auths_owned F) (execute_rename x y rb)" "keeps (auths_owned F) (execute_mv p n rb)"
  "keeps (auths_owned F) (execute_cp p n rb)" "keeps (auths_owned F) (execute_cd p rb)"
  "keeps (auths_owned F) (execute_ls e p b1 b2 rb)" "keeps (auths_owned F) (execute_tree p rb)"
  unfolding execute_mkdir_def execute_rm_def execute_rename_def execute_mv_def execute_cp_def execute_cd_def
    set_path_of_client_def execute_ls_def execute_tree_def path_or_current_def
  by (intro keeps_intros foreign_readers keeps_auths_ops keeps_cases)+

lemma run_command_auths: "auths_owned F s \<Longrightarrow> run_command e name flds s = (r, t) \<Longrightarrow> auths_owned F t"
proof (erule run_command_cases)
  fix c rb c' q
  assume s: "auths_owned F s" and ex: "execute e c' rb s = (q, t)"
  have "keeps (auths_owned F) (execute e c' rb)"
    by (cases c') (auto simp: execute_name_def execute_perms_def execute_pwd_def execute_dls_def keeps_auths_auth
        keeps_auths_dl keeps_auths_ul keeps_auths_files intro!: keeps_intros keeps_auths_ops foreign_readers)
  from keeps_result [OF this s ex] show "auths_owned F t" .
qed auto


abbreviation session_auths :: "oid set \<Rightarrow> session \<Rightarrow> bool" where
  "session_auths F s \<equiv> auths_owned F (exec_of s)"

lemma transfer_auths:
  "start_download i w dm = (r, w', dm') \<Longrightarrow> auth_objects (w_heap w') = auth_objects (w_heap w)"
  "start_upload i w um = (r, w', um') \<Longrightarrow> auth_objects (w_heap w') = auth_objects (w_heap w)"
  "upload_finish t w um = (r, w', um') \<Longrightarrow> auth_objects (w_heap w') = auth_objects (w_heap w)"
  "download_send a w dm = (q, w', dm', out) \<Longrightarrow> auth_objects (w_heap w') = auth_objects (w_heap w)"
  by (auto simp: start_download_def start_upload_def upload_finish_def download_send_def Let_def world_simps
      split: option.splits lock_object.splits node.splits if_splits prod.splits sum.splits)

lemma upload_commit_auths:
  "upload_commit_bytes (w, m) bs = (r, (w', m'), rest) \<Longrightarrow> auth_objects (w_heap w') = auth_objects (w_heap w)"
  by (auto simp: upload_commit_bytes_def Let_def world_simps split: option.splits if_splits prod.splits sum.splits
      dest!: transfer_auths(3))

lemma start_auths:
  "client_start_download s = (r, s') \<Longrightarrow> session_auths F s \<Longrightarrow> session_auths F s'"
  "client_start_upload s = (r, s') \<Longrightarrow> session_auths F s \<Longrightarrow> session_auths F s'"
  by (auto simp: client_start_download_def client_start_upload_def get_download_token_def get_upload_token_def
      on_client_def auths_owned_def split: prod.splits option.splits dest: transfer_auths(1,2))

lemma execute_command_auths: "execute_command e q s = (r, s') \<Longrightarrow> session_auths F s \<Longrightarrow> session_auths F s'"
  using run_command_auths [of F "exec_of s" e "r_name q" "r_fields q"]
  by (auto simp: execute_command_def Let_def split: prod.splits sum.splits exn.splits if_splits dest: start_auths)

lemma input_step_auths: "input_step e s input = (r, s', rest) \<Longrightarrow> session_auths F s \<Longrightarrow> session_auths F s'"
proof (cases "m_mode (context_of s)")
  case mode_command
  assume "input_step e s input = (r, s', rest)" "session_auths F s"
  with mode_command show ?thesis
    by (auto simp: input_step_def handle_request_def split: prod.splits sum.splits exn.splits if_splits
        dest: execute_command_auths)
next
  case mode_download
  assume "input_step e s input = (r, s', rest)" "session_auths F s"
  with mode_download show ?thesis by (auto simp: input_step_def auths_owned_def)
next
  case mode_upload
  assume "input_step e s input = (r, s', rest)" "session_auths F s"
  with mode_upload show ?thesis
    by (auto simp: input_step_def handle_upload_def Let_def auths_owned_def split: prod.splits sum.splits if_splits
        dest: upload_commit_auths)
qed

lemma handle_input_auths: "handle_input e s input = (r, s') \<Longrightarrow> session_auths F s \<Longrightarrow> session_auths F s'"
proof (induction e s input arbitrary: r s' rule: handle_input.induct)
  case (1 e s input)
  obtain q s1 rest where step: "input_step e s input = (q, s1, rest)" by (cases "input_step e s input")
  note ok = input_step_auths [OF step 1(3)]
  show ?case
  proof (cases "\<exists>u. q = Inr u \<and> rest \<noteq> []")
    case True
    then obtain u where u: "q = Inr u" "rest \<noteq> []" by blast
    then have "handle_input e s1 rest = (r, s')" using 1(2) step by (subst (asm) handle_input.simps) simp
    then show ?thesis using 1(1) [OF step [symmetric] u(1) refl u(2)] ok by blast
  next
    case False
    then have "s' = s1" using 1(2) step by (subst (asm) handle_input.simps) (auto split: sum.splits)
    then show ?thesis using ok by simp
  qed
qed

lemma handle_auths: "handle e events io s = (s', out) \<Longrightarrow> session_auths F s \<Longrightarrow> session_auths F s'"
proof -
  assume run: "handle e events io s = (s', out)" and s: "session_auths F s"
  obtain r s1 where inp: "handle_events_input e events io s = (r, s1)" by fastforce
  obtain r2 s2 o2 where outp: "handle_output io s1 = (r2, s2, o2)" by (metis surj_pair)
  have s1: "session_auths F s1"
    using inp s
    by (auto simp: handle_events_input_def handle_pending_input_def handle_current_input_def auths_owned_def
        split: if_splits sum.splits prod.splits dest!: handle_input_auths [of e s _ _ _ F])
  then have s2: "session_auths F s2"
    using outp
    by (auto simp: handle_output_def handle_executor_output_def handle_download_manager_output_def Let_def auths_owned_def
        split: if_splits sum.splits prod.splits dest: transfer_auths(4))
  have kill: "session_auths F (kill_session t) = session_auths F t" for t by (simp add: kill_session_def auths_owned_def)
  show "session_auths F s'"
    using run inp outp s1 s2 by (auto simp: handle_def kill split: sum.splits if_splits)
qed

section \<open>The invariant of the pool\<close>

abbreviation conn :: "world \<Rightarrow> Client \<Rightarrow> session" where
  "conn w c \<equiv> \<lparr>ss_world = w, ss_client = c\<rparr>"

definition client_locks :: "Client \<Rightarrow> oid set" where
  "client_locks c = {i. m_current_path_lock (c_context c) = Some i \<or> m_download_token (c_context c) = Some i \<or>
     m_upload_token (c_context c) = Some i \<or> dm_token (c_download_manager c) = Some i \<or>
     um_token (c_upload_manager c) = Some i}"

abbreviation client_auth :: "Client \<Rightarrow> oid option" where
  "client_auth c \<equiv> m_auth_token (c_context c)"

definition disjoint_clients :: "Client \<Rightarrow> Client \<Rightarrow> bool" where
  "disjoint_clients c d \<longleftrightarrow> client_locks c \<inter> client_locks d = {} \<and> set_option (client_auth c) \<inter> set_option (client_auth d) = {}"

definition pool_ok :: "world \<Rightarrow> (fd \<times> Client) list \<Rightarrow> bool" where
  "pool_ok w pool \<longleftrightarrow> world_ok w \<and> distinct (map fst pool) \<and>
     (\<forall>x\<in>set pool. running (conn w (snd x))) \<and>
     (\<forall>x\<in>set pool. \<forall>y\<in>set pool. fst x \<noteq> fst y \<longrightarrow> disjoint_clients (snd x) (snd y)) \<and>
     dom (auth_objects (w_heap w)) \<subseteq> (\<Union>x\<in>set pool. set_option (client_auth (snd x)))"

lemma conn_eta [simp]: "conn (ss_world s) (ss_client s) = (s :: session)"
  by (cases s) simp

lemma lock_ptrs_conn [simp]: "lock_ptrs (conn w c) = client_locks c"
  by (auto simp: lock_ptrs_def client_locks_def)

text \<open>A connection is unaffected by changes to the world that keep its own objects.\<close>

lemma running_frame:
  assumes "running (conn w c)" and "world_ok w'"
    and "\<And>i. i \<in> client_locks c \<Longrightarrow> lock_objects (w_heap w') i = lock_objects (w_heap w) i"
    and "\<And>j. client_auth c = Some j \<Longrightarrow> auth_objects (w_heap w') j = auth_objects (w_heap w) j"
  shows "running (conn w' c)"
proof -
  have "points_to (w_heap w') k p" if "points_to (w_heap w) k p" "\<And>i. p = Some i \<Longrightarrow> i \<in> client_locks c" for k p
    using that assms(3) by (auto simp: points_to_def)
  then show ?thesis
    using assms(1,2,4)
    by (auto simp: running_def session_base_def locks_apart_def mode_ok_def client_locks_def)
qed

text \<open>The objects of a set of clients, as they are in a world.\<close>

definition locks_of :: "world \<Rightarrow> Client set \<Rightarrow> (oid \<times> lock_object) set" where
  "locks_of w cs = {(i, l). (\<exists>c\<in>cs. i \<in> client_locks c) \<and> lock_objects (w_heap w) i = Some l}"

definition auths_of :: "world \<Rightarrow> Client set \<Rightarrow> (oid \<times> AuthToken) set" where
  "auths_of w cs = {(j, a). (\<exists>c\<in>cs. client_auth c = Some j) \<and> auth_objects (w_heap w) j = Some a}"

lemma foreign_of_others:
  assumes "world_ok w" and "\<And>d. d \<in> cs \<Longrightarrow> disjoint_clients c d"
  shows "session_foreign (locks_of w cs) (auths_of w cs) (conn w c)"
  using assms
  by (auto simp: session_foreign_def world_ok_def locks_of_def auths_of_def disjoint_clients_def)

lemma others_running:
  assumes "running (conn w d)" and "d \<in> cs" and "world_ok (ss_world s)"
    and "session_foreign (locks_of w cs) (auths_of w cs) s"
  shows "running (conn (ss_world s) d)" and "client_locks d \<inter> lock_ptrs s = {}"
    and "set_option (client_auth d) \<inter> set_option (m_auth_token (context_of s)) = {}"
proof -
  have live: "\<exists>l. lock_objects (w_heap w) i = Some l" if "i \<in> client_locks d" for i
    using assms(1) that by (auto simp: running_def session_base_def locks_apart_def points_to_def client_locks_def)
  have kept: "lock_objects (heap_of s) i = lock_objects (w_heap w) i \<and> i \<notin> lock_ptrs s" if i: "i \<in> client_locks d" for i
  proof -
    obtain l where "lock_objects (w_heap w) i = Some l" using live [OF i] by blast
    with assms(2,4) i show ?thesis by (fastforce simp: session_foreign_def locks_of_def)
  qed
  have auth: "auth_objects (heap_of s) j = auth_objects (w_heap w) j \<and> m_auth_token (context_of s) \<noteq> Some j"
    if j: "client_auth d = Some j" for j
  proof -
    obtain a where "auth_objects (w_heap w) j = Some a" using assms(1) j by (auto simp: running_def session_base_def)
    with assms(2,4) j show ?thesis by (fastforce simp: session_foreign_def auths_of_def)
  qed
  show "running (conn (ss_world s) d)" by (rule running_frame [OF assms(1,3)]) (use kept auth in auto)
  show "client_locks d \<inter> lock_ptrs s = {}" using kept by blast
  show "set_option (client_auth d) \<inter> set_option (m_auth_token (context_of s)) = {}" using auth by auto
qed

section \<open>Destroying a client\<close>

lemma create_backup_effect:
  assumes "world_ok w"
  shows "world_ok (create_backup w m)" and "w_heap (create_backup w m) = w_heap w"
proof -
  have ok: "disk_ok (w_disk w)" using assms by (rule world_ok_disk)
  obtain q d where op: "file_open_trunc (w_disk w) (um_backup_file_name m) = (q, d)" by fastforce
  have d: "disk_ok d" using disk_ok_file_ops(1) [OF ok] op by (metis snd_conv)
  show "world_ok (create_backup w m)"
    using assms op d disk_ok_file_append [OF d]
    by (auto simp: create_backup_def world_ok_disk split: option.splits sum.splits)
  show "w_heap (create_backup w m) = w_heap w"
    by (auto simp: create_backup_def world_simps split: option.splits sum.splits prod.splits)
qed

lemma destroy_client_heap:
  "lock_objects (w_heap (destroy_client w c)) i = (if i \<in> client_locks c then None else lock_objects (w_heap w) i)"
  "auth_objects (w_heap (destroy_client w c)) j = (if client_auth c = Some j then None else auth_objects (w_heap w) j)"
proof -
  have backup: "w_heap (create_backup w m) = w_heap w" for m
    by (auto simp: create_backup_def world_simps split: option.splits sum.splits prod.splits)
  have freed: "lock_objects (free_lock p h) i = (if p = Some i then None else lock_objects h i)" for p h i
    by (auto simp: free_lock_def split: option.splits)
  have freed_auth: "auth_objects (free_auth p h) j = (if p = Some j then None else auth_objects h j)" for p h j
    by (auto simp: free_auth_def split: option.splits)
  show "lock_objects (w_heap (destroy_client w c)) i = (if i \<in> client_locks c then None else lock_objects (w_heap w) i)"
    and "auth_objects (w_heap (destroy_client w c)) j = (if client_auth c = Some j then None else auth_objects (w_heap w) j)"
    by (auto simp: destroy_client_def destroy_context_def destroy_upload_manager_def upload_has_finished_def Let_def
        world_simps backup freed freed_auth client_locks_def)
qed

lemma world_ok_free_lock: "world_ok (set_heap h w) \<Longrightarrow> world_ok (set_heap (free_lock p h) w)"
  and world_ok_free_auth: "world_ok (set_heap h w) \<Longrightarrow> world_ok (set_heap (free_auth p h) w)"
  using world_ok_heap_edits(1,2) [of "set_heap h w" p] by (simp_all add: set_heap_def)

lemma world_ok_destroy_client: "world_ok w \<Longrightarrow> world_ok (destroy_client w c)"
proof -
  assume w: "world_ok w"
  have self: "set_heap (w_heap v) v = v" for v by (simp add: set_heap_def)
  have um: "world_ok (destroy_upload_manager w m)" for m
    using create_backup_effect(1) [OF w] world_ok_heap_edits(2) w by (simp add: destroy_upload_manager_def Let_def)
  show ?thesis
    unfolding destroy_client_def destroy_context_def Let_def
    by (intro world_ok_free_auth world_ok_free_lock) (simp add: self um)
qed

lemma destroy_keeps_others:
  assumes "running (conn w d)" and "disjoint_clients c d" and "world_ok w"
  shows "running (conn (destroy_client w c) d)"
  by (rule running_frame [OF assms(1) world_ok_destroy_client [OF assms(3)]])
    (use assms(2) in \<open>auto simp: destroy_client_heap disjoint_clients_def\<close>)

section \<open>Steps of the supervisor\<close>

lemma in_delete: "x \<in> set (AList.delete k xs) \<longleftrightarrow> x \<in> set xs \<and> fst x \<noteq> k"
  by (auto simp: AList.delete_eq)

lemma map_of_pool: "distinct (map fst pool) \<Longrightarrow> map_of pool k = Some c \<longleftrightarrow> (k, c) \<in> set pool"
  by (simp add: map_of_eq_Some_iff)

text \<open>Between handling an event and rearming, the connection at hand may be dead.\<close>

definition pool_almost :: "fd \<Rightarrow> world \<Rightarrow> (fd \<times> Client) list \<Rightarrow> bool" where
  "pool_almost k w pool \<longleftrightarrow> world_ok w \<and> distinct (map fst pool) \<and>
     (\<forall>x\<in>set pool. fst x \<noteq> k \<longrightarrow> running (conn w (snd x))) \<and>
     (\<forall>x\<in>set pool. \<forall>y\<in>set pool. fst x \<noteq> fst y \<longrightarrow> disjoint_clients (snd x) (snd y)) \<and>
     dom (auth_objects (w_heap w)) \<subseteq> (\<Union>x\<in>set pool. set_option (client_auth (snd x)))"

lemma pool_ok_almost: "pool_ok w pool \<Longrightarrow> pool_almost k w pool"
  by (simp add: pool_ok_def pool_almost_def)

lemma pool_almost_ok: "pool_almost k w pool \<Longrightarrow> map_of pool k = Some c \<Longrightarrow> running (conn w c) \<Longrightarrow> pool_ok w pool"
proof -
  assume pool: "pool_almost k w pool" and c: "map_of pool k = Some c" "running (conn w c)"
  have dist: "distinct (map fst pool)" using pool by (simp add: pool_almost_def)
  have "running (conn w (snd x))" if "x \<in> set pool" for x
  proof (cases "fst x = k")
    case True
    then have "map_of pool k = Some (snd x)" using that map_of_pool [OF dist] by (cases x) simp
    with c show ?thesis by simp
  next
    case False
    with that pool show ?thesis by (simp add: pool_almost_def)
  qed
  with pool show ?thesis by (simp add: pool_ok_def pool_almost_def)
qed

lemma pool_ok_close:
  assumes "pool_almost k w pool" and "(k, c) \<in> set pool"
  shows "pool_ok (destroy_client w c) (AList.delete k pool)"
proof -
  have w: "world_ok w" and dist: "distinct (map fst pool)" using assms(1) by (simp_all add: pool_almost_def)
  have apart: "disjoint_clients c (snd x)" if "x \<in> set pool" "fst x \<noteq> k" for x
    using assms that unfolding pool_almost_def by fastforce
  have "running (conn (destroy_client w c) (snd x))" if x: "x \<in> set pool" "fst x \<noteq> k" for x
    using destroy_keeps_others [OF _ apart [OF x] w] assms(1) x by (simp add: pool_almost_def)
  moreover have "dom (auth_objects (w_heap (destroy_client w c))) \<subseteq>
      (\<Union>x\<in>set (AList.delete k pool). set_option (client_auth (snd x)))"
  proof
    fix j
    assume "j \<in> dom (auth_objects (w_heap (destroy_client w c)))"
    then have j: "j \<in> dom (auth_objects (w_heap w))" "client_auth c \<noteq> Some j"
      by (auto simp: destroy_client_heap split: if_splits)
    moreover have "dom (auth_objects (w_heap w)) \<subseteq> (\<Union>x\<in>set pool. set_option (client_auth (snd x)))"
      using assms(1) by (simp add: pool_almost_def)
    ultimately have "j \<in> (\<Union>x\<in>set pool. set_option (client_auth (snd x)))" by blast
    then obtain x where x: "x \<in> set pool" "client_auth (snd x) = Some j" by auto
    have "fst x \<noteq> k"
    proof
      assume "fst x = k"
      then have "(k, snd x) \<in> set pool" using x(1) by (cases x) simp
      then have "snd x = c" using assms(2) map_of_pool [OF dist] by (metis option.inject)
      then show False using x(2) j(2) by simp
    qed
    with x show "j \<in> (\<Union>x\<in>set (AList.delete k pool). set_option (client_auth (snd x)))"
      by (auto simp: in_delete intro!: bexI [of _ x])
  qed
  ultimately show ?thesis
    using assms(1) world_ok_destroy_client [OF w] distinct_delete [OF dist, of k]
    by (auto simp: pool_ok_def pool_almost_def in_delete)
qed

lemma set_update: "distinct (map fst xs) \<Longrightarrow> set (AList.update k v xs) = insert (k, v) {x \<in> set xs. fst x \<noteq> k}"
proof (induction xs)
  case (Cons x xs)
  then show ?case by (cases x) force
qed simp

text \<open>The sessions of the pool are those of one client and those of the others.\<close>

lemma auths_of_pool:
  assumes "pool_ok w pool" and "(k, c) \<in> set pool"
  shows "dom (auth_objects (w_heap w)) \<subseteq> (\<Union>x\<in>{x \<in> set pool. fst x \<noteq> k}. set_option (client_auth (snd x))) \<union> set_option (client_auth c)"
proof
  fix j
  assume "j \<in> dom (auth_objects (w_heap w))"
  with assms(1) obtain x where x: "x \<in> set pool" "j \<in> set_option (client_auth (snd x))" unfolding pool_ok_def by blast
  have "snd x = c" if "fst x = k"
  proof -
    have "(k, snd x) \<in> set pool" using x(1) that by (metis prod.collapse)
    then show ?thesis using assms map_of_pool [of pool] by (metis option.inject pool_ok_def)
  qed
  with x show "j \<in> (\<Union>x\<in>{x \<in> set pool. fst x \<noteq> k}. set_option (client_auth (snd x))) \<union> set_option (client_auth c)" by blast
qed

text \<open>The other clients after an event of one.\<close>

lemma others_after_handle:
  assumes pool: "pool_ok w pool" and c: "(k, c) \<in> set pool" and run: "handle e ev io (conn w c) = (s, out)"
  shows "world_ok (ss_world s)" and "is_alive (ss_client s) \<Longrightarrow> running s"
    and "x \<in> set pool \<Longrightarrow> fst x \<noteq> k \<Longrightarrow> running (conn (ss_world s) (snd x)) \<and> disjoint_clients (ss_client s) (snd x)"
proof -
  define others where "others = {x \<in> set pool. fst x \<noteq> k}"
  have w: "world_ok w" and run_c: "running (conn w c)" using pool c by (auto simp: pool_ok_def)
  have apart: "disjoint_clients c (snd x)" if "x \<in> others" for x
    using pool c that unfolding pool_ok_def others_def by fastforce
  let ?L = "locks_of w (snd ` others)" and ?A = "auths_of w (snd ` others)"
  have foreign: "session_foreign ?L ?A (conn w c)"
    by (rule foreign_of_others [OF w]) (use apart in auto)
  note ok = handle_ok [OF run_c run, of ?L ?A]
  then show "is_alive (ss_client s) \<Longrightarrow> running s" by blast
  show w': "world_ok (ss_world s)" using ok by (simp add: session_base_def)
  have foreign': "session_foreign ?L ?A s" using ok foreign by blast
  assume "x \<in> set pool" "fst x \<noteq> k"
  then have r: "running (conn w (snd x))" and m: "snd x \<in> snd ` others" using pool by (auto simp: pool_ok_def others_def)
  have "lock_ptrs s = client_locks (ss_client s)" by (auto simp: lock_ptrs_def client_locks_def)
  with others_running [OF r m w' foreign'] show "running (conn (ss_world s) (snd x)) \<and> disjoint_clients (ss_client s) (snd x)"
    by (auto simp: disjoint_clients_def)
qed

lemma pool_almost_handle:
  assumes pool: "pool_ok w pool" and c: "(k, c) \<in> set pool" and run: "handle e ev io (conn w c) = (s, out)"
  shows "pool_almost k (ss_world s) (AList.update k (ss_client s) pool)" and "is_alive (ss_client s) \<Longrightarrow> running s"
proof -
  define others where "others = {x \<in> set pool. fst x \<noteq> k}"
  let ?F = "\<Union>x\<in>others. set_option (client_auth (snd x))"
  have dist: "distinct (map fst pool)" using pool by (simp add: pool_ok_def)
  note after = others_after_handle [OF pool c run]
  then show "is_alive (ss_client s) \<Longrightarrow> running s" by blast
  have keys: "set (AList.update k (ss_client s) pool) = insert (k, ss_client s) others"
    using set_update [OF dist] by (simp add: others_def)
  have "session_auths ?F (conn w c)"
    using auths_of_pool [OF pool c] by (simp add: auths_owned_def auths_in_def others_def)
  from handle_auths [OF run this]
  have "dom (auth_objects (heap_of s)) \<subseteq> ?F \<union> set_option (client_auth (ss_client s))"
    by (simp add: auths_owned_def auths_in_def)
  moreover have "disjoint_clients a b \<longleftrightarrow> disjoint_clients b a" for a b by (auto simp: disjoint_clients_def)
  moreover have "disjoint_clients (snd x) (snd y)" if "x \<in> others" "y \<in> others" "fst x \<noteq> fst y" for x y
    using pool that by (auto simp: pool_ok_def others_def)
  moreover have "running (conn (ss_world s) (snd x))" "disjoint_clients (ss_client s) (snd x)" if "x \<in> others" for x
    using after(3) that by (auto simp: others_def)
  ultimately show "pool_almost k (ss_world s) (AList.update k (ss_client s) pool)"
    using after(1) distinct_update [OF dist, of k "ss_client s"]
    unfolding pool_almost_def keys by auto
qed

section \<open>Every step of the server\<close>

abbreviation supervisor_ok :: "supervisor \<Rightarrow> bool" where
  "supervisor_ok v \<equiv> pool_ok (sv_world v) (sv_pool v)"

lemma close_one_ok:
  assumes "pool_almost k (sv_world v) (sv_pool v)" and "has_client v k" and "close_one k v = (r, v')"
  shows "supervisor_ok v' \<and> length (sv_pool v') \<le> length (sv_pool v)"
proof -
  obtain c where c: "map_of (sv_pool v) k = Some c" using assms(2) by (auto simp: has_client_def)
  then have "(k, c) \<in> set (sv_pool v)" by (rule map_of_SomeD)
  with pool_ok_close [OF assms(1)] c assms(3) show ?thesis
    by (auto simp: close_one_def AList.delete_eq)
qed

lemma new_client_destroyed: "destroy_client w (new_client stale) = w"
  by (simp add: destroy_client_def destroy_context_def destroy_upload_manager_def upload_has_finished_def new_client_def
      new_client_context_def new_upload_manager_def new_download_manager_def free_lock_def free_auth_def set_heap_def)

lemma new_client_running: "world_ok w \<Longrightarrow> running (conn w (new_client stale))"
  by (simp add: running_def session_base_def locks_apart_def mode_ok_def located_def is_authorized_def sender_wf_def
      ready_interpreter_def bounded_interpreter_def new_client_def new_client_context_def
      new_interpreter_def new_sender_def new_download_manager_def new_upload_manager_def)

lemma new_client_disjoint: "disjoint_clients (new_client stale) c \<and> disjoint_clients c (new_client stale)"
  by (simp add: disjoint_clients_def client_locks_def new_client_def new_client_context_def new_download_manager_def
      new_upload_manager_def)

lemma spawn_client_ok:
  assumes "supervisor_ok v" and "spawn_client stale k v = (r, v')"
  shows "supervisor_ok v' \<and> length (sv_pool v') \<le> Suc (length (sv_pool v))"
proof (cases "has_client v k")
  case True
  with assms show ?thesis by (auto simp: spawn_client_def new_client_destroyed)
next
  case False
  then have new: "k \<notin> fst ` set (sv_pool v)" by (simp add: has_client_def map_of_eq_None_iff)
  have w: "world_ok (sv_world v)" using assms(1) by (simp add: pool_ok_def)
  have "pool_ok (sv_world v) (sv_pool v @ [(k, new_client stale)])"
    using assms(1) new new_client_running [OF w] new_client_disjoint unfolding pool_ok_def by fastforce
  with assms(2) False show ?thesis by (auto simp: spawn_client_def)
qed

lemma accept_connection_ok:
  assumes "supervisor_ok v" and "accept_connection answer stale k v = (r, v')"
  shows "supervisor_ok v' \<and> length (sv_pool v') \<le> Suc (length (sv_pool v))"
proof -
  have close: "supervisor_ok u' \<and> length (sv_pool u') \<le> length (sv_pool u)" if u: "supervisor_ok u" and go: "close_one k u = (q, u')" for u u' q
  proof (cases "has_client u k")
    case True
    from close_one_ok [OF pool_ok_almost [OF u] True go] show ?thesis .
  next
    case False
    with u go show ?thesis by (auto simp: close_one_def has_client_def)
  qed
  show ?thesis
  proof (cases answer)
    case (Some code)
    with assms close show ?thesis by (fastforce simp: accept_connection_def epoll_ctl_def)
  next
    case None
    define u where "u = v\<lparr>sv_epoll := AList.update k (or (or ev_in edge_triggered) one_shot) (sv_epoll v)\<rparr>"
    have u: "supervisor_ok u" "sv_pool u = sv_pool v" using assms(1) by (simp_all add: u_def)
    obtain q u' where sp: "spawn_client stale k u = (q, u')" by fastforce
    have "\<not> is_system_error x" if "q = Inl x" for x
      using sp that by (auto simp: spawn_client_def is_system_error_def split: if_splits)
    with assms(2) None sp have "v' = u'"
      by (auto simp: accept_connection_def epoll_ctl_def u_def [symmetric] split: sum.splits if_splits)
    with spawn_client_ok [OF u(1) sp] u(2) show ?thesis by simp
  qed
qed

lemma service_step_ok:
  assumes "supervisor_ok v" and "service_step e p x v = (r, v')"
  shows "supervisor_ok v' \<and> length (sv_pool v') \<le> length (sv_pool v)"
proof (cases "map_of (sv_pool v) (se_fd x)")
  case None
  with assms show ?thesis by (auto simp: service_step_def split: if_splits)
next
  case (Some c)
  let ?k = "se_fd x"
  obtain s out where run: "handle e (se_events x) (se_io x) (conn (sv_world v) c) = (s, out)" by fastforce
  define u where "u = v\<lparr>sv_world := ss_world s, sv_pool := AList.update ?k (ss_client s) (sv_pool v)\<rparr>"
  have mem: "(?k, c) \<in> set (sv_pool v)" using Some by (rule map_of_SomeD)
  have almost: "pool_almost ?k (sv_world u) (sv_pool u)"
    using pool_almost_handle(1) [OF assms(1) mem run] by (simp add: u_def)
  have alive: "running s" if "is_alive (ss_client s)" using pool_almost_handle(2) [OF assms(1) mem run that] .
  have here: "map_of (sv_pool u) ?k = Some (ss_client s)" by (simp add: u_def update_conv')
  have len: "length (sv_pool u) = length (sv_pool v)"
  proof -
    have "?k \<in> set (map fst (sv_pool v))" using mem by force
    then have "map fst (sv_pool u) = map fst (sv_pool v)" by (simp add: u_def update_keys)
    then show ?thesis by (metis length_map)
  qed
  obtain q where rearm: "rearm_device (se_epoll_answer x) ?k u = (q, v')"
    using assms(2) Some run
    by (auto simp: service_step_def process_client_input_def handle_client_def u_def split: prod.splits)
  show ?thesis
  proof (cases "is_alive (ss_client s)")
    case True
    have "supervisor_ok u" using pool_almost_ok [OF almost here] alive [OF True] by (simp add: u_def)
    moreover have "sv_world v' = sv_world u \<and> sv_pool v' = sv_pool u"
      using rearm True here
      by (auto simp: rearm_device_def get_client_def epoll_ctl_def split: sum.splits option.splits)
    ultimately show ?thesis using len by simp
  next
    case False
    then have "close_one ?k u = (q, v')" using rearm here by (simp add: rearm_device_def get_client_def)
    with close_one_ok [OF almost] here len show ?thesis by (auto simp: has_client_def)
  qed
qed

lemma close_all_ok: "supervisor_ok v \<Longrightarrow> supervisor_ok (close_all v)"
proof -
  assume v: "supervisor_ok v"
  have fold: "world_ok w \<Longrightarrow> dom (auth_objects (w_heap w)) \<subseteq> (\<Union>x\<in>set xs. set_option (client_auth (snd x))) \<Longrightarrow>
      world_ok (foldl (\<lambda>w x. destroy_client w (snd x)) w xs) \<and>
      auth_objects (w_heap (foldl (\<lambda>w x. destroy_client w (snd x)) w xs)) = Map.empty" for w and xs :: "(fd \<times> Client) list"
  proof (induction xs arbitrary: w)
    case (Cons x xs)
    have "dom (auth_objects (w_heap (destroy_client w (snd x)))) \<subseteq> (\<Union>x\<in>set xs. set_option (client_auth (snd x)))"
    proof
      fix j
      assume "j \<in> dom (auth_objects (w_heap (destroy_client w (snd x))))"
      then have "j \<in> dom (auth_objects (w_heap w))" "client_auth (snd x) \<noteq> Some j"
        by (auto simp: destroy_client_heap split: if_splits)
      then have "j \<in> (\<Union>y\<in>set (x # xs). set_option (client_auth (snd y)))" "j \<notin> set_option (client_auth (snd x))"
        using Cons.prems(2) by (blast, simp)
      then show "j \<in> (\<Union>x\<in>set xs. set_option (client_auth (snd x)))" by simp
    qed
    with Cons.IH [OF world_ok_destroy_client [OF Cons.prems(1)]] show ?case by simp
  qed simp
  from v fold [of "sv_world v" "sv_pool v"] show ?thesis by (simp add: pool_ok_def close_all_def)
qed

section \<open>Reachable states\<close>

text \<open>
  The steps of a running server: the main thread takes a connection or a signal, a service
  thread takes one event. Service threads take events as long as the supervisor runs.
\<close>

inductive server_step :: "env \<Rightarrow> fd \<Rightarrow> server \<Rightarrow> server \<Rightarrow> bool" for e p where
  connection: "srv_running s \<Longrightarrow> listener_handle_connection a s = (r, s') \<Longrightarrow> server_step e p s s'"
| signal: "srv_running s \<Longrightarrow> handle_signal signo s = (r, s') \<Longrightarrow> server_step e p s s'"
| event: "sv_running (srv_supervisor s) \<Longrightarrow> service_step e p x (srv_supervisor s) = (r, v) \<Longrightarrow>
    server_step e p s (s\<lparr>srv_supervisor := v\<rparr>)"

inductive_cases server_stepE: "server_step e p s s'"

definition new_server :: "ServerConfig \<Rightarrow> world \<Rightarrow> fd \<Rightarrow> server" where
  "new_server config w pipe_fd = \<lparr>srv_config = config, srv_running = True, srv_supervisor =
     \<lparr>sv_world = w, sv_pool = [], sv_epoll = [(pipe_fd, ev_in)], sv_running = True\<rparr>\<rparr>"

definition server_ok :: "server \<Rightarrow> bool" where
  "server_ok s \<longleftrightarrow> supervisor_ok (srv_supervisor s) \<and>
     int (get_client_count (srv_supervisor s)) \<le> max 0 (cfg_max_user_count (srv_config s))"

lemma server_step_ok: "server_step e p s s' \<Longrightarrow> server_ok s \<Longrightarrow> server_ok s' \<and> srv_config s' = srv_config s"
proof (induction rule: server_step.induct)
  case (connection s a r s')
  show ?case
  proof (cases "\<exists>k stale answer. a = Accepted k stale answer \<and> int (get_client_count (srv_supervisor s)) < cfg_max_user_count (srv_config s)")
    case True
    then obtain k stale answer where a: "a = Accepted k stale answer"
      and free: "int (get_client_count (srv_supervisor s)) < cfg_max_user_count (srv_config s)" by blast
    obtain q v where acc: "accept_connection answer stale k (srv_supervisor s) = (q, v)" by fastforce
    have s': "s' = s\<lparr>srv_supervisor := v\<rparr>"
      using connection(2) a free acc by (simp add: listener_handle_connection_def handle_connection_def)
    from accept_connection_ok [OF _ acc] connection(3) free show ?thesis
      by (auto simp: s' server_ok_def get_client_count_def)
  next
    case False
    then have "s' = s"
      using connection(2) by (auto simp: listener_handle_connection_def handle_connection_def split: accept_answer.splits)
    with connection(3) show ?thesis by simp
  qed
next
  case (signal s signo r s')
  then show ?case
    by (auto simp: handle_signal_def server_stop_def supervisor_stop_def server_ok_def get_client_count_def close_all_ok
        split: if_splits) (simp_all add: close_all_def)
next
  case (event s x r v)
  then have "supervisor_ok (srv_supervisor s)" by (simp add: server_ok_def)
  from service_step_ok [OF this event(2)] event(3) show ?case by (auto simp: server_ok_def get_client_count_def)
qed

lemma reachable_ok:
  assumes "(server_step e p)\<^sup>*\<^sup>* s t" and "server_ok s"
  shows "server_ok t \<and> srv_config t = srv_config s"
  using assms by (induction rule: rtranclp_induct) (auto dest: server_step_ok)

lemma new_server_ok:
  "world_ok w \<Longrightarrow> auth_objects (w_heap w) = Map.empty \<Longrightarrow> server_ok (new_server config w p)"
  by (simp add: server_ok_def new_server_def pool_ok_def get_client_count_def)

definition user_of :: "world \<Rightarrow> Client \<Rightarrow> string option" where
  "user_of w c = map_option at_username (Option.bind (client_auth c) (auth_objects (w_heap w)))"

definition pool_users :: "supervisor \<Rightarrow> string set" where
  "pool_users v = {u. \<exists>x\<in>set (sv_pool v). user_of (sv_world v) (snd x) = Some u}"

lemma pool_users_live: "supervisor_ok v \<Longrightarrow> pool_users v = at_username ` ran (auth_objects (w_heap (sv_world v)))"
proof -
  assume v: "supervisor_ok v"
  let ?A = "auth_objects (w_heap (sv_world v))"
  have owned: "dom ?A \<subseteq> (\<Union>x\<in>set (sv_pool v). set_option (client_auth (snd x)))" using v by (simp add: pool_ok_def)
  show ?thesis
  proof (rule set_eqI, rule iffI)
    fix u
    assume "u \<in> pool_users v"
    then show "u \<in> at_username ` ran ?A"
      by (auto simp: pool_users_def user_of_def Option.bind_eq_Some_conv ran_def)
  next
    fix u
    assume "u \<in> at_username ` ran ?A"
    then obtain j a where a: "?A j = Some a" "u = at_username a" by (auto simp: ran_def)
    then have "j \<in> (\<Union>x\<in>set (sv_pool v). set_option (client_auth (snd x)))" using owned by blast
    then obtain x where "x \<in> set (sv_pool v)" "client_auth (snd x) = Some j" by auto
    with a show "u \<in> pool_users v" by (auto simp: pool_users_def user_of_def intro!: bexI [of _ x])
  qed
qed

section \<open>Properties\<close>

text \<open>
  C1: the invariant of the server. However connections arrive, whatever they send, in whatever
  order the service threads take the events and whatever the kernel answers: every connection
  of the pool is well-formed, no object is shared between two of them, the shared state is
  well-formed, and there are never more clients than the configuration allows.
\<close>

theorem server_invariant:
  assumes "world_ok w" and "auth_objects (w_heap w) = Map.empty" and "(server_step e p)\<^sup>*\<^sup>* (new_server config w p) t"
  shows "pool_ok (sv_world (srv_supervisor t)) (sv_pool (srv_supervisor t)) \<and>
    int (get_client_count (srv_supervisor t)) \<le> max 0 (cfg_max_user_count config)"
proof -
  have "server_ok t \<and> srv_config t = srv_config (new_server config w p)"
    by (rule reachable_ok [OF assms(3) new_server_ok [OF assms(1,2)]])
  then show ?thesis by (auto simp: server_ok_def new_server_def)
qed

theorem server_invariant_witness:
  "\<exists>t. server_step sample_env 9 (new_server (new_config 2) sample_world 9) t \<and> get_client_count (srv_supervisor t) = 1 \<and>
     pool_ok (sv_world (srv_supervisor t)) (sv_pool (srv_supervisor t))"
proof -
  let ?s = "new_server (new_config 2) sample_world 9"
  define t where "t = snd (listener_handle_connection (Accepted 5 0 None) ?s)"
  have "server_step sample_env 9 ?s t"
    by (rule server_step.connection [of _ "Accepted 5 0 None" "fst (listener_handle_connection (Accepted 5 0 None) ?s)"])
      (simp_all add: t_def new_server_def)
  moreover have "get_client_count (srv_supervisor t) = 1"
    by (simp add: t_def listener_handle_connection_def handle_connection_def new_server_def get_client_count_def
        new_config_def default_max_user_count_def default_max_thread_count_def accept_connection_def epoll_ctl_def
        spawn_client_def has_client_def)
  moreover have "auth_objects (w_heap sample_world) = Map.empty" by (simp add: sample_world_def empty_heap_def)
  ultimately show ?thesis
    using server_invariant [OF sample_world_ok, of sample_env 9 "new_config 2" t] by blast
qed

text \<open>
  C2: a user has at most one connection, and a session ends with its connection. In every
  reachable state two connections of the pool that are logged in as the same user are the same
  connection, and the users that \<open>authorize_user\<close> takes for logged in are exactly those of the
  connections in the pool: a user whose connection is gone can log in again.
\<close>

theorem one_session_per_user:
  assumes "world_ok w" and "auth_objects (w_heap w) = Map.empty" and "(server_step e p)\<^sup>*\<^sup>* (new_server config w p) t"
    and "v = srv_supervisor t"
  shows "set (authorized_names (sv_world v)) = pool_users v \<and>
    (\<forall>x\<in>set (sv_pool v). \<forall>y\<in>set (sv_pool v). \<forall>u.
       user_of (sv_world v) (snd x) = Some u \<and> user_of (sv_world v) (snd y) = Some u \<longrightarrow> fst x = fst y)"
proof -
  have "server_ok t" using reachable_ok [OF assms(3) new_server_ok [OF assms(1,2)]] by simp
  then have ok: "supervisor_ok v" by (simp add: server_ok_def assms(4))
  then have sess: "sessions_ok (sv_world v)" by (simp add: pool_ok_def world_ok_def)
  have "fst x = fst y"
    if x: "x \<in> set (sv_pool v)" "user_of (sv_world v) (snd x) = Some u"
      and y: "y \<in> set (sv_pool v)" "user_of (sv_world v) (snd y) = Some u" for x y u
  proof (rule ccontr)
    assume ne: "fst x \<noteq> fst y"
    obtain i a where i: "client_auth (snd x) = Some i" "auth_objects (w_heap (sv_world v)) i = Some a" "at_username a = u"
      using x(2) by (auto simp: user_of_def Option.bind_eq_Some_conv)
    obtain j b where j: "client_auth (snd y) = Some j" "auth_objects (w_heap (sv_world v)) j = Some b" "at_username b = u"
      using y(2) by (auto simp: user_of_def Option.bind_eq_Some_conv)
    have "i = j" using sess i j unfolding sessions_ok_def by metis
    moreover have "disjoint_clients (snd x) (snd y)" using ok x(1) y(1) ne by (auto simp: pool_ok_def)
    ultimately show False using i(1) j(1) by (simp add: disjoint_clients_def)
  qed
  then show ?thesis using authorized_names_live [OF sess] pool_users_live [OF ok] by metis
qed

theorem one_session_per_user_witness:
  "set (authorized_names (sv_world (srv_supervisor (new_server (new_config 2) sample_world 9)))) =
     pool_users (srv_supervisor (new_server (new_config 2) sample_world 9))"
proof -
  have "auth_objects (w_heap sample_world) = Map.empty" by (simp add: sample_world_def empty_heap_def)
  from one_session_per_user [OF sample_world_ok this rtranclp.rtrancl_refl [of "server_step sample_env 9"] refl]
  show ?thesis by blast
qed

text \<open>
  The configured backlog is ignored. The listener is put into the listening state before
  the backlog of the configuration is stored in it, so the kernel is given the default of 32.
\<close>

lemma backlog_not_applied:
  assumes "config_ok config"
  shows "\<exists>l. configure_listener None None config new_listener = Inr l \<and> l_backlog l = cfg_backlog config \<and>
    l_listening l = Some (make_endpoint any_address (cfg_port config), 32)"
  using assms
  by (simp add: configure_listener_def listen_port_def listen_endpoint_def set_backlog_def set_connection_type_def
      new_listener_def config_ok_def)

lemma backlog_not_applied_witness:
  "\<exists>l. configure_listener None None ((new_config 4)\<lparr>cfg_backlog := 100\<rparr>) new_listener = Inr l \<and>
     l_listening l = Some (make_endpoint any_address default_port, 32)"
proof -
  have "config_ok ((new_config 4)\<lparr>cfg_backlog := 100\<rparr>)" using new_config_ok [of 4] by (simp add: config_ok_def)
  from backlog_not_applied [OF this] show ?thesis by (auto simp: new_config_def)
qed

end
