(* ===== verification/Devices.thy ===== *)
theory Devices
  imports Server
begin

text \<open>
  The wrappers of file descriptors (\<open>src/server/src/linux/*_device.cpp\<close>, \<open>epoll_buffer.cpp\<close>, the
  constructors of \<open>ip/tcp_socket.cpp\<close> and \<open>ip/tcp_listener.cpp\<close>). Objects are numbered; each
  living one holds a descriptor, \<open>-1\<close> for none. The kernel's part of the state is the set of open
  descriptors, and its answers are inputs.
\<close>

section \<open>Objects and descriptors\<close>

record devices =
  dv_open :: "int set"
  dv_fd :: "nat \<Rightarrow> int option"

definition no_devices :: devices where
  "no_devices = \<lparr>dv_open = {}, dv_fd = (\<lambda>_. None)\<rparr>"

definition get_fd :: "nat \<Rightarrow> devices \<Rightarrow> int" where
  "get_fd i w = (case dv_fd w i of None \<Rightarrow> - 1 | Some fd \<Rightarrow> fd)"

definition is_valid :: "nat \<Rightarrow> devices \<Rightarrow> bool" where
  "is_valid i w \<longleftrightarrow> get_fd i w \<ge> 0"

definition set_fd :: "nat \<Rightarrow> int \<Rightarrow> devices \<Rightarrow> devices" where
  "set_fd i fd w = w\<lparr>dv_fd := (dv_fd w)(i \<mapsto> fd)\<rparr>"

text \<open>\<open>close(2)\<close> on a descriptor that is not open fails, and nobody looks at its result.\<close>

definition sys_close :: "int \<Rightarrow> devices \<Rightarrow> devices" where
  "sys_close fd w = w\<lparr>dv_open := dv_open w - {fd}\<rparr>"

text \<open>A system call that opens a descriptor.\<close>

definition sys_open :: "int \<Rightarrow> devices \<Rightarrow> devices" where
  "sys_open fd w = w\<lparr>dv_open := insert fd (dv_open w)\<rparr>"

section \<open>IoDevice\<close>

definition device_new :: "nat \<Rightarrow> devices \<Rightarrow> devices" where
  "device_new i = set_fd i (- 1)"

definition device_from_fd :: "nat \<Rightarrow> int \<Rightarrow> devices \<Rightarrow> devices" where
  "device_from_fd i fd = set_fd i fd"

definition device_destroy :: "nat \<Rightarrow> devices \<Rightarrow> devices" where
  "device_destroy i w = (sys_close (get_fd i w) w)\<lparr>dv_fd := (dv_fd w)(i := None)\<rparr>"

definition device_close :: "nat \<Rightarrow> devices \<Rightarrow> devices" where
  "device_close i w = sys_close (get_fd i w) (set_fd i (- 1) w)"

definition device_move :: "nat \<Rightarrow> nat \<Rightarrow> devices \<Rightarrow> devices" where
  "device_move i other w = set_fd i (get_fd other w) (set_fd other (- 1) w)"

definition device_assign :: "nat \<Rightarrow> nat \<Rightarrow> devices \<Rightarrow> devices" where
  "device_assign i other w = (if i \<noteq> other then set_fd i (get_fd other w) (set_fd other (- 1) w) else w)"

text \<open>The count and the error code of the overloads that do not throw, and those that do.\<close>

definition device_read_code :: "io_answer \<Rightarrow> int \<times> nat" where
  "device_read_code a = (case a of Transferred n \<Rightarrow> (int n, 0) | Io_error e \<Rightarrow> (- 1, e))"

definition device_read :: "io_answer \<Rightarrow> exn + int" where
  "device_read a = (let (count, code) = device_read_code a in if code \<noteq> 0 then Inl (SystemError code ''read(2)'') else Inr count)"

definition device_write_code :: "io_answer \<Rightarrow> int \<times> nat" where
  "device_write_code a = (case a of Transferred n \<Rightarrow> (int n, 0) | Io_error e \<Rightarrow> (- 1, e))"

definition device_write :: "io_answer \<Rightarrow> exn + int" where
  "device_write a = (let (count, code) = device_write_code a in if code \<noteq> 0 then Inl (SystemError code ''write(2)'') else Inr count)"

section \<open>Derived devices\<close>

text \<open>The answer of a call that opens a descriptor.\<close>

datatype fd_answer = New_fd int | Fd_error nat

text \<open>
  A constructor whose body throws destroys the base object, and with it the descriptor that was
  already set.
\<close>

definition file_open :: "fd_answer \<Rightarrow> nat \<Rightarrow> devices \<Rightarrow> (exn + unit) \<times> devices" where
  "file_open a i w =
     (case a of
        Fd_error e \<Rightarrow> (Inl (SystemError e ''open(2)''), w)
      | New_fd fd \<Rightarrow> (Inr (), set_fd i fd (sys_open fd w)))"

definition epoll_device_new :: "fd_answer \<Rightarrow> nat \<Rightarrow> devices \<Rightarrow> (exn + unit) \<times> devices" where
  "epoll_device_new a i w =
     (case a of
        New_fd fd \<Rightarrow> (Inr (), set_fd i fd (sys_open fd (device_new i w)))
      | Fd_error e \<Rightarrow> (Inl (SystemError e ''epoll_create1(2)''), device_destroy i (device_new i w)))"

definition signal_create_fd :: "fd_answer \<Rightarrow> nat \<Rightarrow> devices \<Rightarrow> (exn + unit) \<times> devices" where
  "signal_create_fd a i w =
     (case a of
        Fd_error e \<Rightarrow> (Inl (SystemError e ''signalfd(2)''), w)
      | New_fd fd \<Rightarrow> (Inr (), set_fd i fd (sys_open fd w)))"

definition tcp_listener_new :: "fd_answer \<Rightarrow> nat option \<Rightarrow> nat \<Rightarrow> devices \<Rightarrow> (exn + unit) \<times> devices" where
  "tcp_listener_new a option_answer i w =
     (case a of
        Fd_error e \<Rightarrow> (Inl (SystemError e ''socket(2)''), device_destroy i (device_new i w))
      | New_fd fd \<Rightarrow>
          let w1 = set_fd i fd (sys_open fd (device_new i w))
          in case option_answer of
               Some e \<Rightarrow> (Inl (SystemError e ''setsockopt(2)''), device_destroy i w1)
             | None \<Rightarrow> (Inr (), w1))"

text \<open>The descriptor was opened by \<open>accept4\<close>.\<close>

definition tcp_socket_new :: "int \<Rightarrow> nat option \<Rightarrow> nat \<Rightarrow> devices \<Rightarrow> (exn + unit) \<times> devices" where
  "tcp_socket_new fd option_answer i w =
     (let w1 = device_from_fd i fd w
      in case option_answer of
           Some e \<Rightarrow> (Inl (SystemError e ''setsockopt(2)''), device_destroy i w1)
         | None \<Rightarrow> (Inr (), w1))"

definition make_pipe :: "(nat + int \<times> int) \<Rightarrow> nat \<Rightarrow> nat \<Rightarrow> devices \<Rightarrow> (exn + unit) \<times> devices" where
  "make_pipe a r wr w =
     (case a of
        Inl e \<Rightarrow> (Inl (SystemError e ''pipe2(2)''), w)
      | Inr (fd0, fd1) \<Rightarrow> (Inr (), device_from_fd wr fd1 (device_from_fd r fd0 (sys_open fd1 (sys_open fd0 w)))))"

section \<open>Events and signals\<close>

text \<open>What \<open>epoll_wait\<close> stored; it stores at most as many events as the buffer holds.\<close>

type_synonym epoll_event = "fd \<times> EventType"

record EpollBuffer =
  eb_size :: nat
  eb_buffer :: "epoll_event list"
  eb_max_size :: nat

definition new_epoll_buffer :: "nat \<Rightarrow> epoll_event \<Rightarrow> EpollBuffer" where
  "new_epoll_buffer n zero = \<lparr>eb_size = 0, eb_buffer = replicate n zero, eb_max_size = n\<rparr>"

definition get_events :: "EpollBuffer \<Rightarrow> epoll_event list" where
  "get_events b = take (eb_size b) (eb_buffer b)"

definition set_timeout :: "int \<Rightarrow> int" where
  "set_timeout new_timeout = max new_timeout (- 1)"

definition wait_for_events :: "(nat + epoll_event list) \<Rightarrow> EpollBuffer \<Rightarrow> (exn + nat) \<times> EpollBuffer" where
  "wait_for_events answer b =
     (case answer of
        Inl e \<Rightarrow> (Inl (SystemError e ''epoll_wait(2)''), b)
      | Inr evs \<Rightarrow>
          let stored = take (eb_max_size b) evs
          in (Inr (length stored), b\<lparr>eb_buffer := stored @ drop (length stored) (eb_buffer b), eb_size := length stored\<rparr>))"

text \<open>The handlers of the signal device, by signal number, and the mask made of them.\<close>

type_synonym 'h handlers = "(int \<times> 'h) list"

definition add_handler :: "int \<Rightarrow> 'h \<Rightarrow> 'h handlers \<Rightarrow> exn + 'h handlers" where
  "add_handler signal h hs =
     (if map_of hs signal = None then Inr ((signal, h) # hs)
      else Inl (RuntimeError ''SignalDevice failed to add handler''))"

definition create_mask :: "'h handlers \<Rightarrow> int set" where
  "create_mask hs = fst ` set hs"

definition start_signal_device :: "nat option \<Rightarrow> fd_answer \<Rightarrow> 'h handlers \<Rightarrow> nat \<Rightarrow> devices \<Rightarrow> (exn + int set) \<times> devices" where
  "start_signal_device mask_answer a hs i w =
     (case mask_answer of
        Some e \<Rightarrow> (Inl (SystemError e ''sigprocmask(2)''), w)
      | None \<Rightarrow> (case signal_create_fd a i w of (r, w') \<Rightarrow> (map_sum id (\<lambda>_. create_mask hs) r, w')))"

definition device_handle_signal :: "int \<Rightarrow> int \<Rightarrow> 'h handlers \<Rightarrow> exn + 'h" where
  "device_handle_signal bytes_read signo hs =
     (if bytes_read \<noteq> 128 then Inl (RuntimeError ''SignalDevice could not read enough bytes'')
      else case map_of hs signo of
        Some h \<Rightarrow> Inr h
      | None \<Rightarrow> Inl (RuntimeError (''No handler for signal with '' @ [apostrophe] @ int_to_string signo @ [apostrophe] @ '' code'')))"

section \<open>Terminal\<close>

definition ENOTTY :: nat where "ENOTTY = 25"

text \<open>Whether the terminal echoes; the answers of \<open>tcgetattr\<close> and \<open>tcsetattr\<close> are inputs. Without a terminal nothing happens.\<close>

definition set_stdin_echo :: "nat option \<Rightarrow> nat option \<Rightarrow> bool \<Rightarrow> bool \<Rightarrow> (exn + unit) \<times> bool" where
  "set_stdin_echo get_answer set_answer visibility echo =
     (case get_answer of
        Some code \<Rightarrow> if code = ENOTTY then (Inr (), echo) else (Inl (SystemError code ''tcgetattr(3)''), echo)
      | None \<Rightarrow>
          (case set_answer of
             Some code \<Rightarrow> if code \<noteq> ENOTTY then (Inl (SystemError code ''tcsetattr(3)''), echo) else (Inr (), echo)
           | None \<Rightarrow> (Inr (), visibility)))"

section \<open>Ownership\<close>

text \<open>
  The descriptors held by objects. \<open>owned w L\<close>: no descriptor is held twice, and the open ones are
  those held and, apart from them, \<open>L\<close>.
\<close>

definition held :: "devices \<Rightarrow> int set" where
  "held w = {fd. fd \<ge> 0 \<and> (\<exists>i. get_fd i w = fd)}"

definition held_once :: "devices \<Rightarrow> bool" where
  "held_once w \<longleftrightarrow> (\<forall>i j. i \<noteq> j \<longrightarrow> is_valid i w \<longrightarrow> get_fd i w \<noteq> get_fd j w)"

definition owned :: "devices \<Rightarrow> int set \<Rightarrow> bool" where
  "owned w L \<longleftrightarrow> held_once w \<and> dv_open w = held w \<union> L \<and> held w \<inter> L = {} \<and> (\<forall>fd\<in>L. fd \<ge> 0)"

definition valid_fd :: "nat \<Rightarrow> devices \<Rightarrow> int set" where
  "valid_fd i w = (if is_valid i w then {get_fd i w} else {})"

lemma get_fd_updates [simp]:
  "get_fd i (set_fd j fd w) = (if i = j then fd else get_fd i w)" "get_fd i (sys_close fd w) = get_fd i w"
  "get_fd i (sys_open fd w) = get_fd i w" "get_fd i (w\<lparr>dv_fd := (dv_fd w')(j := None)\<rparr>) = (if i = j then - 1 else get_fd i w')"
  by (auto simp: get_fd_def set_fd_def sys_close_def sys_open_def)

lemma open_updates [simp]:
  "dv_open (set_fd j fd w) = dv_open w" "dv_open (sys_close fd w) = dv_open w - {fd}" "dv_open (sys_open fd w) = insert fd (dv_open w)"
  by (simp_all add: set_fd_def sys_close_def sys_open_def)

text \<open>One object changes its descriptor to one that no other holds.\<close>

lemma held_change:
  assumes "held_once w" and "\<And>j. get_fd j w' = (if j = i then fd else get_fd j w)" and "\<And>j. fd \<ge> 0 \<Longrightarrow> j \<noteq> i \<Longrightarrow> get_fd j w \<noteq> fd"
  shows "held w' = held w - {get_fd i w} \<union> (if fd \<ge> 0 then {fd} else {})" and "held_once w'"
proof -
  have once: "get_fd j w \<noteq> get_fd i w" if "j \<noteq> i" "get_fd j w \<ge> 0" for j using assms(1) that by (auto simp: held_once_def is_valid_def)
  show "held w' = held w - {get_fd i w} \<union> (if fd \<ge> 0 then {fd} else {})"
  proof (intro set_eqI)
    fix x
    have "x \<in> held w' \<longleftrightarrow> x \<ge> 0 \<and> (x = fd \<or> (\<exists>j. j \<noteq> i \<and> get_fd j w = x))" by (auto simp: held_def assms(2))
    moreover have "x \<ge> 0 \<and> (\<exists>j. j \<noteq> i \<and> get_fd j w = x) \<longleftrightarrow> x \<in> held w - {get_fd i w}"
      unfolding held_def using once by (auto; metis)
    ultimately show "x \<in> held w' \<longleftrightarrow> x \<in> held w - {get_fd i w} \<union> (if fd \<ge> 0 then {fd} else {})" by auto
  qed
  show "held_once w'" using assms(1,3) unfolding held_once_def is_valid_def assms(2) by (simp split: if_splits) metis
qed

lemma valid_fd_held: "valid_fd i w \<subseteq> held w" "\<not> is_valid i w \<Longrightarrow> get_fd i w \<notin> held w"
  by (auto simp: valid_fd_def held_def is_valid_def)

lemma owned_new:
  assumes "owned w L" and "fd \<ge> 0" and "fd \<notin> dv_open w"
  shows "owned (set_fd i fd (sys_open fd w)) (L \<union> valid_fd i w)"
proof -
  have fresh: "fd \<notin> held w" "fd \<notin> L" using assms by (auto simp: owned_def)
  then have "get_fd j w \<noteq> fd" for j using assms(2) by (auto simp: held_def)
  with held_change [of w "set_fd i fd (sys_open fd w)" i fd] assms(1)
  have h: "held (set_fd i fd (sys_open fd w)) = held w - {get_fd i w} \<union> {fd}" "held_once (set_fd i fd (sys_open fd w))"
    using assms(2) by (auto simp: owned_def)
  show ?thesis using assms(1,2) h fresh valid_fd_held [of i w]
    by (cases "is_valid i w") (auto simp: owned_def valid_fd_def is_valid_def)
qed

text \<open>An object that gives up its descriptor by closing it.\<close>

lemma owned_close:
  assumes "owned w L" and "dv_open w' = dv_open w - {get_fd i w}" and "\<And>j. get_fd j w' = (if j = i then - 1 else get_fd j w)"
  shows "owned w' L"
proof -
  have "held w' = held w - {get_fd i w}" "held_once w'"
    using held_change [of w w' i "- 1"] assms by (auto simp: owned_def)
  moreover have "get_fd i w \<notin> L" using assms(1) by (cases "get_fd i w \<ge> 0") (auto simp: owned_def held_def)
  ultimately show ?thesis using assms(1,2) by (auto simp: owned_def)
qed

text \<open>A descriptor that goes from one object to another.\<close>

lemma owned_move:
  assumes "owned w L" and "i \<noteq> j"
  shows "owned (set_fd i (get_fd j w) (set_fd j (- 1) w)) (L \<union> valid_fd i w)"
proof -
  let ?w = "set_fd j (- 1) w" and ?fd = "get_fd j w"
  have once: "held_once w" and sets: "dv_open w = held w \<union> L" "held w \<inter> L = {}" "\<forall>fd\<in>L. fd \<ge> 0" using assms(1) by (auto simp: owned_def)
  have w: "held ?w = held w - {?fd}" "held_once ?w" using held_change [of w ?w j "- 1"] once by auto
  have "get_fd k ?w \<noteq> ?fd" if "?fd \<ge> 0" "k \<noteq> i" for k
  proof (cases "k = j")
    case False
    then show ?thesis using once that(1) unfolding held_once_def is_valid_def by (metis get_fd_updates(1))
  qed (use that in simp)
  with held_change [of ?w "set_fd i ?fd ?w" i ?fd] w assms(2)
  have h: "held (set_fd i ?fd ?w) = held w - {?fd} - {get_fd i w} \<union> (if ?fd \<ge> 0 then {?fd} else {})" "held_once (set_fd i ?fd ?w)" by auto
  have "get_fd i w \<noteq> ?fd" if "is_valid i w" using once assms(2) that by (auto simp: held_once_def)
  with h sets valid_fd_held [of i w] valid_fd_held [of j w] show ?thesis
    by (auto simp: owned_def valid_fd_def is_valid_def held_def split: if_splits)
qed

section \<open>Runs\<close>

text \<open>The operations of a program on its devices, with the answers of the kernel.\<close>

datatype device_op =
    Make nat
  | Make_epoll nat fd_answer
  | Make_listener nat fd_answer "nat option"
  | Make_socket nat int "nat option"
  | Make_pipe nat nat "nat + int \<times> int"
  | Open_file nat fd_answer
  | Start_signals nat "nat option" fd_answer
  | Close nat
  | Destroy nat
  | Move nat nat
  | Assign nat nat

definition fresh_fd :: "devices \<Rightarrow> int \<Rightarrow> bool" where
  "fresh_fd w fd \<longleftrightarrow> fd \<ge> 0 \<and> fd \<notin> dv_open w"

definition fresh_answer :: "devices \<Rightarrow> fd_answer \<Rightarrow> bool" where
  "fresh_answer w a = (case a of New_fd fd \<Rightarrow> fresh_fd w fd | Fd_error e \<Rightarrow> True)"

text \<open>
  An operation makes sense when the objects it constructs do not exist and those it uses do, and
  when the kernel hands out descriptors that are not open.
\<close>

fun allowed :: "device_op \<Rightarrow> devices \<Rightarrow> bool" where
  "allowed (Make i) w \<longleftrightarrow> dv_fd w i = None"
| "allowed (Make_epoll i a) w \<longleftrightarrow> dv_fd w i = None \<and> fresh_answer w a"
| "allowed (Make_listener i a opt) w \<longleftrightarrow> dv_fd w i = None \<and> fresh_answer w a"
| "allowed (Make_socket i fd opt) w \<longleftrightarrow> dv_fd w i = None \<and> fresh_fd w fd"
| "allowed (Make_pipe i j a) w \<longleftrightarrow> dv_fd w i = None \<and> dv_fd w j = None \<and> i \<noteq> j \<and>
     (case a of Inl e \<Rightarrow> True | Inr (fd0, fd1) \<Rightarrow> fresh_fd w fd0 \<and> fresh_fd w fd1 \<and> fd0 \<noteq> fd1)"
| "allowed (Open_file i a) w \<longleftrightarrow> dv_fd w i \<noteq> None \<and> fresh_answer w a"
| "allowed (Start_signals i m a) w \<longleftrightarrow> dv_fd w i \<noteq> None \<and> fresh_answer w a"
| "allowed (Close i) w \<longleftrightarrow> dv_fd w i \<noteq> None"
| "allowed (Destroy i) w \<longleftrightarrow> dv_fd w i \<noteq> None"
| "allowed (Move i j) w \<longleftrightarrow> dv_fd w i = None \<and> dv_fd w j \<noteq> None"
| "allowed (Assign i j) w \<longleftrightarrow> dv_fd w i \<noteq> None \<and> dv_fd w j \<noteq> None"

fun device_exec :: "device_op \<Rightarrow> devices \<Rightarrow> devices" where
  "device_exec (Make i) w = device_new i w"
| "device_exec (Make_epoll i a) w = snd (epoll_device_new a i w)"
| "device_exec (Make_listener i a opt) w = snd (tcp_listener_new a opt i w)"
| "device_exec (Make_socket i fd opt) w = snd (tcp_socket_new fd opt i (sys_open fd w))"
| "device_exec (Make_pipe i j a) w = snd (make_pipe a i j w)"
| "device_exec (Open_file i a) w = snd (file_open a i w)"
| "device_exec (Start_signals i m a) w = snd (start_signal_device m a ([] :: unit handlers) i w)"
| "device_exec (Close i) w = device_close i w"
| "device_exec (Destroy i) w = device_destroy i w"
| "device_exec (Move i j) w = device_move i j w"
| "device_exec (Assign i j) w = device_assign i j w"

text \<open>The descriptor that an operation writes over without closing it.\<close>

fun overwritten :: "device_op \<Rightarrow> devices \<Rightarrow> int set" where
  "overwritten (Open_file i (New_fd fd)) w = valid_fd i w"
| "overwritten (Start_signals i None (New_fd fd)) w = valid_fd i w"
| "overwritten (Assign i j) w = (if i = j then {} else valid_fd i w)"
| "overwritten _ w = {}"

primrec device_run :: "device_op list \<Rightarrow> devices \<Rightarrow> (devices \<times> int set) option" where
  "device_run [] w = Some (w, {})"
| "device_run (x # xs) w =
     (if allowed x w
      then map_option (\<lambda>(w', L). (w', overwritten x w \<union> L)) (device_run xs (device_exec x w))
      else None)"

lemma absent: "dv_fd w i = None \<Longrightarrow> get_fd i w = - 1"
  by (simp add: get_fd_def)

lemma owned_same: "owned w L \<Longrightarrow> dv_open w' = dv_open w \<Longrightarrow> (\<And>j. get_fd j w' = get_fd j w) \<Longrightarrow> owned w' L"
  by (simp add: owned_def held_def held_once_def is_valid_def)

lemma owned_make: "owned w L \<Longrightarrow> dv_fd w i = None \<Longrightarrow> owned (device_new i w) L"
  by (erule owned_same) (simp_all add: device_new_def absent)

lemma owned_destroy: "owned w L \<Longrightarrow> owned (device_destroy i w) L"
  by (erule owned_close [where i = i]) (simp_all add: device_destroy_def)

lemma owned_fresh: "owned w L \<Longrightarrow> dv_fd w i = None \<Longrightarrow> fresh_fd w fd \<Longrightarrow> owned (set_fd i fd (sys_open fd w)) L"
  using owned_new [of w L fd i] by (simp add: fresh_fd_def valid_fd_def is_valid_def absent)

lemma set_new [simp]: "set_fd i fd (sys_open fd' (device_new i w)) = set_fd i fd (sys_open fd' w)"
  by (simp add: device_new_def set_fd_def sys_open_def)

lemma owned_make_pipe:
  assumes "owned w L" and "allowed (Make_pipe i j a) w"
  shows "owned (snd (make_pipe a i j w)) L"
proof (cases a)
  case (Inr p)
  obtain fd0 fd1 where p: "p = (fd0, fd1)" by fastforce
  let ?w = "set_fd i fd0 (sys_open fd0 w)"
  have "owned ?w L" using assms Inr p by (intro owned_fresh) auto
  then have "owned (set_fd j fd1 (sys_open fd1 ?w)) L"
  proof (rule owned_fresh)
    show "dv_fd ?w j = None" "fresh_fd ?w fd1"
      using assms(2) Inr p by (auto simp: fresh_fd_def set_fd_def sys_open_def)
  qed
  moreover have "set_fd j fd1 (sys_open fd1 ?w) = snd (make_pipe a i j w)"
    using Inr p by (simp add: make_pipe_def device_from_fd_def set_fd_def sys_open_def)
  ultimately show ?thesis by simp
qed (use assms in \<open>simp add: make_pipe_def\<close>)

lemma owned_device_exec:
  assumes "owned w L" and "allowed x w"
  shows "owned (device_exec x w) (L \<union> overwritten x w)"
proof (cases x)
  case (Make i)
  with assms show ?thesis by (simp add: owned_make)
next
  case (Make_epoll i a)
  with assms show ?thesis
    by (cases a) (auto simp: epoll_device_new_def fresh_answer_def intro: owned_fresh owned_destroy owned_make)
next
  case (Make_listener i a opt)
  with assms show ?thesis
    by (cases a; cases opt) (auto simp: tcp_listener_new_def fresh_answer_def Let_def intro: owned_fresh owned_destroy owned_make)
next
  case (Make_socket i fd opt)
  with assms show ?thesis
    by (cases opt) (auto simp: tcp_socket_new_def device_from_fd_def Let_def intro: owned_fresh owned_destroy)
next
  case (Make_pipe i j a)
  with assms show ?thesis using owned_make_pipe [of w L i j a] by simp
next
  case (Open_file i a)
  with assms owned_new [OF assms(1), of _ i] show ?thesis
    by (cases a) (auto simp: file_open_def fresh_answer_def fresh_fd_def)
next
  case (Start_signals i m a)
  with assms owned_new [OF assms(1), of _ i] show ?thesis
    by (cases m; cases a) (auto simp: start_signal_device_def signal_create_fd_def fresh_answer_def fresh_fd_def)
next
  case (Close i)
  have "owned (device_close i w) L"
    using assms(1) by (rule owned_close [where i = i]) (simp_all add: device_close_def)
  with Close show ?thesis by simp
next
  case (Destroy i)
  with assms show ?thesis by (simp add: owned_destroy)
next
  case (Move i j)
  with assms(2) have "i \<noteq> j" "valid_fd i w = {}" by (auto simp: valid_fd_def is_valid_def absent)
  with owned_move [OF assms(1), of i j] Move show ?thesis by (simp add: device_move_def)
next
  case (Assign i j)
  with assms owned_move [OF assms(1), of i j] show ?thesis by (simp add: device_assign_def)
qed

lemma owned_device_run:
  "owned w L \<Longrightarrow> device_run xs w = Some (w', M) \<Longrightarrow> owned w' (L \<union> M)"
proof (induction xs arbitrary: w L M)
  case (Cons x xs)
  then obtain M' where step: "allowed x w" "device_run xs (device_exec x w) = Some (w', M')" "M = overwritten x w \<union> M'"
    by (auto split: if_splits)
  from Cons.IH [OF owned_device_exec [OF Cons.prems(1) step(1)] step(2)] step(3) show ?case by (simp add: Un_assoc)
qed simp

section \<open>Properties\<close>

text \<open>
  C19: descriptors have one owner. However a program constructs, opens, moves, assigns, closes and
  destroys its devices, no descriptor is ever held by two of them, so none is closed behind another
  one's back; every descriptor held is open; and the open descriptors nobody holds are exactly those
  that were written over, by assigning to a device, opening a file or starting the signals on a
  device that still held one. Without such an operation, destroying all devices closes everything.
\<close>

theorem descriptors_owned_once:
  assumes "device_run xs no_devices = Some (w, lost)"
  shows "(\<forall>i j. i \<noteq> j \<longrightarrow> is_valid i w \<longrightarrow> get_fd i w \<noteq> get_fd j w) \<and>
    dv_open w = {fd. fd \<ge> 0 \<and> (\<exists>i. dv_fd w i = Some fd)} \<union> lost \<and> (\<forall>i. is_valid i w \<longrightarrow> get_fd i w \<notin> lost) \<and>
    (lost = {} \<longrightarrow> (\<forall>i. dv_fd w i = None) \<longrightarrow> dv_open w = {})"
proof -
  have "owned no_devices {}" by (simp add: owned_def held_def held_once_def no_devices_def is_valid_def get_fd_def)
  from owned_device_run [OF this assms] have own: "owned w lost" by simp
  have "{fd. fd \<ge> 0 \<and> (\<exists>i. dv_fd w i = Some fd)} = held w"
    by (auto simp: held_def get_fd_def split: option.splits) (metis option.exhaust_sel option.sel)
  with own show ?thesis by (auto simp: owned_def held_once_def held_def is_valid_def)
qed

definition sample_ops :: "device_op list" where
  "sample_ops = [Make 0, Make_socket 1 5 None, Move 2 1, Destroy 1, Open_file 0 (New_fd 6), Assign 0 2]"

theorem descriptors_owned_once_witness:
  "\<exists>w. device_run sample_ops no_devices = Some (w, {6}) \<and> dv_open w = {fd. fd \<ge> 0 \<and> (\<exists>i. dv_fd w i = Some fd)} \<union> {6}"
proof -
  have "\<exists>w. device_run sample_ops no_devices = Some (w, {6})"
    by (simp add: sample_ops_def no_devices_def device_new_def set_fd_def tcp_socket_new_def device_from_fd_def Let_def device_move_def
        device_destroy_def sys_close_def sys_open_def get_fd_def file_open_def device_assign_def fresh_answer_def fresh_fd_def
        valid_fd_def is_valid_def)
  then obtain w where w: "device_run sample_ops no_devices = Some (w, {6})" by blast
  from descriptors_owned_once [OF w] w show ?thesis by blast
qed

end
