(* ===== verification/Server_Run.thy ===== *)
theory Server_Run
  imports Server_Safety Devices
begin

text \<open>
  The life of a server (\<open>src/server/src/server/server.cpp\<close>): configuration, main loop, and what
  its destructors do. The service threads run between the events of the main thread: the events
  they handle while the main thread waits are inputs, in the order in which they handle them.
\<close>

section \<open>Configuration\<close>

record startup =
  st_devices :: devices
  st_handlers :: "unit handlers"
  st_mask :: "int set"
  st_listener :: TcpListener
  st_epoll :: interest
  st_services :: nat

record start_answers =
  sa_sigprocmask :: "nat option"
  sa_signalfd :: fd_answer
  sa_bind :: "nat option"
  sa_listen :: "nat option"
  sa_ctl_signal :: "nat option"
  sa_ctl_listener :: "nat option"

type_synonym 'a starting = "(exn, startup, 'a) action"

text \<open>All handlers are \<open>handle_stop_signal\<close>.\<close>

definition add_stop_handler :: "int \<Rightarrow> unit starting" where
  "add_stop_handler signo =
     bind (gets st_handlers) (\<lambda>hs. bind (from_sum (add_handler signo () hs)) (\<lambda>hs'. modify (\<lambda>s. s\<lparr>st_handlers := hs'\<rparr>)))"

definition start_signals :: "start_answers \<Rightarrow> nat \<Rightarrow> unit starting" where
  "start_signals a signal_device s =
     (case start_signal_device (sa_sigprocmask a) (sa_signalfd a) (st_handlers s) signal_device (st_devices s) of
        (Inl x, w) \<Rightarrow> (Inl x, s\<lparr>st_devices := w\<rparr>)
      | (Inr signals, w) \<Rightarrow> (Inr (), s\<lparr>st_devices := w, st_mask := signals\<rparr>))"

definition configure_signals :: "start_answers \<Rightarrow> nat \<Rightarrow> unit starting" where
  "configure_signals a signal_device =
     andthen (add_stop_handler 2) (andthen (add_stop_handler 3) (andthen (add_stop_handler 15) (start_signals a signal_device)))"

definition start_listener :: "start_answers \<Rightarrow> ServerConfig \<Rightarrow> unit starting" where
  "start_listener a config =
     bind (gets st_listener) (\<lambda>l.
     bind (from_sum (configure_listener (sa_bind a) (sa_listen a) config l)) (\<lambda>l'. modify (\<lambda>s. s\<lparr>st_listener := l'\<rparr>)))"

definition add_main_device :: "nat option \<Rightarrow> nat \<Rightarrow> unit starting" where
  "add_main_device answer device =
     bind (gets (\<lambda>s. epoll_ctl answer (get_fd device (st_devices s)) ev_in (st_epoll s))) (\<lambda>r.
     bind (from_sum r) (\<lambda>q. modify (\<lambda>s. s\<lparr>st_epoll := q\<rparr>)))"

definition configure_main_epoll :: "start_answers \<Rightarrow> nat \<Rightarrow> nat \<Rightarrow> unit starting" where
  "configure_main_epoll a signal_device listener_device =
     andthen (add_main_device (sa_ctl_signal a) signal_device) (add_main_device (sa_ctl_listener a) listener_device)"

definition create_services :: "ServerConfig \<Rightarrow> unit starting" where
  "create_services config = modify (\<lambda>s. s\<lparr>st_services := st_services s + nat (cfg_max_thread_count config)\<rparr>)"

definition server_configure :: "start_answers \<Rightarrow> ServerConfig \<Rightarrow> nat \<Rightarrow> nat \<Rightarrow> bool starting" where
  "server_configure a config signal_device listener_device =
     catching
       (andthen (configure_signals a signal_device)
       (andthen (start_listener a config)
       (andthen (configure_main_epoll a signal_device listener_device)
       (andthen (create_services config) (ret True)))))
       (\<lambda>x. if is_system_error x then ret False else raise x)"

section \<open>Main loop\<close>

definition services_between :: "env \<Rightarrow> fd \<Rightarrow> service_event list \<Rightarrow> server \<Rightarrow> server" where
  "services_between e p xs s = s\<lparr>srv_supervisor := foldl (\<lambda>v x. snd (service_step e p x v)) (srv_supervisor s) xs\<rparr>"

text \<open>
  Each turn: the events of the services until \<open>epoll_wait\<close> returns, and its answer. The result
  is an exception, or whether the loop still runs where the answers end. The events behind a stop
  signal in the same answer are still handled.
\<close>

primrec server_main_loop :: "env \<Rightarrow> fd \<Rightarrow> (service_event list \<times> (nat + main_event list)) list \<Rightarrow> server \<Rightarrow> (exn + bool) \<times> server" where
  "server_main_loop e p [] s = (Inr (srv_running s), s)"
| "server_main_loop e p (b # bs) s =
     (if \<not> srv_running s then (Inr False, s)
      else
        let s1 = services_between e p (fst b) s
        in case snd b of
             Inl code \<Rightarrow> (Inl (SystemError code ''epoll_wait(2)''), s1)
           | Inr evs \<Rightarrow>
               (case main_events evs s1 of
                  (Inl x, s2) \<Rightarrow> (Inl x, s2)
                | (Inr _, s2) \<Rightarrow> server_main_loop e p bs s2))"

definition server_launch :: "env \<Rightarrow> fd \<Rightarrow> bool \<Rightarrow> (service_event list \<times> (nat + main_event list)) list \<Rightarrow> server \<Rightarrow> (exn + bool) \<times> server" where
  "server_launch e p configured bs s = (if configured then server_main_loop e p bs s else (Inr False, s))"

text \<open>The destructor stops the server; the pool is destroyed with its clients.\<close>

definition server_destroy :: "server \<Rightarrow> server" where
  "server_destroy s = (let s' = server_stop s in s'\<lparr>srv_supervisor := close_all (srv_supervisor s')\<rparr>)"

section \<open>What the main loop keeps\<close>

lemma services_between_ok: "server_ok s \<Longrightarrow> server_ok (services_between e p xs s)"
proof -
  have "supervisor_ok v \<Longrightarrow> supervisor_ok (foldl (\<lambda>v x. snd (service_step e p x v)) v xs) \<and>
      length (sv_pool (foldl (\<lambda>v x. snd (service_step e p x v)) v xs)) \<le> length (sv_pool v)" for v
  proof (induction xs arbitrary: v)
    case (Cons x xs)
    have "supervisor_ok (snd (service_step e p x v)) \<and> length (sv_pool (snd (service_step e p x v))) \<le> length (sv_pool v)"
      using service_step_ok [OF Cons.prems] by (metis prod.collapse)
    with Cons.IH show ?case by fastforce
  qed simp
  then show "server_ok s \<Longrightarrow> server_ok (services_between e p xs s)"
    by (fastforce simp: server_ok_def services_between_def get_client_count_def)
qed

text \<open>The handlers do not look at the flag of the main loop.\<close>

lemma main_event_ok:
  assumes "server_ok s"
  shows "listener_handle_connection a s = (r, s') \<Longrightarrow> server_ok s'" and "handle_signal signo s = (r, s') \<Longrightarrow> server_ok s'"
proof -
  let ?s = "s\<lparr>srv_running := True\<rparr>"
  have ok: "server_ok ?s" using assms by (simp add: server_ok_def)
  assume "listener_handle_connection a s = (r, s')"
  then have "listener_handle_connection a ?s = (r, s'\<lparr>srv_running := True\<rparr>)"
    by (auto simp: listener_handle_connection_def handle_connection_def split: accept_answer.splits)
  from server_step_ok [OF server_step.connection [OF _ this] ok] have "server_ok (s'\<lparr>srv_running := True\<rparr>)" by simp
  then show "server_ok s'" by (simp add: server_ok_def)
next
  assume "handle_signal signo s = (r, s')"
  with assms show "server_ok s'"
    by (auto simp: handle_signal_def server_stop_def supervisor_stop_def server_ok_def get_client_count_def close_all_ok
        split: if_splits) (simp_all add: close_all_def)
qed

lemma main_events_ok: "server_ok s \<Longrightarrow> main_events evs s = (r, s') \<Longrightarrow> server_ok s'"
proof (induction evs arbitrary: s)
  case (Cons x evs)
  obtain q u where u: "(case x of Signal_event signo \<Rightarrow> handle_signal signo s | Listener_event a \<Rightarrow> listener_handle_connection a s
      | Unknown_event fd \<Rightarrow> (Inr (), s)) = (q, u)" by fastforce
  have "server_ok u" using u main_event_ok [OF Cons.prems(1)] Cons.prems(1) by (cases x) auto
  with Cons.IH Cons.prems(2) u show ?case by (cases q) auto
qed simp

lemma main_loop_ok: "server_ok s \<Longrightarrow> server_main_loop e p bs s = (r, s') \<Longrightarrow> server_ok s'"
proof (induction bs arbitrary: s)
  case (Cons b bs)
  let ?s = "services_between e p (fst b) s"
  have ok: "server_ok ?s" using Cons.prems(1) by (rule services_between_ok)
  show ?case
  proof (cases "snd b")
    case (Inl code)
    with Cons.prems ok show ?thesis by (auto simp: Let_def split: if_splits)
  next
    case (Inr evs)
    obtain q u where u: "main_events evs ?s = (q, u)" by fastforce
    from main_events_ok [OF ok u] Cons.IH Cons.prems Inr u show ?thesis by (cases q) (auto simp: Let_def split: if_splits)
  qed
qed simp

lemma close_all_empty: "supervisor_ok v \<Longrightarrow> sv_pool (close_all v) = [] \<and> auth_objects (w_heap (sv_world (close_all v))) = Map.empty"
  using close_all_ok [of v] by (auto simp: pool_ok_def close_all_def)

lemma destroy_clean:
  assumes "server_ok s"
  shows "sv_pool (srv_supervisor (server_destroy s)) = [] \<and> world_ok (sv_world (srv_supervisor (server_destroy s))) \<and>
    auth_objects (w_heap (sv_world (srv_supervisor (server_destroy s)))) = Map.empty"
proof -
  have "supervisor_ok (srv_supervisor (server_stop s))"
    using assms by (auto simp: server_stop_def supervisor_stop_def server_ok_def close_all_ok)
  from close_all_empty [OF this] close_all_ok [OF this] show ?thesis by (auto simp: server_destroy_def Let_def pool_ok_def)
qed

text \<open>The events that end the main loop with an exception, and those that end it in order.\<close>

fun fatal_event :: "main_event \<Rightarrow> exn option" where
  "fatal_event (Signal_event signo) =
     (if signo \<in> set stop_signals then None
      else Some (RuntimeError (''No handler for signal with '' @ [apostrophe] @ int_to_string signo @ [apostrophe] @ '' code'')))"
| "fatal_event (Listener_event (Accept_error code)) = Some (SystemError code ''accept4(2)'')"
| "fatal_event (Listener_event Accept_bad_length) = Some (RuntimeError ''Listener: accept(2) returned invalid addrlen'')"
| "fatal_event (Listener_event (Accept_option_error code)) = Some (SystemError code ''setsockopt(2)'')"
| "fatal_event (Listener_event (Accepted k stale answer)) = None"
| "fatal_event (Unknown_event k) = None"

fun stop_event :: "main_event \<Rightarrow> bool" where
  "stop_event (Signal_event signo) \<longleftrightarrow> signo \<in> set stop_signals"
| "stop_event _ \<longleftrightarrow> False"

lemma main_events_result:
  assumes "main_events evs s = (r, s')"
  shows "(case r of
      Inl x \<Rightarrow> \<exists>before ev later. evs = before @ ev # later \<and> fatal_event ev = Some x \<and> list_all (\<lambda>ev. fatal_event ev = None) before
    | Inr _ \<Rightarrow> list_all (\<lambda>ev. fatal_event ev = None) evs \<and> srv_running s' = (srv_running s \<and> \<not> list_ex stop_event evs))"
  using assms
proof (induction evs arbitrary: s)
  case (Cons ev evs)
  show ?case
  proof (cases "fatal_event ev")
    case (Some x)
    then have "r = Inl x"
      using Cons.prems by (cases ev rule: fatal_event.cases) (auto simp: handle_signal_def listener_handle_connection_def split: if_splits)
    with Some show ?thesis by (auto intro!: exI [of _ "[]"])
  next
    case None
    then obtain u where u: "main_events evs u = (r, s')" "srv_running u = (srv_running s \<and> \<not> stop_event ev)"
      using Cons.prems by (cases ev rule: fatal_event.cases)
        (auto simp: handle_signal_def listener_handle_connection_def server_stop_def handle_connection_def split: if_splits)
    from Cons.IH [OF u(1)] show ?thesis
    proof (cases r)
      case (Inl x)
      with Cons.IH [OF u(1)] obtain before ev' later where "evs = before @ ev' # later" "fatal_event ev' = Some x"
        "list_all (\<lambda>ev. fatal_event ev = None) before" by auto
      with Inl None show ?thesis by (auto intro!: exI [of _ "ev # before"])
    next
      case (Inr y)
      with Cons.IH [OF u(1)] u(2) None show ?thesis by auto
    qed
  qed
qed auto

text \<open>The answers of one turn: those that raise an exception, those with a stop signal, and harmless ones.\<close>

definition turn_raises :: "nat + main_event list \<Rightarrow> exn \<Rightarrow> bool" where
  "turn_raises b x = (case b of Inl code \<Rightarrow> x = SystemError code ''epoll_wait(2)'' | Inr evs \<Rightarrow> list_ex (\<lambda>ev. fatal_event ev = Some x) evs)"

definition turn_stops :: "nat + main_event list \<Rightarrow> bool" where
  "turn_stops b = (case b of Inl code \<Rightarrow> False | Inr evs \<Rightarrow> list_ex stop_event evs)"

lemma services_keep_running: "srv_running (services_between e p xs s) = srv_running s"
  by (simp add: services_between_def)

lemma main_loop_result:
  assumes "server_main_loop e p bs s = (r, s')" and "srv_running s"
  shows "(case r of
      Inl x \<Rightarrow> list_ex (\<lambda>b. turn_raises (snd b) x) bs
    | Inr going \<Rightarrow> going = srv_running s' \<and> going = (\<not> list_ex (\<lambda>b. turn_stops (snd b)) bs))"
  using assms
proof (induction bs arbitrary: s)
  case (Cons b bs)
  let ?s = "services_between e p (fst b) s"
  show ?case
  proof (cases "snd b")
    case (Inl code)
    with Cons.prems show ?thesis by (auto simp: Let_def turn_raises_def)
  next
    case (Inr evs)
    obtain q u where u: "main_events evs ?s = (q, u)" by fastforce
    note res = main_events_result [OF u]
    show ?thesis
    proof (cases q)
      case (Inl x)
      with Cons.prems Inr u have "r = Inl x" by (simp add: Let_def)
      moreover from res Inl have "list_ex (\<lambda>ev. fatal_event ev = Some x) evs" by auto
      ultimately show ?thesis using Inr by (simp add: turn_raises_def)
    next
      case going: (Inr y)
      with Cons.prems Inr u have rest: "server_main_loop e p bs u = (r, s')" by (simp add: Let_def)
      have run: "srv_running u = (\<not> list_ex stop_event evs)" using res going Cons.prems(2) by (simp add: services_keep_running)
      show ?thesis
      proof (cases "list_ex stop_event evs")
        case True
        with rest run have "r = Inr False" "s' = u" by (cases bs; auto)+
        with True run Inr show ?thesis by (simp add: turn_stops_def)
      next
        case False
        with Cons.IH [OF rest] run Inr show ?thesis by (cases r) (auto simp: turn_stops_def)
      qed
    qed
  qed
qed auto

section \<open>Outcome of the configuration\<close>

lemma stop_handlers:
  assumes "st_handlers s = []"
  shows "configure_signals a i s = start_signals a i (s\<lparr>st_handlers := [(15, ()), (3, ()), (2, ())]\<rparr>)"
  using assms by (simp add: configure_signals_def add_stop_handler_def add_handler_def andthen_def bind_def)

text \<open>
  Configuring succeeds exactly when every system call does; with a configured backlog of at least
  one nothing else can be thrown. The signals blocked are those with a handler.
\<close>

lemma server_configure_outcome:
  assumes "cfg_backlog config > 0" and "st_handlers s = []"
  shows "\<exists>s'. server_configure a config i j s =
      (Inr (sa_sigprocmask a = None \<and> (\<exists>k. sa_signalfd a = New_fd k) \<and> sa_bind a = None \<and> sa_listen a = None \<and>
            sa_ctl_signal a = None \<and> sa_ctl_listener a = None), s') \<and>
    (sa_sigprocmask a = None \<and> (\<exists>k. sa_signalfd a = New_fd k) \<longrightarrow> st_mask s' = set stop_signals)"
proof -
  let ?hs = "[(15, ()), (3, ()), (2, ())] :: unit handlers"
  have signals: "create_mask ?hs = set stop_signals" by (auto simp: create_mask_def stop_signals_def)
  show ?thesis
  proof (cases "sa_sigprocmask a = None \<and> (\<exists>k. sa_signalfd a = New_fd k)")
    case True
    then obtain k where k: "sa_sigprocmask a = None" "sa_signalfd a = New_fd k" by blast
    have "configure_signals a i s = (Inr (), s\<lparr>st_handlers := ?hs, st_devices := set_fd i k (sys_open k (st_devices s)), st_mask := set stop_signals\<rparr>)"
      using k signals unfolding stop_handlers [OF assms(2)] by (simp add: start_signals_def start_signal_device_def signal_create_fd_def)
    with k assms(1) show ?thesis
      by (cases "sa_bind a"; cases "sa_listen a"; cases "sa_ctl_signal a"; cases "sa_ctl_listener a")
        (simp_all add: server_configure_def catching_def andthen_def bind_def start_listener_def configure_listener_def listen_port_def
          listen_endpoint_def set_backlog_def configure_main_epoll_def add_main_device_def epoll_ctl_def create_services_def is_system_error_def
          set_connection_type_def)
  next
    case False
    then obtain x w where x: "start_signal_device (sa_sigprocmask a) (sa_signalfd a) ?hs i (st_devices s) = (Inl x, w)" "is_system_error x"
      by (cases "sa_sigprocmask a"; cases "sa_signalfd a") (auto simp: start_signal_device_def signal_create_fd_def is_system_error_def)
    then have "configure_signals a i s = (Inl x, s\<lparr>st_handlers := ?hs, st_devices := w\<rparr>)"
      unfolding stop_handlers [OF assms(2)] by (simp add: start_signals_def)
    with x(2) False show ?thesis by (auto simp: server_configure_def catching_def andthen_def bind_def)
  qed
qed

text \<open>The handlers found at run time are those of the model of the main loop.\<close>

lemma handlers_agree:
  "device_handle_signal 128 signo [(15, ()), (3, ()), (2, ())] = map_sum id (\<lambda>_. ()) (fst (handle_signal signo s))"
  by (auto simp: device_handle_signal_def handle_signal_def stop_signals_def)

section \<open>Properties\<close>

text \<open>
  the end of a server. Whatever the services do in between and whatever the kernel answers,
  after the main loop and the destructor no connection is left and nobody is logged in, and the
  shared state is still well-formed. The loop ends in order exactly when a stop signal came; an
  exception stems from an answer of the kernel in one of its turns, such as a failed
  \<open>accept4\<close>, which nothing catches: a single connection that was aborted before it was
  accepted, or the lack of a free descriptor, ends the server.
\<close>

lemma server_ends_clean:
  assumes "world_ok w" and "auth_objects (w_heap w) = Map.empty" and "server_main_loop e p bs (new_server config w p) = (r, s)"
    and "v = srv_supervisor (server_destroy s)"
  shows "sv_pool v = [] \<and> auth_objects (w_heap (sv_world v)) = Map.empty \<and> world_ok (sv_world v) \<and>
    (case r of
       Inl x \<Rightarrow> list_ex (\<lambda>b. turn_raises (snd b) x) bs
     | Inr going \<Rightarrow> going = (\<not> list_ex (\<lambda>b. turn_stops (snd b)) bs))"
proof -
  have "server_ok s" using main_loop_ok [OF new_server_ok [OF assms(1,2)] assms(3)] .
  from destroy_clean [OF this]
  have "sv_pool v = []" "auth_objects (w_heap (sv_world v)) = Map.empty" "world_ok (sv_world v)" by (simp_all add: assms(4))
  moreover have "srv_running (new_server config w p)" by (simp add: new_server_def)
  ultimately show ?thesis using main_loop_result [OF assms(3)] by (auto split: sum.splits)
qed

lemma server_ends_clean_witness:
  "\<exists>s. server_main_loop sample_env 9 [([], Inr [Listener_event (Accepted 5 0 None)]), ([], Inr [Listener_event (Accept_error 103)])]
     (new_server (new_config 2) sample_world 9) = (Inl (SystemError 103 ''accept4(2)''), s) \<and>
     sv_pool (srv_supervisor s) \<noteq> [] \<and> sv_pool (srv_supervisor (server_destroy s)) = []"
proof -
  let ?bs = "[([], Inr [Listener_event (Accepted 5 0 None)]), ([], Inr [Listener_event (Accept_error 103)])]"
  have "\<exists>s. server_main_loop sample_env 9 ?bs (new_server (new_config 2) sample_world 9) = (Inl (SystemError 103 ''accept4(2)''), s) \<and>
      sv_pool (srv_supervisor s) \<noteq> []"
    by (simp add: services_between_def listener_handle_connection_def handle_connection_def new_server_def get_client_count_def
        new_config_def default_max_user_count_def default_max_thread_count_def accept_connection_def epoll_ctl_def
        spawn_client_def has_client_def)
  then obtain s where s: "server_main_loop sample_env 9 ?bs (new_server (new_config 2) sample_world 9) = (Inl (SystemError 103 ''accept4(2)''), s)"
    "sv_pool (srv_supervisor s) \<noteq> []" by blast
  have "auth_objects (w_heap sample_world) = Map.empty" by (simp add: sample_world_def empty_heap_def)
  from server_ends_clean [OF sample_world_ok this s(1) refl] s show ?thesis by auto
qed

end
