(* ===== verification/Admin_Cli.thy ===== *)
theory Admin_Cli
  imports Config Server_Context
begin

text \<open>
  The command line of the server program (\<open>main.cpp\<close>, \<open>cli/\<close>): \<open>help\<close>, \<open>version\<close>, \<open>init\<close>,
  \<open>run\<close> and \<open>user\<close> with its subcommands \<open>add\<close>, \<open>passwd\<close>, \<open>perms\<close> and \<open>remove\<close>. The state is
  the console (lines still to be read, text written, echo of the terminal) and the disk. What
  \<open>run\<close> hands to the server is a result. Messages on standard error are not kept. Reading at the end of the input gives an empty line.
  The version text comes from a generated header; it is a parameter, as are \<open>crypt\<close>, TOML and
  the number of hardware threads.
\<close>

section \<open>State and errors\<close>

datatype cli_exn =
    InvalidCommandArgumentsError string string
  | InvalidCommandExecutionError string
  | NoSuchCommandError string
  | Std_exception exn

record console =
  t_in :: "string list"
  t_out :: string
  t_echo :: bool
  t_disk :: disk

record host =
  h_version :: string
  h_build :: string
  h_crypt :: crypt_fn
  h_toml_parse :: toml_reader
  h_toml_print :: toml_writer
  h_threads :: int

type_synonym 'a cli = "(cli_exn, console, 'a) action"

definition std_sum :: "exn + 'a \<Rightarrow> 'a cli" where
  "std_sum r = from_sum (map_sum Std_exception id r)"

definition print :: "string \<Rightarrow> unit cli" where
  "print s = modify (\<lambda>t. t\<lparr>t_out := t_out t @ s\<rparr>)"

definition getline :: "string cli" where
  "getline t = (case t_in t of [] \<Rightarrow> (Inr [], t) | l # ls \<Rightarrow> (Inr l, t\<lparr>t_in := ls\<rparr>))"

definition current_path :: "disk \<Rightarrow> path" where
  "current_path d = canonical_of (working_dir d)"

definition cli_errno :: "errno + 'a \<Rightarrow> string \<Rightarrow> 'a cli" where
  "cli_errno r msg = from_sum (map_sum (\<lambda>e. Std_exception (SystemError (errno_value e) msg)) id r)"

definition cli_disk :: "(disk \<Rightarrow> 'r \<times> disk) \<Rightarrow> 'r cli" where
  "cli_disk f t = (case f (t_disk t) of (r, d) \<Rightarrow> (Inr r, t\<lparr>t_disk := d\<rparr>))"

text \<open>\<open>EcholessTerminalGuard\<close>: the destructor runs on an exception, too.\<close>

definition echoless :: "'a cli \<Rightarrow> 'a cli" where
  "echoless m t = (case m (t\<lparr>t_echo := False\<rparr>) of (r, t') \<Rightarrow> (r, t'\<lparr>t_echo := True\<rparr>))"

section \<open>Reading with a limited number of attempts\<close>

definition cli_max_try_count :: nat where "cli_max_try_count = 3"

definition too_many_attempts_error :: cli_exn where
  "too_many_attempts_error =
     InvalidCommandExecutionError (''too many attempts (max is '' @ nat_to_string cli_max_try_count @ '')'')"

text \<open>The loop of the reading methods: a first prompt, then another one after each failure.\<close>

primrec attempts :: "nat \<Rightarrow> string \<Rightarrow> string \<Rightarrow> string \<Rightarrow> (string \<Rightarrow> exn + bool) \<Rightarrow> string cli" where
  "attempts 0 prompt again after good = raise too_many_attempts_error"
| "attempts (Suc n) prompt again after good =
     andthen (print prompt)
     (bind getline (\<lambda>line.
      andthen (print after)
      (bind (std_sum (good line)) (\<lambda>ok_line.
        if ok_line then ret line else attempts n again again after good))))"

definition read_username :: "string cli" where
  "read_username = attempts cli_max_try_count ''Enter username: ''
     ''Invalid username - use letters or numbers only. Try again: '' [] (\<lambda>l. Inr (is_username_ok l))"

definition read_password :: "string cli" where
  "read_password = echoless (attempts cli_max_try_count ''Enter password: ''
     ''Password is too long, try something shorter: '' [newline] (\<lambda>l. Inr (is_password_ok l)))"

definition read_repeated_password :: "string \<Rightarrow> string cli" where
  "read_repeated_password password = echoless (attempts cli_max_try_count ''Repeat password: ''
     (''Passwords don'' @ [apostrophe] @ ''t match. Try again: '') [newline] (\<lambda>l. Inr (l = password)))"

definition read_old_password :: "crypt_fn \<Rightarrow> UserTable \<Rightarrow> string \<Rightarrow> string cli" where
  "read_old_password crypt t username = echoless (attempts cli_max_try_count ''Enter old password: ''
     ''Wrong password, try again: '' [newline] (\<lambda>l. verify_password_of_user crypt t username l))"

definition read_new_password :: "string cli" where
  "read_new_password = echoless (attempts cli_max_try_count ''Enter new password: ''
     ''New password is too long, try something shorter: '' [newline] (\<lambda>l. Inr (is_password_ok l)))"

definition read_new_password_repeated :: "string \<Rightarrow> string cli" where
  "read_new_password_repeated password = echoless (attempts cli_max_try_count ''Repeat new password: ''
     (''Passwords don'' @ [apostrophe] @ ''t match. Try again: '') [newline] (\<lambda>l. Inr (l = password)))"

section \<open>The user commands\<close>

datatype user_subcommand =
    User_add
  | User_passwd string
  | User_perms string Permissions Permissions
  | User_remove string

definition parse_user_add :: "string list \<Rightarrow> cli_exn + user_subcommand" where
  "parse_user_add args =
     (if args \<noteq> [] then Inl (InvalidCommandArgumentsError ''user add command does not take any arguments'' ''tds user add'')
      else Inr User_add)"

definition parse_user_passwd :: "string list \<Rightarrow> cli_exn + user_subcommand" where
  "parse_user_passwd args =
     (if length args \<noteq> 1
      then Inl (InvalidCommandArgumentsError ''user passwd takes username as argument'' ''tds user passwd <username>'')
      else Inr (User_passwd (hd args)))"

definition parse_user_remove :: "string list \<Rightarrow> cli_exn + user_subcommand" where
  "parse_user_remove args =
     (if length args \<noteq> 1
      then Inl (InvalidCommandArgumentsError ''user remove takes username as argument'' ''tds user remove <username>'')
      else Inr (User_remove (hd args)))"

definition perms_usage :: string where
  "perms_usage = ''tds user perms <username> <(+|-)(twcmdu)>...''"

primrec parse_perms_flags :: "string list \<Rightarrow> Permissions \<Rightarrow> Permissions \<Rightarrow> cli_exn + Permissions \<times> Permissions" where
  "parse_perms_flags [] new taken = Inr (new, taken)"
| "parse_perms_flags (flag # flags) new taken =
     (if flag = [] then parse_perms_flags flags new taken
      else if hd flag = CHR ''-'' then
        (case perms_from_string (tl flag) of
           Inl e \<Rightarrow> Inl (Std_exception e) | Inr p \<Rightarrow> parse_perms_flags flags new (perms_or taken p))
      else if hd flag = CHR ''+'' then
        (case perms_from_string (tl flag) of
           Inl e \<Rightarrow> Inl (Std_exception e) | Inr p \<Rightarrow> parse_perms_flags flags (perms_or new p) taken)
      else Inl (InvalidCommandArgumentsError (''invalid flag '' @ flag) perms_usage))"

definition parse_user_perms :: "string list \<Rightarrow> cli_exn + user_subcommand" where
  "parse_user_perms args =
     (if length args < 2 then Inl (InvalidCommandArgumentsError ''too few arguments'' perms_usage)
      else map_sum id (\<lambda>(new, taken). User_perms (hd args) new taken) (parse_perms_flags (tl args) perm_none perm_none))"

definition parse_subcommand :: "string \<Rightarrow> string list \<Rightarrow> cli_exn + user_subcommand" where
  "parse_subcommand name args =
     (if name = ''add'' then parse_user_add args
      else if name = ''passwd'' then parse_user_passwd args
      else if name = ''perms'' then parse_user_perms args
      else if name = ''remove'' then parse_user_remove args
      else Inl (NoSuchCommandError name))"

definition check_username_uniqueness :: "UserTable \<Rightarrow> string \<Rightarrow> unit cli" where
  "check_username_uniqueness t username =
     (if has_user t username
      then raise (InvalidCommandExecutionError (''user named '' @ [apostrophe] @ username @ [apostrophe] @ '' already exists''))
      else ret ())"

definition execute_user_add :: "host \<Rightarrow> UserTable \<Rightarrow> UserTable cli" where
  "execute_user_add h t =
     bind read_username (\<lambda>username.
     andthen (check_username_uniqueness t username)
     (bind read_password (\<lambda>password.
      andthen (read_repeated_password password)
        (std_sum (add_user (h_crypt h) t username password)))))"

definition execute_user_passwd :: "host \<Rightarrow> string \<Rightarrow> UserTable \<Rightarrow> UserTable cli" where
  "execute_user_passwd h username t =
     bind (std_sum (get_password_hash_of_user t username)) (\<lambda>old_hash.
     andthen (read_old_password (h_crypt h) t username)
     (bind read_new_password (\<lambda>new_password.
      andthen (read_new_password_repeated new_password)
        (std_sum (set_password_of_user (h_crypt h) t username new_password)))))"

definition execute_user_perms :: "string \<Rightarrow> Permissions \<Rightarrow> Permissions \<Rightarrow> UserTable \<Rightarrow> UserTable cli" where
  "execute_user_perms username new taken t =
     bind (std_sum (get_perms_of_user t username)) (\<lambda>perms.
     bind (std_sum (set_perms_of_user t username (perms_and (perms_or perms new) (perms_not taken)))) (\<lambda>t'.
     andthen (print (''Changed permissions for '' @ username @ [newline])) (ret t')))"

fun execute_subcommand :: "host \<Rightarrow> user_subcommand \<Rightarrow> UserTable \<Rightarrow> UserTable cli" where
  "execute_subcommand h User_add t = execute_user_add h t"
| "execute_subcommand h (User_passwd u) t = execute_user_passwd h u t"
| "execute_subcommand h (User_perms u new taken) t = execute_user_perms u new taken t"
| "execute_subcommand h (User_remove u) t = std_sum (remove_user t u)"

definition load_user_table :: "host \<Rightarrow> path \<Rightarrow> UserTable cli" where
  "load_user_table h p =
     bind (gets t_disk) (\<lambda>d.
       let users = path_append p ''.tds/users''
       in if \<not> fs_exists d users then raise (InvalidCommandExecutionError (''could not find file '' @ quoted users))
          else std_sum (open_table (h_toml_parse h) d users empty_table))"

definition parse_user_command :: "host \<Rightarrow> string list \<Rightarrow> (UserTable \<times> string \<times> string list) cli" where
  "parse_user_command h args =
     (if args = [] then
        raise (InvalidCommandArgumentsError ''tds user takes at least one argument'' ''tds user <add|passwd|remove|perms>'')
      else if length args > 2 \<and> (hd args = ''-d'' \<or> hd args = ''--dir'') then
        bind (load_user_table h (args ! 1)) (\<lambda>t. ret (t, args ! 2, drop 3 args))
      else
        bind (gets (\<lambda>t. current_path (t_disk t))) (\<lambda>cwd.
        bind (load_user_table h cwd) (\<lambda>t. ret (t, hd args, tl args))))"

text \<open>Parsing and execution of a subcommand; the table is written back at the end.\<close>

definition execute_user_command :: "host \<Rightarrow> UserTable \<Rightarrow> string \<Rightarrow> string list \<Rightarrow> unit cli" where
  "execute_user_command h t subcommand args =
     bind (from_sum (parse_subcommand subcommand args)) (\<lambda>c.
     bind (execute_subcommand h c t) (\<lambda>t'.
     bind (cli_disk (commit_table (h_toml_print h) t')) std_sum))"

definition user_command :: "host \<Rightarrow> string list \<Rightarrow> unit cli" where
  "user_command h args = bind (parse_user_command h args) (\<lambda>(t, sub, rest). execute_user_command h t sub rest)"

section \<open>Init\<close>

definition parse_init :: "string list \<Rightarrow> path cli" where
  "parse_init args =
     (if args = [] then gets (\<lambda>t. current_path (t_disk t))
      else if length args = 1 then
        bind (gets t_disk) (\<lambda>d.
          if \<not> fs_exists d (hd args)
          then raise (InvalidCommandExecutionError (''location '' @ quoted (hd args) @ '' does not exist''))
          else ret (hd args))
      else raise (InvalidCommandArgumentsError ''invalid argument'' ''tds init [<location>]''))"

definition create_config_directory :: "path \<Rightarrow> path cli" where
  "create_config_directory location =
     bind (gets t_disk) (\<lambda>d.
     bind (cli_errno (fs_canonical d location) ''canonical'') (\<lambda>root.
       let config_name = path_append root ''.tds''
       in if fs_exists d config_name
          then raise (InvalidCommandExecutionError (''tds config already exists in '' @ quoted location))
          else bind (cli_disk (\<lambda>d. fs_create_directory d config_name)) (\<lambda>r.
                 andthen (cli_errno r ''create_directory'') (ret config_name))))"

definition write_new_file :: "path \<Rightarrow> cli_exn + bytes \<Rightarrow> string \<Rightarrow> unit cli" where
  "write_new_file p text what_file =
     bind (cli_disk (\<lambda>d. file_open_trunc d p)) (\<lambda>r.
       case r of
         Inl e \<Rightarrow> raise (InvalidCommandExecutionError (''failed to create '' @ what_file @ '' file ('' @ quoted p @ '')''))
       | Inr _ \<Rightarrow> bind (from_sum text) (\<lambda>b. cli_disk (\<lambda>d. ((), file_append d p b))))"

definition create_default_config :: "host \<Rightarrow> path \<Rightarrow> unit cli" where
  "create_default_config h location =
     write_new_file (path_append location ''config'') (Inr (default_config_file (h_threads h))) ''config''"

definition create_default_users :: "host \<Rightarrow> path \<Rightarrow> unit cli" where
  "create_default_users h location =
     write_new_file (path_append location ''users'') (map_sum Std_exception id (default_users_file (h_crypt h))) ''users''"

definition execute_init :: "host \<Rightarrow> path \<Rightarrow> unit cli" where
  "execute_init h location =
     bind (create_config_directory location) (\<lambda>config.
     andthen (create_default_config h config) (create_default_users h config))"

section \<open>Run\<close>

record run_options =
  ro_port :: "u16 option"
  ro_config_directory :: "path option"
  ro_debug_mode :: bool

definition port_argument_tip :: string where
  "port_argument_tip = ''tds run --port <16 bit unsigned integer>''"

definition config_directory_argument_tip :: string where
  "config_directory_argument_tip = ''tds run --dir <path to instance>''"

definition from_chars_u16 :: "string \<Rightarrow> u16 option" where
  "from_chars_u16 s =
     (if s \<noteq> [] \<and> list_all is_digit s \<and> decimal_value s \<le> 65535 then Some (of_nat (decimal_value s)) else None)"

definition parse_port :: "string \<Rightarrow> run_options \<Rightarrow> run_options cli" where
  "parse_port arg opts =
     (case from_chars_u16 arg of
        Some port \<Rightarrow>
          if port = 0 then raise (InvalidCommandArgumentsError ''invalid --port value'' port_argument_tip)
          else ret (opts\<lparr>ro_port := Some port\<rparr>)
      | None \<Rightarrow> raise (InvalidCommandArgumentsError ''invalid --port value'' port_argument_tip))"

definition parse_config_directory_path :: "path \<Rightarrow> run_options \<Rightarrow> run_options cli" where
  "parse_config_directory_path arg opts =
     bind (gets t_disk) (\<lambda>d.
       let tds_config = path_append arg ''.tds''
       in if \<not> fs_exists d tds_config
          then raise (InvalidCommandExecutionError (quoted tds_config @ '' is not valid tds config directory''))
          else bind (cli_errno (fs_canonical d arg) ''canonical'') (\<lambda>root. ret (opts\<lparr>ro_config_directory := Some root\<rparr>)))"

fun parse_run :: "string list \<Rightarrow> run_options \<Rightarrow> run_options cli" where
  "parse_run [] opts = ret opts"
| "parse_run (a # args) opts =
     (if a = ''--port'' \<or> a = ''-p'' then
        (case args of
           [] \<Rightarrow> raise (InvalidCommandArgumentsError ''--port (-p) expects port as argument'' port_argument_tip)
         | b # rest \<Rightarrow> bind (parse_port b opts) (parse_run rest))
      else if a = ''--dir'' \<or> a = ''-d'' then
        (case args of
           [] \<Rightarrow> raise (InvalidCommandArgumentsError ''--dir (-d) expects valid path as argument'' config_directory_argument_tip)
         | b # rest \<Rightarrow> bind (parse_config_directory_path b opts) (parse_run rest))
      else if a = ''--debug'' then parse_run args (opts\<lparr>ro_debug_mode := True\<rparr>)
      else raise (InvalidCommandArgumentsError a ''tds run''))"

definition new_run_options :: run_options where
  "new_run_options = \<lparr>ro_port = None, ro_config_directory = None, ro_debug_mode = False\<rparr>"

definition prepare_config_directory :: "run_options \<Rightarrow> run_options cli" where
  "prepare_config_directory opts =
     (if ro_config_directory opts = None
      then bind (gets (\<lambda>t. current_path (t_disk t))) (\<lambda>cwd. parse_config_directory_path cwd opts)
      else ret opts)"

definition read_run_config :: "host \<Rightarrow> path \<Rightarrow> ServerConfig cli" where
  "read_run_config h root =
     bind (gets t_disk) (\<lambda>d.
     bind (std_sum (open_config (h_toml_parse h) d root)) (\<lambda>tab. std_sum (read_config (h_threads h) tab)))"

definition overwrite_port_if_possible :: "run_options \<Rightarrow> ServerConfig \<Rightarrow> ServerConfig cli" where
  "overwrite_port_if_possible opts c =
     (case ro_port opts of None \<Rightarrow> ret c | Some port \<Rightarrow> std_sum (set_port (make_port port) c))"

text \<open>What the server is started with: its root and its configuration.\<close>

definition execute_run :: "host \<Rightarrow> run_options \<Rightarrow> (path \<times> ServerConfig) cli" where
  "execute_run h opts =
     bind (prepare_config_directory opts) (\<lambda>opts'.
       case ro_config_directory opts' of
         None \<Rightarrow> raise (Std_exception (NullDereference ''m_config_directory''))
       | Some root \<Rightarrow>
           bind (read_run_config h root) (\<lambda>c.
           bind (overwrite_port_if_possible opts' c) (\<lambda>c'. ret (root, c'))))"

section \<open>Main\<close>

definition help_message :: "string \<Rightarrow> string" where
  "help_message version =
     concat (map (\<lambda>l. l @ [newline])
      [''TinDox Server '' @ version,
       [],
       ''usage: tds <command> [args]'',
       [],
       ''These are TinDoxServer commands:'',
       ''* help                                                      display available options'',
       ''* init [director]                                           creates server instance in current or specified directory'',
       ''* run [<-d|--dir> directory] [<-p|--port> port] [--debug]   run TinDox server'',
       ''* user [<-d|--dir> <tds-dir>] <add|remove|passwd|perms>     add, modify or remove users'',
       [],
       ''User commands:'',
       ''* user add                                                  adds new user'',
       ''* user remove <username>                                    remove specified user'',
       ''* user passwd <username>                                    change user'' @ [apostrophe] @ ''s password'',
       ''* user perms <username> [+perms] [-perms]                   grant or remove permissions of user'',
       [],
       ''Available permissions:'',
       ''* write    [w] - commands like rm, rename, mkdir'',
       ''* copy     [c] - cp command'',
       ''* move     [m] - mv command'',
       ''* download [d] - dl and dls commands'',
       ''* upload   [u] - ul and uls commands''])"

definition execute_help :: "host \<Rightarrow> string list \<Rightarrow> unit cli" where
  "execute_help h args =
     andthen (print (help_message (h_version h)))
       (if args \<noteq> [] then raise (InvalidCommandArgumentsError ''help command takes no arguments'' ''tds help'') else ret ())"

definition execute_version :: "host \<Rightarrow> string list \<Rightarrow> unit cli" where
  "execute_version h args =
     andthen (print (''TinDox Server '' @ h_version h @ '' ['' @ h_build h @ '' build]'' @ [newline]))
       (if args \<noteq> [] then raise (InvalidCommandArgumentsError ''help command takes no arguments'' ''tds help'') else ret ())"

text \<open>A command of the program; \<open>run\<close> yields what the server is launched with.\<close>

definition cli_command :: "host \<Rightarrow> string \<Rightarrow> string list \<Rightarrow> (path \<times> ServerConfig) option cli" where
  "cli_command h name args =
     (if name = ''help'' then andthen (execute_help h args) (ret None)
      else if name = ''init'' then bind (parse_init args) (\<lambda>l. andthen (execute_init h l) (ret None))
      else if name = ''run'' then bind (parse_run args new_run_options) (\<lambda>opts. bind (execute_run h opts) (\<lambda>x. ret (Some x)))
      else if name = ''user'' then andthen (user_command h args) (ret None)
      else if name = ''version'' then andthen (execute_version h args) (ret None)
      else raise (NoSuchCommandError name))"

text \<open>The exit status. Without arguments the help is shown and the program fails.\<close>

definition main_program :: "host \<Rightarrow> string list \<Rightarrow> console \<Rightarrow> nat \<times> (path \<times> ServerConfig) option \<times> console" where
  "main_program h argv t =
     (case argv of
        [] \<Rightarrow> (1, None, snd (execute_help h [] t))
      | name # args \<Rightarrow>
          (case cli_command h name args t of
             (Inr launched, t') \<Rightarrow> (0, launched, t')
           | (Inl e, t') \<Rightarrow> (1, None, t')))"

section \<open>The terminal\<close>

lemma keeps_echo_basic:
  "keeps t_echo (print s)" "keeps t_echo getline" "keeps t_echo (std_sum r)" "keeps t_echo (cli_errno q m)"
  "keeps t_echo (cli_disk f)"
  by (auto simp: keeps_def print_def getline_def std_sum_def cli_errno_def cli_disk_def split: list.splits prod.splits)

lemma keeps_echo_echoless: "keeps t_echo (echoless m)"
  by (auto simp: keeps_def echoless_def split: prod.splits)

lemma keeps_echo_attempts: "keeps t_echo (attempts n p q r g)"
  by (induction n arbitrary: p) (auto intro!: keeps_intros keeps_echo_basic)

lemma keeps_option: "keeps I m \<Longrightarrow> (\<And>x. keeps I (f x)) \<Longrightarrow> keeps I (case p of None \<Rightarrow> m | Some x \<Rightarrow> f x)"
  by (cases p) simp_all

lemma keeps_sum: "(\<And>x. keeps I (f x)) \<Longrightarrow> (\<And>x. keeps I (g x)) \<Longrightarrow> keeps I (case p of Inl x \<Rightarrow> f x | Inr x \<Rightarrow> g x)"
  by (cases p) simp_all

lemma keeps_pair: "(\<And>x y. keeps I (f x y)) \<Longrightarrow> keeps I (case p of (x, y) \<Rightarrow> f x y)"
  by (cases p) simp

lemmas keeps_echo = keeps_echo_basic keeps_echo_echoless keeps_echo_attempts keeps_option keeps_sum keeps_pair

lemma keeps_echo_user: "keeps t_echo (user_command h args)"
proof -
  have "keeps t_echo (execute_subcommand h c t)" for c t
    by (cases c)
      (auto simp: execute_user_add_def check_username_uniqueness_def execute_user_passwd_def execute_user_perms_def read_username_def read_password_def
        read_repeated_password_def read_old_password_def read_new_password_def read_new_password_repeated_def
        intro!: keeps_intros keeps_echo)
  moreover have "keeps t_echo (load_user_table h p)" for p
    unfolding load_user_table_def Let_def by (intro keeps_intros keeps_echo)
  ultimately show ?thesis
    unfolding user_command_def parse_user_command_def execute_user_command_def
    by (intro keeps_intros keeps_echo) auto
qed

lemma keeps_echo_init: "keeps t_echo (execute_init h l)" "keeps t_echo (parse_init args)"
  unfolding execute_init_def create_config_directory_def create_default_config_def create_default_users_def
    write_new_file_def parse_init_def Let_def
  by (intro keeps_intros keeps_echo)+

lemma keeps_echo_run: "keeps t_echo (execute_run h opts)" "keeps t_echo (parse_run args opts)"
proof -
  have dir: "keeps t_echo (parse_config_directory_path a opts)" for a opts
    unfolding parse_config_directory_path_def Let_def by (intro keeps_intros keeps_echo)
  have port: "keeps t_echo (parse_port a opts)" for a opts
    unfolding parse_port_def by (intro keeps_intros keeps_echo)
  show "keeps t_echo (execute_run h opts)"
    unfolding execute_run_def prepare_config_directory_def read_run_config_def overwrite_port_if_possible_def
    by (intro keeps_intros keeps_echo dir)
  show "keeps t_echo (parse_run args opts)"
  proof (induction args opts rule: parse_run.induct)
    case (1 opts)
    show ?case unfolding parse_run.simps by (rule keeps_ret)
  next
    case (2 a args opts)
    then show ?case by (auto intro!: keeps_intros dir port split: list.splits)
  qed
qed

section \<open>The disk\<close>

abbreviation disk_stays :: "disk \<Rightarrow> console \<Rightarrow> bool" where
  "disk_stays d t \<equiv> t_disk t = d"

lemma keeps_disk_basic:
  "keeps (disk_stays d) (print s)" "keeps (disk_stays d) getline" "keeps (disk_stays d) (std_sum r)"
  by (auto simp: keeps_def print_def getline_def std_sum_def split: list.splits)

lemma keeps_disk_echoless: "keeps (disk_stays d) m \<Longrightarrow> keeps (disk_stays d) (echoless m)"
proof (rule keepsI)
  fix t
  assume m: "keeps (disk_stays d) m" and t: "disk_stays d t"
  then have "disk_stays d (snd (m (t\<lparr>t_echo := False\<rparr>)))" by (intro keepsD [OF m]) simp
  then show "disk_stays d (snd (echoless m t))" by (auto simp: echoless_def split: prod.splits)
qed

lemma keeps_disk_attempts: "keeps (disk_stays d) (attempts n p q r g)"
  by (induction n arbitrary: p) (auto intro!: keeps_intros keeps_disk_basic)

lemma keeps_disk_subcommand: "keeps (disk_stays d) (execute_subcommand h c t)"
  by (cases c)
    (auto simp: execute_user_add_def check_username_uniqueness_def execute_user_passwd_def execute_user_perms_def read_username_def read_password_def
      read_repeated_password_def read_old_password_def read_new_password_def read_new_password_repeated_def
      intro!: keeps_intros keeps_disk_basic keeps_disk_echoless keeps_disk_attempts)

lemma keeps_disk_parse: "keeps (disk_stays d) (parse_user_command h args)"
  unfolding parse_user_command_def load_user_table_def Let_def by (intro keeps_intros keeps_disk_basic)

section \<open>Init\<close>

lemma path_append_nested:
  assumes "a \<noteq> []" and "sep \<notin> set a" and "b \<noteq> []" and "\<not> is_absolute b"
  shows "path_append p (a @ sep # b) = path_append (path_append p a) b"
proof -
  obtain c cs where a: "a = c # cs" "c \<noteq> sep" using assms(1,2) by (cases a) auto
  then have rel: "\<not> is_absolute a" "\<not> is_absolute (a @ sep # b)" by simp_all
  have "has_filename (path_append p a)"
  proof -
    have "last a \<noteq> sep" using last_in_set [OF assms(1)] assms(2) by metis
    then show ?thesis using rel(1) assms(1) by (simp add: has_filename_def path_append_def)
  qed
  then show ?thesis using rel assms(4) by (simp add: path_append_def)
qed

lemma run_cli_disk: "cli_disk f t = (Inr (fst (f (t_disk t))), t\<lparr>t_disk := snd (f (t_disk t))\<rparr>)"
  by (simp add: cli_disk_def split: prod.splits)

text \<open>Creating a file in a directory that has no entry of that name.\<close>

lemma write_new_file_run:
  assumes "resolve (t_disk t) p = Inr l" and "obs (tree (t_disk t)) l = Some Directory" and "p \<noteq> []"
    and "plain_name n" and "obs (tree (t_disk t)) (l @ [n]) = None" and "n \<noteq> []" and "sep \<notin> set n"
  shows "\<exists>d. write_new_file (path_append p n) (Inr b) msg t = (Inr (), t\<lparr>t_disk := d\<rparr>) \<and>
    obs (tree d) = (obs (tree (t_disk t)))(l @ [n] \<mapsto> Regular b) \<and> working_dir d = working_dir (t_disk t)"
proof -
  let ?d = "t_disk t" and ?q = "path_append p n"
  have par: "resolve_parent ?d ?q = Inr l" using resolve_parent_path_append [OF assms(3,7,6,1,2)] .
  have last: "last_component ?q = n" using last_component_path_append [OF assms(3,7,6)] .
  have "last ?q = last n" using assms(6,7) by (cases n) (auto simp: path_append_def)
  moreover have "last n \<noteq> sep" using last_in_set [OF assms(6)] assms(7) by metis
  ultimately have noend: "\<not> ends_in_sep ?q" by (simp add: ends_in_sep_def)
  have none: "node_at ?d ?q = None"
    using resolve_via_parent(1) [of ?q ?d l] par last noend assms(4,5) by (simp add: node_at_def)
  obtain d1 where d1: "file_open_trunc ?d ?q = (Inr (), d1)" "d1 = ?d\<lparr>tree := put_entry l n (File []) (tree ?d)\<rparr>"
    using none par last noend assms(4) by (auto simp: file_open_trunc_def)
  have op: "opened d1 ?q l []" using open_trunc_opened [OF d1(1)] par by auto
  have dir: "obs (tree ?d) l = Some Directory" by (rule assms(2))
  have "obs (tree d1) = (obs (tree ?d))(l @ [n] \<mapsto> Regular [])"
  proof
    fix x
    have "obs (tree ?d) x = None" if "prefix (l @ [n]) x" using obs_prefix_closed [of "tree ?d" x] that assms(5) by blast
    with obs_of_file [of l n x "[]"] show "obs (tree d1) x = ((obs (tree ?d))(l @ [n] \<mapsto> Regular [])) x"
      by (auto simp: d1(2) obs_put_entry [OF dir])
  qed
  then have "obs (tree (file_append d1 ?q b)) = (obs (tree ?d))(l @ [n] \<mapsto> Regular b)"
    using file_append_obs [OF op, of b] by (simp add: last)
  moreover have "working_dir (file_append d1 ?q b) = working_dir ?d"
    unfolding file_append_opened [OF op] by (simp add: d1(2))
  ultimately show ?thesis
    using d1(1) by (intro exI [of _ "file_append d1 ?q b"]) (simp add: write_new_file_def bind_def run_cli_disk)
qed

lemma execute_init_run:
  assumes "wf_node (tree (t_disk t))" and "resolve (t_disk t) loc = Inr l" and "obs (tree (t_disk t)) l = Some Directory"
    and "obs (tree (t_disk t)) (l @ [''.tds'']) = None" and "default_users_file (h_crypt h) = Inr users"
  shows "\<exists>d. execute_init h loc t = (Inr (), t\<lparr>t_disk := d\<rparr>) \<and> working_dir d = working_dir (t_disk t) \<and>
    obs (tree d) = (obs (tree (t_disk t)))(l @ [''.tds''] \<mapsto> Directory,
      l @ [''.tds'', ''config''] \<mapsto> Regular (default_config_file (h_threads h)), l @ [''.tds'', ''users''] \<mapsto> Regular users)"
proof -
  let ?d = "t_disk t" and ?root = "canonical_of l" and ?tds = "l @ [''.tds'']"
  have names: "plain_name ''.tds''" "plain_name ''config''" "plain_name ''users''" by (simp_all add: plain_name_def)
  have plain: "list_all plain_name l" using wf_plain_names [OF assms(1)] assms(3) by (auto simp: obs_def)
  have root_dir: "obs (tree ?d) [] = Some Directory"
    using assms(3) obs_prefix_closed [of "tree ?d" l "[]"] obs_parent [of "tree ?d" "[]"] by (cases l) auto
  have root: "resolve ?d ?root = Inr l" using resolve_canonical [OF plain _ root_dir] assms(3) by simp
  from create_directory_run [OF root assms(3) canonical_nonempty names(1) assms(4)] obtain d1 where
    d1: "\<not> fs_exists ?d (path_append ?root ''.tds'')" "fs_create_directory ?d (path_append ?root ''.tds'') = (Inr True, d1)"
      "working_dir d1 = working_dir ?d" "obs (tree d1) = (obs (tree ?d))(?tds \<mapsto> Directory)" by blast
  have plain1: "list_all plain_name ?tds" using plain names(1) by simp
  have ne: "path_append ?root ''.tds'' \<noteq> []" by (simp add: path_append_def canonical_of_def)
  have resolved: "resolve d (path_append ?root ''.tds'') = Inr ?tds"
    if "obs (tree d) ?tds = Some Directory" "obs (tree d) l = Some Directory" "obs (tree d) [] = Some Directory" for d
    using that resolve_path_append [OF canonical_nonempty, of "''.tds''" d l] resolve_canonical [OF plain, of d]
      walk_single_plain [OF names(1), of "tree d" l] by simp
  have below: "obs (tree ?d) (?tds @ [n]) = None" for n
    using obs_prefix_closed [of "tree ?d" "?tds @ [n]" ?tds] assms(4) by (metis prefixI)
  define t1 where "t1 = t\<lparr>t_disk := d1\<rparr>"
  have dirs1: "obs (tree d1) ?tds = Some Directory" "obs (tree d1) l = Some Directory" "obs (tree d1) [] = Some Directory"
    using d1(4) assms(3) root_dir by simp_all
  from write_new_file_run [of t1 "path_append ?root ''.tds''" ?tds "''config''" "default_config_file (h_threads h)" "''config''"]
  obtain d2 where d2: "create_default_config h (path_append ?root ''.tds'') t1 = (Inr (), t\<lparr>t_disk := d2\<rparr>)"
      "obs (tree d2) = (obs (tree d1))(?tds @ [''config''] \<mapsto> Regular (default_config_file (h_threads h)))"
      "working_dir d2 = working_dir d1"
    using resolved [OF dirs1] dirs1(1) ne names(2) below [of "''config''"] d1(4)
    by (auto simp: t1_def create_default_config_def)
  define t2 where "t2 = t\<lparr>t_disk := d2\<rparr>"
  have dirs2: "obs (tree d2) ?tds = Some Directory" "obs (tree d2) l = Some Directory" "obs (tree d2) [] = Some Directory"
    using d2(2) dirs1 by simp_all
  from write_new_file_run [of t2 "path_append ?root ''.tds''" ?tds "''users''" users "''users''"]
  obtain d3 where d3: "create_default_users h (path_append ?root ''.tds'') t2 = (Inr (), t\<lparr>t_disk := d3\<rparr>)"
      "obs (tree d3) = (obs (tree d2))(?tds @ [''users''] \<mapsto> Regular users)" "working_dir d3 = working_dir d2"
    using resolved [OF dirs2] dirs2(1) ne names(3) below [of "''users''"] d1(4) d2(2) assms(5)
    by (auto simp: t2_def create_default_users_def)
  have "create_config_directory loc t = (Inr (path_append ?root ''.tds''), t1)"
    using assms(2) d1(1,2)
    by (simp add: create_config_directory_def bind_def fs_canonical_def cli_errno_def run_cli_disk andthen_def Let_def ret_def t1_def)
  then have "execute_init h loc t = (Inr (), t\<lparr>t_disk := d3\<rparr>)"
    using d2(1) d3(1) by (simp add: execute_init_def bind_def andthen_def t2_def)
  then show ?thesis using d1(3,4) d2(2,3) d3(2,3) by (intro exI [of _ d3]) simp
qed

section \<open>Properties\<close>

text \<open>
  However the program is called and whatever is typed, the terminal echoes again when it
  ends: also after a password prompt that was left by an exception.
\<close>

lemma echo_restored:
  assumes "t_echo t"
  shows "t_echo (snd (snd (main_program h argv t)))"
proof -
  have shown: "keeps t_echo (execute_help h args)" "keeps t_echo (execute_version h args)" for args
    unfolding execute_help_def execute_version_def by (intro keeps_intros keeps_echo)+
  have "keeps t_echo (cli_command h name args)" for name args
    unfolding cli_command_def by (intro keeps_intros shown keeps_echo_init keeps_echo_run keeps_echo_user)
  then have "t_echo (snd (cli_command h name args t))" for name args using assms by (rule keepsD)
  moreover have "t_echo (snd (execute_help h [] t))" using shown(1) assms by (rule keepsD)
  ultimately show ?thesis
    by (auto simp: main_program_def split: list.splits prod.splits sum.splits) (metis snd_conv)+
qed

lemma commit_table_failed: "commit_table pr tab d = (Inl e, d') \<Longrightarrow> d' = d"
  by (auto simp: commit_table_def file_open_trunc_def split: prod.splits sum.splits if_splits option.splits node.splits)

text \<open>
  C31: a \<open>user\<close> command that ends with an error, whether in its arguments, at a prompt, in the
  table or on opening the file for writing, leaves the disk and so the users file as it was.
\<close>

theorem user_command_atomic:
  assumes "user_command h args t = (Inl e, t')"
  shows "t_disk t' = t_disk t"
proof -
  have parse: "t_disk (snd (parse_user_command h args t)) = t_disk t" using keepsD [OF keeps_disk_parse] by blast
  show ?thesis
  proof (cases "fst (parse_user_command h args t)")
    case (Inl f)
    with assms parse show ?thesis by (auto simp: user_command_def bind_def split: prod.splits)
  next
    case (Inr r)
    obtain tab sub rest where r: "r = (tab, sub, rest)" by (cases r)
    obtain t1 where t1: "parse_user_command h args t = (Inr (tab, sub, rest), t1)" "t_disk t1 = t_disk t"
      using Inr parse r by (cases "parse_user_command h args t") auto
    with assms have run: "execute_user_command h tab sub rest t1 = (Inl e, t')" by (simp add: user_command_def bind_def)
    show ?thesis
    proof (cases "parse_subcommand sub rest")
      case (Inl f)
      with run t1(2) show ?thesis by (simp add: execute_user_command_def bind_def)
    next
      case (Inr c)
      obtain x t2 where x: "execute_subcommand h c tab t1 = (x, t2)" by fastforce
      have t2: "t_disk t2 = t_disk t" using keepsD [OF keeps_disk_subcommand, of t1 _ h c tab] t1(2) x by simp
      show ?thesis
      proof (cases x)
        case (Inl f)
        with run Inr x t2 show ?thesis by (simp add: execute_user_command_def bind_def)
      next
        case (Inr tab')
        obtain q d where q: "commit_table (h_toml_print h) tab' (t_disk t2) = (q, d)" by fastforce
        with run \<open>parse_subcommand sub rest = Inr c\<close> x Inr have "q = Inl (case e of Std_exception f \<Rightarrow> f)" "t' = t2\<lparr>t_disk := d\<rparr>"
          by (cases q; auto simp: execute_user_command_def bind_def run_cli_disk std_sum_def)+
        with commit_table_failed q t2 show ?thesis by auto
      qed
    qed
  qed
qed

definition sample_host :: host where
  "sample_host = \<lparr>h_version = ''1.0'', h_build = ''release'', h_crypt = (\<lambda>w s. Inr (''$'' @ w)),
     h_toml_parse = (\<lambda>b. if b = ''users'' then Some [(''users'', Toml_array [])] else
       Some [(''server'', Toml_table [(''max_thread_count'', Toml_integer 2), (''max_user_count'', Toml_integer 10),
         (''backlog'', Toml_integer 32), (''port'', Toml_integer 37666), (''upload_max_size'', Toml_integer 2147483647)])]),
     h_toml_print = (\<lambda>_. ''users''), h_threads = 2\<rparr>"

definition sample_console :: console where
  "sample_console = \<lparr>t_in = [''bob'', ''a'', ''b'', ''c'', ''d''], t_out = [], t_echo = True,
     t_disk = \<lparr>tree = Dir [(''.tds'', Dir [(''users'', File ''users'')])], working_dir = [], available = 0\<rparr>\<rparr>"

lemma echo_restored_witness:
  "t_echo (snd (snd (main_program sample_host [''user'', ''add''] sample_console))) \<and>
   fst (main_program sample_host [''user'', ''add''] sample_console) = 1"
proof -
  have "fst (main_program sample_host [''user'', ''add''] sample_console) = 1" by code_simp
  moreover have "t_echo sample_console" by (simp add: sample_console_def)
  ultimately show ?thesis using echo_restored [of sample_console sample_host "[''user'', ''add'']"] by blast
qed

theorem user_command_atomic_witness:
  "\<exists>t'. user_command sample_host [''add''] sample_console = (Inl too_many_attempts_error, t') \<and> t_disk t' = t_disk sample_console"
proof -
  have "fst (user_command sample_host [''add''] sample_console) = Inl too_many_attempts_error" by code_simp
  then obtain t' where "user_command sample_host [''add''] sample_console = (Inl too_many_attempts_error, t')"
    by (metis prod.collapse)
  from this user_command_atomic [OF this] show ?thesis by blast
qed

text \<open>The values of the default file, in the order of their names as the parser keeps them.\<close>

definition default_config_document :: "int \<Rightarrow> (string \<times> toml) list" where
  "default_config_document n = [(''server'', Toml_table [(''backlog'', Toml_integer 32), (''max_thread_count'', Toml_integer n),
     (''max_user_count'', Toml_integer (5 * n)), (''port'', Toml_integer 37666), (''upload_max_size'', Toml_integer 2147483647)])]"

lemma read_default_config:
  assumes "1 \<le> n" and "5 * n < 2 ^ 31"
  shows "read_config n (default_config_document n) = Inr (new_config n)"
proof -
  have "to_int n = n" "to_int (5 * n) = 5 * n" "to_int 32 = 32" using assms by (simp_all add: to_int_small)
  moreover have "make_port 37666 \<noteq> invalid_port" using default_port_valid by (simp add: default_port_def)
  ultimately show ?thesis using assms(1)
    by (simp add: read_config_def default_config_document_def set_integer_field_def set_max_thread_count_def
        set_max_user_count_def set_config_backlog_def set_port_def set_upload_max_size_def new_config_def
        default_max_thread_count_def default_max_user_count_def default_backlog_def default_port_def
        default_upload_max_size_def)
qed

lemma run_reads_config:
  assumes "resolve d loc = Inr l" and "list_all plain_name l" and "obs (tree d) [] = Some Directory"
    and "obs (tree d) l = Some Directory" and "obs (tree d) (l @ [''.tds'']) = Some Directory"
    and "obs (tree d) (l @ [''.tds'', ''config'']) = Some (Regular b)"
    and "h_toml_parse h b = Some tab" and "read_config (h_threads h) tab = Inr c" and "t_disk t = d"
  shows "cli_command h ''run'' [''-d'', loc] t = (Inr (Some (canonical_of l, c)), t)"
proof -
  have ne: "loc \<noteq> []" using assms(1) by (auto simp: resolve_def)
  have names: "plain_name ''.tds''" "plain_name ''config''" by (simp_all add: plain_name_def)
  have step: "resolve d (path_append p ''.tds'') = Inr (l @ [''.tds''])" if "resolve d p = Inr l" "p \<noteq> []" for p
    using resolve_path_append [OF that(2), of "''.tds''"] that(1) walk_single_plain [OF names(1) assms(4)] assms(5) by simp
  have "fs_exists d (path_append loc ''.tds'')"
    using step [OF assms(1) ne] assms(5) by (auto simp: fs_exists_def node_at_def obs_def)
  then have args: "parse_run [''-d'', loc] new_run_options t =
      (Inr (new_run_options\<lparr>ro_config_directory := Some (canonical_of l)\<rparr>), t)"
    using assms(1,9)
    by (simp add: parse_config_directory_path_def bind_def Let_def cli_errno_def fs_canonical_def ret_def)
  have root: "resolve d (canonical_of l) = Inr l" using resolve_canonical assms(2,3,4) by simp
  have "resolve d (path_append (canonical_of l) ''.tds/config'') = Inr (l @ [''.tds'', ''config''])"
  proof -
    have "path_append (canonical_of l) ''.tds/config'' = path_append (path_append (canonical_of l) ''.tds'') ''config''"
      using path_append_nested [of "''.tds''" "''config''"] by simp
    then show ?thesis
      using step [OF root canonical_nonempty] resolve_path_append [of "path_append (canonical_of l) ''.tds''" "''config''" d]
        walk_single_plain [OF names(2) assms(5)] assms(6) by (simp add: path_append_def canonical_of_def)
  qed
  moreover have "lookup (tree d) (l @ [''.tds'', ''config'']) = Some (File b)"
    using assms(6) by (auto simp: obs_def elim: entry_of.elims)
  ultimately have "open_config (h_toml_parse h) d (canonical_of l) = Inr tab"
    using assms(7) by (simp add: open_config_def read_file_def node_at_def)
  then show ?thesis using args assms(8,9)
    by (simp add: cli_command_def bind_def execute_run_def prepare_config_directory_def read_run_config_def
        overwrite_port_if_possible_def std_sum_def ret_def new_run_options_def)
qed

text \<open>
  C30: \<open>tds init\<close> on an existing directory without an instance creates exactly the directory
  \<open>.tds\<close> and in it the files \<open>config\<close> and \<open>users\<close> with the default contents, and \<open>tds run\<close> on
  the result starts a server whose root is that directory and whose configuration is the default
  one: what \<open>init\<close> writes is what \<open>run\<close> reads. The parser is assumed to read the default
  configuration file as the values it spells out, and the machine to have between one and
  429496729 hardware threads.
\<close>

theorem init_then_run:
  assumes "wf_node (tree (t_disk t))" and "resolve (t_disk t) loc = Inr l" and "obs (tree (t_disk t)) l = Some Directory"
    and "obs (tree (t_disk t)) (l @ [''.tds'']) = None" and "default_users_file (h_crypt h) = Inr users"
    and "1 \<le> h_threads h" and "5 * h_threads h < 2 ^ 31"
    and "h_toml_parse h (default_config_file (h_threads h)) = Some (default_config_document (h_threads h))"
  shows "\<exists>d. cli_command h ''init'' [loc] t = (Inr None, t\<lparr>t_disk := d\<rparr>) \<and>
    obs (tree d) = (obs (tree (t_disk t)))(l @ [''.tds''] \<mapsto> Directory,
      l @ [''.tds'', ''config''] \<mapsto> Regular (default_config_file (h_threads h)), l @ [''.tds'', ''users''] \<mapsto> Regular users) \<and>
    cli_command h ''run'' [''-d'', loc] (t\<lparr>t_disk := d\<rparr>) =
      (Inr (Some (canonical_of l, new_config (h_threads h))), t\<lparr>t_disk := d\<rparr>)"
proof -
  let ?o = "obs (tree (t_disk t))"
  obtain d where d: "execute_init h loc t = (Inr (), t\<lparr>t_disk := d\<rparr>)" "working_dir d = working_dir (t_disk t)"
    and o: "obs (tree d) = ?o(l @ [''.tds''] \<mapsto> Directory,
      l @ [''.tds'', ''config''] \<mapsto> Regular (default_config_file (h_threads h)), l @ [''.tds'', ''users''] \<mapsto> Regular users)"
    using execute_init_run [OF assms(1-5)] by blast
  have none: "?o (l @ [''.tds'', n]) = None" for n
    using obs_prefix_closed [of "tree (t_disk t)" "l @ [''.tds'', n]" "l @ [''.tds'']"] assms(4)
    by (metis append.assoc append_Cons append_Nil prefixI)
  have "?o \<subseteq>\<^sub>m obs (tree d)" using assms(4) none by (auto simp: o map_le_def)
  then have res: "resolve d loc = Inr l" using resolve_mono assms(2) d(2) by blast
  have "fs_exists (t_disk t) loc" using assms(2,3) by (auto simp: fs_exists_def node_at_def obs_def)
  then have "cli_command h ''init'' [loc] t = (Inr None, t\<lparr>t_disk := d\<rparr>)"
    using d(1) by (simp add: cli_command_def parse_init_def bind_def andthen_def ret_def)
  moreover have "list_all plain_name l" using wf_plain_names [OF assms(1)] assms(3) by (auto simp: obs_def)
  moreover have "?o [] = Some Directory"
    using assms(3) obs_prefix_closed [of "tree (t_disk t)" l "[]"] obs_parent [of "tree (t_disk t)" "[]"] by (cases l) auto
  ultimately show ?thesis
    using run_reads_config [OF res, of "default_config_file (h_threads h)" h "default_config_document (h_threads h)"
        "new_config (h_threads h)" "t\<lparr>t_disk := d\<rparr>"] o assms(3,8) read_default_config [OF assms(6,7)] by auto
qed

definition init_host :: host where
  "init_host = sample_host\<lparr>h_toml_parse := (\<lambda>b. if b = default_config_file 2 then Some (default_config_document 2) else None)\<rparr>"

theorem init_then_run_witness:
  "\<exists>d. cli_command init_host ''init'' [''/''] (sample_console\<lparr>t_disk := \<lparr>tree = Dir [], working_dir = [], available = 0\<rparr>\<rparr>) =
      (Inr None, sample_console\<lparr>t_disk := d\<rparr>) \<and>
    obs (tree d) [''.tds'', ''config''] = Some (Regular (default_config_file 2)) \<and>
    cli_command init_host ''run'' [''-d'', ''/''] (sample_console\<lparr>t_disk := d\<rparr>) =
      (Inr (Some (''/'', new_config 2)), sample_console\<lparr>t_disk := d\<rparr>)"
proof -
  let ?t = "sample_console\<lparr>t_disk := \<lparr>tree = Dir [], working_dir = [], available = 0\<rparr>\<rparr>"
  obtain users where users: "default_users_file (h_crypt init_host) = Inr users"
    by (simp add: init_host_def sample_host_def default_users_file_def hash_def)
  have "resolve (t_disk ?t) ''/'' = Inr []" by code_simp
  moreover have "obs (Dir []) [''.tds''] = None" by code_simp
  ultimately show ?thesis
    using init_then_run [of ?t "''/''" "[]" init_host users] users
    by (auto simp: init_host_def sample_host_def sample_console_def canonical_of_def)
qed

end
