(* ===== verification/Server_Process.thy ===== *)
theory Server_Process
  imports Server_Run Admin_Cli
begin

text \<open>
  The whole server program: what \<open>tds run\<close> constructs, launches and destroys (\<open>cli/run_command.cpp\<close>,
  the constructors of \<open>server/server.cpp\<close> and \<open>server/client_service_supervisor.cpp\<close>), and the exit
  status of \<open>main.cpp\<close>. The descriptors of the server, the console and the shared state meet here.
\<close>

section \<open>Scopes\<close>

text \<open>
  The process: its descriptors, its console with the disk, and the server as its destructor left it.
  An action gives nothing when the server still runs where the answers of the kernel end.
\<close>

record process =
  ps_devices :: devices
  ps_console :: console
  ps_server :: "server option"

type_synonym 'a proc = "process \<Rightarrow> ((exn + 'a) \<times> process) option"

text \<open>
  A member or a local object: constructed, used, and destroyed however its use ended. What a failed
  constructor leaves is not destroyed again.
\<close>

definition scoped :: "(devices \<Rightarrow> (exn + unit) \<times> devices) \<Rightarrow> (devices \<Rightarrow> devices) \<Rightarrow> 'a proc \<Rightarrow> 'a proc" where
  "scoped construct destroy body p =
     (case construct (ps_devices p) of
        (Inl x, w) \<Rightarrow> Some (Inl x, p\<lparr>ps_devices := w\<rparr>)
      | (Inr _, w) \<Rightarrow>
          map_option (\<lambda>(r, q). (r, q\<lparr>ps_devices := destroy (ps_devices q)\<rparr>)) (body (p\<lparr>ps_devices := w\<rparr>)))"

section \<open>The life of the server\<close>

text \<open>Answers to the constructors, and to the configuration.\<close>

record process_answers =
  pa_socket :: fd_answer
  pa_socket_option :: "nat option"
  pa_epoll :: fd_answer
  pa_service_epoll :: fd_answer
  pa_pipe :: "nat + int \<times> int"
  pa_ctl_pipe :: "nat option"
  pa_start :: start_answers

text \<open>
  The devices: 0 the signals, 1 the listener, 2 the epoll of the server, 3 that of the supervisor,
  4 and 5 the ends of its pipe.
\<close>

definition new_startup :: "devices \<Rightarrow> startup" where
  "new_startup w = \<lparr>st_devices = w, st_handlers = [], st_mask = {}, st_listener = new_listener, st_epoll = [], st_services = 0\<rparr>"

text \<open>The destructor of the server; what its clients did is on the disk.\<close>

definition leave :: "server \<Rightarrow> process \<Rightarrow> process" where
  "leave s p =
     (let s' = server_destroy s
      in p\<lparr>ps_server := Some s', ps_console := (ps_console p)\<lparr>t_disk := w_disk (sv_world (srv_supervisor s'))\<rparr>\<rparr>)"

text \<open>\<open>launch\<close>; the echo of the terminal is off while the main loop runs, and on behind it.\<close>

definition launch_and_leave ::
    "env \<Rightarrow> start_answers \<Rightarrow> (service_event list \<times> (nat + main_event list)) list \<Rightarrow> server \<Rightarrow> unit proc" where
  "launch_and_leave e a turns s p =
     (case server_configure a (srv_config s) 0 1 (new_startup (ps_devices p)) of
        (Inl x, st) \<Rightarrow> Some (Inl x, leave s (p\<lparr>ps_devices := st_devices st\<rparr>))
      | (Inr configured, st) \<Rightarrow>
          let q = p\<lparr>ps_devices := st_devices st, ps_console := (ps_console p)\<lparr>t_echo := configured \<or> t_echo (ps_console p)\<rparr>\<rparr>
          in case server_launch e (get_fd 4 (ps_devices p)) configured turns s of
               (Inl x, s') \<Rightarrow> Some (Inl x, leave s' q)
             | (Inr going, s') \<Rightarrow> if going then None else Some (Inr (), leave s' q))"

definition with_supervisor :: "process_answers \<Rightarrow> unit proc \<Rightarrow> unit proc" where
  "with_supervisor a body =
     scoped (epoll_device_new (pa_service_epoll a) 3) (device_destroy 3)
    (scoped (make_pipe (pa_pipe a) 4 5) (\<lambda>w. device_destroy 4 (device_destroy 5 w))
    (\<lambda>p. case epoll_ctl (pa_ctl_pipe a) (get_fd 4 (ps_devices p)) ev_in [] of
           Inl x \<Rightarrow> Some (Inl x, p)
         | Inr _ \<Rightarrow> body p))"

text \<open>The members are constructed in the order of their declaration, the context of the server first.\<close>

definition with_server ::
    "toml_reader \<Rightarrow> process_answers \<Rightarrow> path \<Rightarrow> ServerConfig \<Rightarrow> (server \<Rightarrow> unit proc) \<Rightarrow> unit proc" where
  "with_server toml_parse a root config body p =
     (case construct_server_context toml_parse root (cfg_upload_max_size config) (t_disk (ps_console p)) of
        Inl x \<Rightarrow> Some (Inl x, p)
      | Inr sc \<Rightarrow>
          scoped (\<lambda>w. (Inr (), device_new 0 w)) (device_destroy 0)
         (scoped (tcp_listener_new (pa_socket a) (pa_socket_option a) 1) (device_destroy 1)
         (scoped (epoll_device_new (pa_epoll a) 2) (device_destroy 2)
         (with_supervisor a (\<lambda>q. body (new_server config
            \<lparr>w_server = sc, w_heap = empty_heap, w_disk = t_disk (ps_console p)\<rparr> (get_fd 4 (ps_devices q))) q)))) p)"

definition host_env :: "host \<Rightarrow> (path \<Rightarrow> string option) \<Rightarrow> env" where
  "host_env h mtime = \<lparr>e_crypt = h_crypt h, e_toml_parse = h_toml_parse h, e_toml_print = h_toml_print h, e_mtime = mtime\<rparr>"

definition launch_server ::
    "host \<Rightarrow> (path \<Rightarrow> string option) \<Rightarrow> process_answers \<Rightarrow> (service_event list \<times> (nat + main_event list)) list \<Rightarrow>
      path \<Rightarrow> ServerConfig \<Rightarrow> unit proc" where
  "launch_server h mtime a turns root config =
     with_server (h_toml_parse h) a root config (launch_and_leave (host_env h mtime) (pa_start a) turns)"

text \<open>The exit status; whatever is thrown becomes a failure.\<close>

definition tds_main ::
    "host \<Rightarrow> (path \<Rightarrow> string option) \<Rightarrow> process_answers \<Rightarrow> (service_event list \<times> (nat + main_event list)) list \<Rightarrow>
      string list \<Rightarrow> process \<Rightarrow> (nat \<times> process) option" where
  "tds_main h mtime a turns argv p =
     (case main_program h argv (ps_console p) of
        (code, None, t) \<Rightarrow> Some (code, p\<lparr>ps_console := t\<rparr>)
      | (code, Some (root, config), t) \<Rightarrow>
          map_option (\<lambda>(r, q). (case r of Inl _ \<Rightarrow> 1 | Inr _ \<Rightarrow> 0, q))
            (launch_server h mtime a turns root config (p\<lparr>ps_console := t\<rparr>)))"

section \<open>Descriptors\<close>

definition answer_fds :: "fd_answer \<Rightarrow> int list" where
  "answer_fds a = (case a of New_fd fd \<Rightarrow> [fd] | Fd_error e \<Rightarrow> [])"

definition pipe_fds :: "nat + int \<times> int \<Rightarrow> int list" where
  "pipe_fds a = (case a of Inl e \<Rightarrow> [] | Inr (fd0, fd1) \<Rightarrow> [fd0, fd1])"

text \<open>What the kernel hands out, in the order of the calls.\<close>

definition process_fds :: "process_answers \<Rightarrow> int list" where
  "process_fds a = answer_fds (pa_socket a) @ answer_fds (pa_epoll a) @ answer_fds (pa_service_epoll a) @
     pipe_fds (pa_pipe a) @ answer_fds (sa_signalfd (pa_start a))"

text \<open>
  \<open>ready L D fds w\<close>: the objects are \<open>D\<close>, the open descriptors are theirs and \<open>L\<close>, those to come
  are free, and the signals have not been started. \<open>tidy\<close>: an action that leaves the objects it found.
\<close>

definition ready :: "int set \<Rightarrow> nat set \<Rightarrow> int list \<Rightarrow> devices \<Rightarrow> bool" where
  "ready L D fds w \<longleftrightarrow> owned w L \<and> dom (dv_fd w) = D \<and> distinct fds \<and> (\<forall>fd\<in>set fds. fresh_fd w fd) \<and> \<not> is_valid 0 w"

definition tidy :: "nat set \<Rightarrow> int list \<Rightarrow> 'a proc \<Rightarrow> bool" where
  "tidy D fds m \<longleftrightarrow> (\<forall>L p r q. ready L D fds (ps_devices p) \<longrightarrow> m p = Some (r, q) \<longrightarrow>
     owned (ps_devices q) L \<and> dom (dv_fd (ps_devices q)) = D)"

lemma tidyI:
  assumes "\<And>L p r q. ready L D fds (ps_devices p) \<Longrightarrow> m p = Some (r, q) \<Longrightarrow>
      owned (ps_devices q) L \<and> dom (dv_fd (ps_devices q)) = D"
  shows "tidy D fds m"
  unfolding tidy_def using assms by blast

lemma tidyD:
  "tidy D fds m \<Longrightarrow> ready L D fds (ps_devices p) \<Longrightarrow> m p = Some (r, q) \<Longrightarrow>
     owned (ps_devices q) L \<and> dom (dv_fd (ps_devices q)) = D"
  by (simp add: tidy_def)

text \<open>The contract of a class of devices, and what it gives for every use of an object.\<close>

locale device_scope =
  fixes construct :: "devices \<Rightarrow> (exn + unit) \<times> devices" and destroy :: "devices \<Rightarrow> devices"
    and ids :: "nat set" and fds :: "int list"
  assumes constructed: "ready L D (fds @ rest) w \<Longrightarrow> D \<inter> ids = {} \<Longrightarrow> construct w = (r, w') \<Longrightarrow>
      (case r of Inl _ \<Rightarrow> owned w' L \<and> dom (dv_fd w') = D | Inr _ \<Rightarrow> ready L (D \<union> ids) rest w')"
    and destroyed: "owned w L \<Longrightarrow> owned (destroy w) L" "dom (dv_fd (destroy w)) = dom (dv_fd w) - ids"
begin

lemma scoped_tidy:
  assumes "D \<inter> ids = {}" and "tidy (D \<union> ids) rest body"
  shows "tidy D (fds @ rest) (scoped construct destroy body)"
  unfolding tidy_def
proof (intro allI impI)
  fix L p r q
  assume p: "ready L D (fds @ rest) (ps_devices p)" and q: "scoped construct destroy body p = Some (r, q)"
  obtain c w where c: "construct (ps_devices p) = (c, w)" by fastforce
  show "owned (ps_devices q) L \<and> dom (dv_fd (ps_devices q)) = D"
  proof (cases c)
    case (Inl x)
    with constructed [OF p assms(1) c] q c show ?thesis by (auto simp: scoped_def)
  next
    case (Inr u)
    with q c obtain q' where q': "body (p\<lparr>ps_devices := w\<rparr>) = Some (r, q')" "q = q'\<lparr>ps_devices := destroy (ps_devices q')\<rparr>"
      by (auto simp: scoped_def)
    have "ready L (D \<union> ids) rest w" using constructed [OF p assms(1) c] Inr by simp
    then have own: "owned (ps_devices q') L" and dom: "dom (dv_fd (ps_devices q')) = D \<union> ids"
      using tidyD [OF assms(2) _ q'(1)] by simp_all
    from destroyed(1) [OF own] dom assms(1) show ?thesis unfolding q'(2) by (auto simp: destroyed(2))
  qed
qed

end

lemma ready_open:
  assumes "ready L D (fd # rest) w" and "i \<notin> D" and "i \<noteq> 0"
  shows "ready L (insert i D) rest (set_fd i fd (sys_open fd w))"
proof -
  have w: "owned w L" "dv_fd w i = None" "fresh_fd w fd" "dom (dv_fd w) = D" "\<not> is_valid 0 w" using assms by (auto simp: ready_def)
  have "dom (dv_fd (set_fd i fd (sys_open fd w))) = insert i D" using w(4) by (simp add: set_fd_def sys_open_def)
  moreover have "\<forall>x\<in>set rest. fresh_fd (set_fd i fd (sys_open fd w)) x" using assms(1) by (auto simp: ready_def fresh_fd_def)
  ultimately show ?thesis using owned_fresh [OF w(1-3)] assms(1,3) w(5) by (auto simp: ready_def is_valid_def)
qed

lemma destroy_domain: "dom (dv_fd (device_destroy i w)) = dom (dv_fd w) - {i}"
  by (auto simp: device_destroy_def dom_def)

lemma destroy_new:
  assumes "dv_fd w i = None" and "owned w L"
  shows "owned (device_destroy i (device_new i w)) L \<and> dom (dv_fd (device_destroy i (device_new i w))) = dom (dv_fd w)"
proof -
  have "dom (dv_fd (device_new i w)) = insert i (dom (dv_fd w))" by (simp add: device_new_def set_fd_def)
  moreover have "i \<notin> dom (dv_fd w)" using assms(1) by auto
  ultimately show ?thesis using owned_destroy [OF owned_make [OF assms(2,1)]] by (simp add: destroy_domain)
qed

interpretation signals: device_scope "\<lambda>w. (Inr (), device_new 0 w)" "device_destroy 0" "{0}" "[]"
proof
  fix L D rest w r w'
  assume w: "ready L D ([] @ rest) w" and "D \<inter> {0} = {}" and "(Inr (), device_new 0 w) = (r, w')"
  then have r: "r = Inr ()" "w' = device_new 0 w" and "dv_fd w 0 = None" by (auto simp: ready_def)
  then have "owned w' L" using w owned_make by (simp add: ready_def)
  moreover have "dom (dv_fd w') = D \<union> {0}" "\<not> is_valid 0 w'" "dv_open w' = dv_open w"
    using w by (auto simp: r device_new_def set_fd_def ready_def is_valid_def get_fd_def)
  ultimately show "case r of Inl _ \<Rightarrow> owned w' L \<and> dom (dv_fd w') = D | Inr _ \<Rightarrow> ready L (D \<union> {0}) rest w'"
    using w r by (auto simp: ready_def fresh_fd_def)
qed (auto simp: owned_destroy destroy_domain)

interpretation epolls: device_scope "epoll_device_new a (Suc i)" "device_destroy (Suc i)" "{Suc i}" "answer_fds a" for a i
proof
  fix L D rest w r w'
  assume w: "ready L D (answer_fds a @ rest) w" and new: "D \<inter> {Suc i} = {}" and c: "epoll_device_new a (Suc i) w = (r, w')"
  then have "dv_fd w (Suc i) = None" "owned w L" "dom (dv_fd w) = D" by (auto simp: ready_def)
  with w new c ready_open [of L D _ rest w "Suc i"] destroy_new [of w "Suc i" L]
  show "case r of Inl _ \<Rightarrow> owned w' L \<and> dom (dv_fd w') = D | Inr _ \<Rightarrow> ready L (D \<union> {Suc i}) rest w'"
    by (auto simp: epoll_device_new_def answer_fds_def split: fd_answer.splits)
qed (auto simp: owned_destroy destroy_domain)

interpretation listeners: device_scope "tcp_listener_new a opt (Suc i)" "device_destroy (Suc i)" "{Suc i}" "answer_fds a" for a opt i
proof
  fix L D rest w r w'
  assume w: "ready L D (answer_fds a @ rest) w" and new: "D \<inter> {Suc i} = {}" and c: "tcp_listener_new a opt (Suc i) w = (r, w')"
  then have none: "dv_fd w (Suc i) = None" "owned w L" "dom (dv_fd w) = D" by (auto simp: ready_def)
  show "case r of Inl _ \<Rightarrow> owned w' L \<and> dom (dv_fd w') = D | Inr _ \<Rightarrow> ready L (D \<union> {Suc i}) rest w'"
  proof (cases a)
    case (New_fd fd)
    let ?w = "set_fd (Suc i) fd (sys_open fd w)"
    have made: "ready L (insert (Suc i) D) rest ?w" using ready_open [of L D fd rest w "Suc i"] w new New_fd by (simp add: answer_fds_def)
    from made have "owned (device_destroy (Suc i) ?w) L" "dom (dv_fd (device_destroy (Suc i) ?w)) = D"
      using new by (auto simp: ready_def owned_destroy destroy_domain)
    with made c New_fd show ?thesis by (auto simp: tcp_listener_new_def Let_def split: option.splits)
  next
    case (Fd_error e)
    with c destroy_new [OF none(1,2)] none(3) show ?thesis by (auto simp: tcp_listener_new_def)
  qed
qed (auto simp: owned_destroy destroy_domain)

interpretation pipes: device_scope "make_pipe a 4 5" "\<lambda>w. device_destroy 4 (device_destroy 5 w)" "{4, 5}" "pipe_fds a" for a
proof
  fix L D rest w r w'
  assume w: "ready L D (pipe_fds a @ rest) w" and new: "D \<inter> {4, 5} = {}" and c: "make_pipe a 4 5 w = (r, w')"
  show "case r of Inl _ \<Rightarrow> owned w' L \<and> dom (dv_fd w') = D | Inr _ \<Rightarrow> ready L (D \<union> {4, 5}) rest w'"
  proof (cases a)
    case (Inr fds)
    obtain fd0 fd1 where fds: "fds = (fd0, fd1)" by fastforce
    have "ready L (insert 4 D) (fd1 # rest) (set_fd 4 fd0 (sys_open fd0 w))"
      using ready_open [of L D fd0 "fd1 # rest" w 4] w new Inr fds by (simp add: pipe_fds_def)
    then have "ready L (insert 5 (insert 4 D)) rest (set_fd 5 fd1 (sys_open fd1 (set_fd 4 fd0 (sys_open fd0 w))))"
      using ready_open [of L "insert 4 D" fd1 rest "set_fd 4 fd0 (sys_open fd0 w)" 5] new by simp
    moreover have "set_fd 5 fd1 (sys_open fd1 (set_fd 4 fd0 (sys_open fd0 w))) = w'" "r = Inr ()"
      using c Inr fds by (auto simp: make_pipe_def device_from_fd_def set_fd_def sys_open_def)
    moreover have "insert 5 (insert 4 D) = D \<union> {4, 5}" by auto
    ultimately show ?thesis by simp
  qed (use c w in \<open>auto simp: make_pipe_def ready_def\<close>)
qed (auto simp: owned_destroy destroy_domain)

text \<open>A predicate that holds behind the first action and that the rest keeps.\<close>

lemma andthen_holds: "I (snd (m s)) \<Longrightarrow> keeps I n \<Longrightarrow> I (snd (andthen m n s))"
  by (cases "m s") (auto simp: andthen_def bind_def keeps_def split: sum.splits)

lemma catching_holds: "I (snd (m s)) \<Longrightarrow> (\<And>x. keeps I (f x)) \<Longrightarrow> I (snd (catching m f s))"
  by (cases "m s") (auto simp: catching_def keeps_def split: sum.splits)

text \<open>The configuration opens the descriptor of the signals and no other.\<close>

lemma configure_devices:
  assumes "server_configure a config 0 1 s = (r, s')" and "st_handlers s = []"
  shows "st_devices s' = st_devices s \<or> (\<exists>fd. sa_signalfd a = New_fd fd \<and> st_devices s' = set_fd 0 fd (sys_open fd (st_devices s)))"
proof -
  let ?I = "\<lambda>t. st_devices t = st_devices s \<or> (\<exists>fd. sa_signalfd a = New_fd fd \<and> st_devices t = set_fd 0 fd (sys_open fd (st_devices s)))"
  have rest: "keeps ?I (start_listener a config)" "keeps ?I (add_main_device x i)" "keeps ?I (create_services config)" for x i
    unfolding start_listener_def add_main_device_def create_services_def
    by (auto intro!: keeps_intros simp: keeps_def modify_def split: sum.splits)
  have signals: "?I (snd (configure_signals a 0 s))"
    unfolding stop_handlers [OF assms(2)]
    by (auto simp: start_signals_def start_signal_device_def signal_create_fd_def split: option.splits fd_answer.splits)
  let ?later = "andthen (start_listener a config) (andthen (configure_main_epoll a 0 1) (andthen (create_services config) (ret True)))"
  have later: "keeps ?I ?later"
    unfolding configure_main_epoll_def by (intro keeps_intros rest)
  have "keeps ?I (if is_system_error x then ret False else raise x)" for x by (simp add: keeps_ret keeps_raise)
  from catching_holds [of ?I, of "andthen (configure_signals a 0) ?later" s,
      OF andthen_holds [of ?I "configure_signals a 0" s, OF signals later] this]
  have "?I (snd (server_configure a config 0 1 s))" unfolding server_configure_def .
  with assms(1) show ?thesis by simp
qed

lemma launch_tidy:
  assumes "0 \<in> D"
  shows "tidy D (answer_fds (sa_signalfd a)) (launch_and_leave e a turns s)"
  unfolding tidy_def
proof (intro allI impI)
  fix L and p q :: process and r
  let ?w = "ps_devices p"
  assume p: "ready L D (answer_fds (sa_signalfd a)) ?w" and q: "launch_and_leave e a turns s p = Some (r, q)"
  obtain c st where c: "server_configure a (srv_config s) 0 1 (new_startup ?w) = (c, st)" by fastforce
  have "ps_devices q = st_devices st"
    using q c by (auto simp: launch_and_leave_def Let_def leave_def split: sum.splits prod.splits if_splits)
  with configure_devices [OF c] consider "ps_devices q = ?w"
    | fd where "sa_signalfd a = New_fd fd" "ps_devices q = set_fd 0 fd (sys_open fd ?w)"
    by (auto simp: new_startup_def)
  then show "owned (ps_devices q) L \<and> dom (dv_fd (ps_devices q)) = D"
  proof cases
    case 1
    with p show ?thesis by (simp add: ready_def)
  next
    case 2
    have w: "owned ?w L" "fd \<ge> 0" "fd \<notin> dv_open ?w" "valid_fd 0 ?w = {}" "dom (dv_fd ?w) = D"
      using p 2(1) by (auto simp: ready_def answer_fds_def fresh_fd_def valid_fd_def)
    moreover have "dom (dv_fd (set_fd 0 fd (sys_open fd ?w))) = D" using w(5) assms by (auto simp: set_fd_def sys_open_def)
    ultimately show ?thesis using owned_new [OF w(1-3), of 0] 2(2) by simp
  qed
qed

lemma supervisor_tidy:
  assumes "tidy (D \<union> {3} \<union> {4, 5}) fds body" and "D \<inter> {3} = {}" and "D \<inter> {4, 5} = {}"
  shows "tidy D (answer_fds (pa_service_epoll a) @ pipe_fds (pa_pipe a) @ fds) (with_supervisor a body)"
proof -
  have "tidy (D \<union> {3} \<union> {4, 5}) fds (\<lambda>p. case epoll_ctl (pa_ctl_pipe a) (get_fd 4 (ps_devices p)) ev_in [] of
      Inl x \<Rightarrow> Some (Inl x, p) | Inr _ \<Rightarrow> body p)" (is "tidy _ _ ?m")
  proof (rule tidyI)
    fix L p r q
    assume p: "ready L (D \<union> {3} \<union> {4, 5}) fds (ps_devices p)" and q: "?m p = Some (r, q)"
    then have "q = p \<or> body p = Some (r, q)" by (auto split: sum.splits)
    with tidyD [OF assms(1) p] p show "owned (ps_devices q) L \<and> dom (dv_fd (ps_devices q)) = D \<union> {3} \<union> {4, 5}"
      by (auto simp only: ready_def)
  qed
  from pipes.scoped_tidy [OF _ this, of "pa_pipe a"] assms(3)
  have "tidy (D \<union> {Suc 2}) (pipe_fds (pa_pipe a) @ fds) (scoped (make_pipe (pa_pipe a) 4 5) (\<lambda>w. device_destroy 4 (device_destroy 5 w))
      (\<lambda>p. case epoll_ctl (pa_ctl_pipe a) (get_fd 4 (ps_devices p)) ev_in [] of Inl x \<Rightarrow> Some (Inl x, p) | Inr _ \<Rightarrow> body p))"
    by auto
  from epolls.scoped_tidy [OF _ this, of "pa_service_epoll a"] assms(2) show ?thesis
    unfolding with_supervisor_def by simp
qed

lemma server_tidy:
  assumes "\<And>s. tidy {0, 1, 2, 3, 4, 5} (answer_fds (sa_signalfd (pa_start a))) (body s)"
  shows "tidy {} (process_fds a) (with_server toml_parse a root config body)"
proof -
  have all: "({} :: nat set) \<union> {0} \<union> {Suc 0} \<union> {Suc 1} \<union> {3} \<union> {4, 5} = {0, 1, 2, 3, 4, 5}" by auto
  let ?body = "\<lambda>w q. body (new_server config w (get_fd 4 (ps_devices q))) q"
  have "tidy (({} :: nat set) \<union> {0} \<union> {Suc 0} \<union> {Suc 1} \<union> {3} \<union> {4, 5}) (answer_fds (sa_signalfd (pa_start a))) (?body w)" for w
    unfolding all by (rule tidyI) (rule tidyD [OF assms])
  from supervisor_tidy [OF this, of a]
  have "tidy ({} \<union> {0} \<union> {Suc 0} \<union> {Suc 1}) (answer_fds (pa_service_epoll a) @ pipe_fds (pa_pipe a) @ answer_fds (sa_signalfd (pa_start a)))
      (with_supervisor a (?body w))" for w by simp
  from signals.scoped_tidy [OF _ listeners.scoped_tidy [OF _ epolls.scoped_tidy [OF _ this, of "pa_epoll a"], of "pa_socket a" "pa_socket_option a"]]
  have "tidy {} (process_fds a) (scoped (\<lambda>w. (Inr (), device_new 0 w)) (device_destroy 0)
      (scoped (tcp_listener_new (pa_socket a) (pa_socket_option a) 1) (device_destroy 1)
      (scoped (epoll_device_new (pa_epoll a) 2) (device_destroy 2) (with_supervisor a (?body w)))))" for w
    by (simp add: process_fds_def numeral_2_eq_2)
  note members = tidyD [OF this]
  show ?thesis
  proof (rule tidyI)
    fix L p r q
    assume p: "ready L {} (process_fds a) (ps_devices p)" and q: "with_server toml_parse a root config body p = Some (r, q)"
    show "owned (ps_devices q) L \<and> dom (dv_fd (ps_devices q)) = {}"
    proof (cases "construct_server_context toml_parse root (cfg_upload_max_size config) (t_disk (ps_console p))")
      case (Inl x)
      with q have "q = p" by (simp add: with_server_def)
      with p show ?thesis by (simp add: ready_def)
    next
      case (Inr sc)
      with members [OF p] q show ?thesis by (simp add: with_server_def)
    qed
  qed
qed

section \<open>Outcome\<close>

text \<open>The calls of the configuration that have to succeed.\<close>

definition starts :: "start_answers \<Rightarrow> bool" where
  "starts a \<longleftrightarrow> sa_sigprocmask a = None \<and> (\<exists>k. sa_signalfd a = New_fd k) \<and> sa_bind a = None \<and> sa_listen a = None \<and>
     sa_ctl_signal a = None \<and> sa_ctl_listener a = None"

definition left_clean :: "console \<Rightarrow> server \<Rightarrow> bool" where
  "left_clean c s \<longleftrightarrow> sv_pool (srv_supervisor s) = [] \<and> world_ok (sv_world (srv_supervisor s)) \<and>
     auth_objects (w_heap (sv_world (srv_supervisor s))) = Map.empty \<and> t_disk c = w_disk (sv_world (srv_supervisor s))"

definition outcome ::
    "start_answers \<Rightarrow> (service_event list \<times> (nat + main_event list)) list \<Rightarrow> console \<Rightarrow> exn + unit \<Rightarrow> console \<Rightarrow> server option \<Rightarrow> bool" where
  "outcome a turns c r c' sv \<longleftrightarrow> (t_echo c \<longrightarrow> t_echo c') \<and>
     (case sv of
        None \<Rightarrow> r \<noteq> Inr () \<and> c' = c
      | Some s \<Rightarrow> left_clean c' s \<and>
          (case r of
             Inl x \<Rightarrow> starts a \<and> list_ex (\<lambda>b. turn_raises (snd b) x) turns
           | Inr _ \<Rightarrow> starts a \<longrightarrow> list_ex (\<lambda>b. turn_stops (snd b)) turns))"

text \<open>An action that ends with this outcome, or still runs because no stop signal came.\<close>

definition ends_so ::
    "start_answers \<Rightarrow> (service_event list \<times> (nat + main_event list)) list \<Rightarrow> console \<Rightarrow> unit proc \<Rightarrow> bool" where
  "ends_so a turns c m \<longleftrightarrow> (\<forall>p. ps_console p = c \<longrightarrow> ps_server p = None \<longrightarrow>
     (case m p of
        None \<Rightarrow> starts a \<and> \<not> list_ex (\<lambda>b. turn_stops (snd b)) turns
      | Some (r, q) \<Rightarrow> outcome a turns c r (ps_console q) (ps_server q)))"

lemma ends_soD:
  "ends_so a turns c m \<Longrightarrow> ps_console p = c \<Longrightarrow> ps_server p = None \<Longrightarrow>
     (case m p of
        None \<Rightarrow> starts a \<and> \<not> list_ex (\<lambda>b. turn_stops (snd b)) turns
      | Some (r, q) \<Rightarrow> outcome a turns c r (ps_console q) (ps_server q))"
  by (simp add: ends_so_def)

lemma outcome_thrown: "outcome a turns c (Inl x) c None"
  by (simp add: outcome_def)

lemma ends_so_scoped:
  assumes "ends_so a turns c body"
  shows "ends_so a turns c (scoped construct destroy body)"
  unfolding ends_so_def
proof (intro allI impI)
  fix p :: process
  assume p: "ps_console p = c" "ps_server p = None"
  obtain k w where k: "construct (ps_devices p) = (k, w)" by fastforce
  have "case body (p\<lparr>ps_devices := w\<rparr>) of None \<Rightarrow> starts a \<and> \<not> list_ex (\<lambda>b. turn_stops (snd b)) turns
      | Some (r, q) \<Rightarrow> outcome a turns c r (ps_console q) (ps_server q)"
    using ends_soD [OF assms, of "p\<lparr>ps_devices := w\<rparr>"] p by simp
  with k p outcome_thrown show "case scoped construct destroy body p of None \<Rightarrow> starts a \<and> \<not> list_ex (\<lambda>b. turn_stops (snd b)) turns
      | Some (r, q) \<Rightarrow> outcome a turns c r (ps_console q) (ps_server q)"
    by (cases k) (auto simp: scoped_def split: option.splits)
qed

lemma leave_simps:
  "ps_server (leave s p) = Some (server_destroy s)" "t_echo (ps_console (leave s p)) = t_echo (ps_console p)"
  "server_ok s \<Longrightarrow> left_clean (ps_console (leave s p)) (server_destroy s)"
  using destroy_clean [of s] by (simp_all add: leave_def Let_def left_clean_def)

lemma launch_ends:
  assumes "server_ok s" and "srv_running s" and "config_ok (srv_config s)"
  shows "ends_so (pa_start a) turns c (launch_and_leave e (pa_start a) turns s)"
  unfolding ends_so_def
proof (intro allI impI)
  fix p :: process
  assume p: "ps_console p = c" "ps_server p = None"
  have "cfg_backlog (srv_config s) > 0" "st_handlers (new_startup (ps_devices p)) = []"
    using assms(3) by (simp_all add: config_ok_def new_startup_def)
  from server_configure_outcome [OF this, of "pa_start a" 0 1]
  obtain st where st: "server_configure (pa_start a) (srv_config s) 0 1 (new_startup (ps_devices p)) = (Inr (starts (pa_start a)), st)"
    unfolding starts_def by blast
  obtain r s' where run: "server_launch e (get_fd 4 (ps_devices p)) (starts (pa_start a)) turns s = (r, s')" by fastforce
  have ok: "server_ok s'" using run assms(1) main_loop_ok by (auto simp: server_launch_def split: if_splits)
  have result: "if starts (pa_start a) then
      (case r of Inl x \<Rightarrow> list_ex (\<lambda>b. turn_raises (snd b) x) turns | Inr going \<Rightarrow> going = (\<not> list_ex (\<lambda>b. turn_stops (snd b)) turns))
      else r = Inr False"
    using run main_loop_result [of e "get_fd 4 (ps_devices p)" turns s r s', OF _ assms(2)]
    by (cases r) (auto simp: server_launch_def split: if_splits)
  show "case launch_and_leave e (pa_start a) turns s p of None \<Rightarrow> starts (pa_start a) \<and> \<not> list_ex (\<lambda>b. turn_stops (snd b)) turns
      | Some (r, q) \<Rightarrow> outcome (pa_start a) turns c r (ps_console q) (ps_server q)"
    using p st run result leave_simps(3) [OF ok]
    by (cases r) (auto simp: launch_and_leave_def outcome_def Let_def leave_simps(1,2) split: if_splits)
qed

lemma launch_server_tidy: "tidy {} (process_fds a) (launch_server h mtime a turns root config)"
  unfolding launch_server_def by (intro server_tidy launch_tidy) simp

lemma initial_world_ok:
  assumes "construct_server_context toml_parse root n d = Inr sc" and "is_absolute root"
    and "wf_node (tree d)" and "obs (tree d) [] = Some Directory"
  shows "world_ok \<lparr>w_server = sc, w_heap = empty_heap, w_disk = d\<rparr>"
  using assms by (auto simp: construct_server_context_def Let_def world_ok_def empty_heap_def heap_fresh_def sessions_ok_def
      locks_ok_def split: sum.splits)

lemma server_ends:
  assumes "is_absolute root" and "wf_node (tree (t_disk c))" and "obs (tree (t_disk c)) [] = Some Directory" and "config_ok config"
  shows "ends_so (pa_start a) turns c (launch_server h mtime a turns root config)"
proof -
  let ?launch = "\<lambda>w q. launch_and_leave (host_env h mtime) (pa_start a) turns (new_server config w (get_fd 4 (ps_devices q))) q"
  have body: "ends_so (pa_start a) turns c (with_supervisor a (?launch w))"
    if "world_ok w" "auth_objects (w_heap w) = Map.empty" for w
  proof -
    have launch: "ends_so (pa_start a) turns c (launch_and_leave (host_env h mtime) (pa_start a) turns (new_server config w fd))" for fd
      using new_server_ok [OF that] assms(4) by (intro launch_ends) (simp_all add: new_server_def)
    have "ends_so (pa_start a) turns c (\<lambda>p. case epoll_ctl (pa_ctl_pipe a) (get_fd 4 (ps_devices p)) ev_in [] of
        Inl x \<Rightarrow> Some (Inl x, p) | Inr _ \<Rightarrow> ?launch w p)"
      unfolding ends_so_def using ends_soD [OF launch] outcome_thrown by (auto split: sum.splits)
    then show ?thesis unfolding with_supervisor_def by (intro ends_so_scoped)
  qed
  show ?thesis
    unfolding ends_so_def
  proof (intro allI impI)
    fix p :: process
    assume p: "ps_console p = c" "ps_server p = None"
    show "case launch_server h mtime a turns root config p of None \<Rightarrow> starts (pa_start a) \<and> \<not> list_ex (\<lambda>b. turn_stops (snd b)) turns
        | Some (r, q) \<Rightarrow> outcome (pa_start a) turns c r (ps_console q) (ps_server q)"
    proof (cases "construct_server_context (h_toml_parse h) root (cfg_upload_max_size config) (t_disk c)")
      case (Inl x)
      with p outcome_thrown show ?thesis by (simp add: launch_server_def with_server_def)
    next
      case (Inr sc)
      let ?w = "\<lparr>w_server = sc, w_heap = empty_heap, w_disk = t_disk c\<rparr>"
      have "ends_so (pa_start a) turns c (with_supervisor a (?launch ?w))"
        using initial_world_ok [OF Inr assms(1-3)] by (intro body) (simp_all add: empty_heap_def)
      from ends_soD [OF ends_so_scoped [OF ends_so_scoped [OF ends_so_scoped [OF this]]] p] Inr p show ?thesis
        by (simp add: launch_server_def with_server_def)
    qed
  qed
qed

text \<open>When every constructor succeeds, there is a server.\<close>

definition reaches :: "unit proc \<Rightarrow> bool" where
  "reaches m \<longleftrightarrow> (\<forall>p r q. m p = Some (r, q) \<longrightarrow> ps_server q \<noteq> None)"

lemma reaches_scoped:
  assumes "\<And>w. \<exists>w'. construct w = (Inr (), w')" and "reaches body"
  shows "reaches (scoped construct destroy body)"
  unfolding reaches_def
proof (intro allI impI)
  fix p r q
  assume q: "scoped construct destroy body p = Some (r, q)"
  obtain w where w: "construct (ps_devices p) = (Inr (), w)" using assms(1) by blast
  with q obtain q' where "body (p\<lparr>ps_devices := w\<rparr>) = Some (r, q')" "ps_server q = ps_server q'" by (auto simp: scoped_def)
  with assms(2) show "ps_server q \<noteq> None" by (simp add: reaches_def)
qed

lemma reaches_server:
  assumes "construct_server_context (h_toml_parse h) root (cfg_upload_max_size config) (t_disk (ps_console p)) = Inr sc"
    and "launch_server h mtime a turns root config p = Some (r, q)"
    and "pa_socket a = New_fd k" and "pa_socket_option a = None" and "pa_epoll a = New_fd l" and "pa_service_epoll a = New_fd m"
    and "pa_pipe a = Inr fds" and "pa_ctl_pipe a = None"
  shows "ps_server q \<noteq> None"
proof -
  obtain fd0 fd1 where fds: "fds = (fd0, fd1)" by fastforce
  let ?w = "\<lparr>w_server = sc, w_heap = empty_heap, w_disk = t_disk (ps_console p)\<rparr>"
  let ?launch = "\<lambda>q. launch_and_leave (host_env h mtime) (pa_start a) turns (new_server config ?w (get_fd 4 (ps_devices q))) q"
  have "reaches (\<lambda>p. case epoll_ctl (pa_ctl_pipe a) (get_fd 4 (ps_devices p)) ev_in [] of Inl x \<Rightarrow> Some (Inl x, p) | Inr _ \<Rightarrow> ?launch p)"
    using assms(8) by (auto simp: reaches_def epoll_ctl_def launch_and_leave_def Let_def leave_simps(1) split: prod.splits sum.splits if_splits)
  then have "reaches (scoped (\<lambda>w. (Inr (), device_new 0 w)) (device_destroy 0)
      (scoped (tcp_listener_new (pa_socket a) (pa_socket_option a) 1) (device_destroy 1)
      (scoped (epoll_device_new (pa_epoll a) 2) (device_destroy 2) (with_supervisor a ?launch))))"
    unfolding with_supervisor_def
    by (intro reaches_scoped) (simp_all add: assms(3-7) fds tcp_listener_new_def epoll_device_new_def make_pipe_def Let_def)
  with assms(2) show ?thesis by (auto simp: launch_server_def with_server_def assms(1) reaches_def)
qed

section \<open>The command run\<close>

text \<open>What \<open>tds run\<close> launches has an absolute root and a valid configuration; nothing has changed.\<close>

abbreviation rooted :: "run_options \<Rightarrow> bool" where
  "rooted opts \<equiv> (case ro_config_directory opts of None \<Rightarrow> True | Some root \<Rightarrow> is_absolute root)"

lemma parse_directory_run:
  assumes "parse_config_directory_path arg opts t = (r, t')"
  shows "t' = t \<and> (case r of Inl e \<Rightarrow> True | Inr opts' \<Rightarrow> rooted opts')"
proof (cases "resolve (t_disk t) arg")
  case (Inr l)
  with assms show ?thesis
    by (auto simp: parse_config_directory_path_def action_defs Let_def cli_errno_def fs_canonical_def canonical_of_def is_absolute_def
        split: if_splits)
qed (use assms in \<open>auto simp: parse_config_directory_path_def action_defs Let_def cli_errno_def fs_canonical_def split: if_splits\<close>)

lemma parse_port_run:
  "parse_port arg opts t = (r, t') \<Longrightarrow> rooted opts \<Longrightarrow> t' = t \<and> (case r of Inl e \<Rightarrow> True | Inr opts' \<Rightarrow> rooted opts')"
  by (auto simp: parse_port_def action_defs split: option.splits if_splits)

lemma parse_run_run:
  "parse_run args opts t = (r, t') \<Longrightarrow> rooted opts \<Longrightarrow> t' = t \<and> (case r of Inl e \<Rightarrow> True | Inr opts' \<Rightarrow> rooted opts')"
proof (induction args opts arbitrary: t rule: parse_run.induct)
  case (2 a args opts)
  consider (port) "a = ''--port'' \<or> a = ''-p''" | (dir) "\<not> (a = ''--port'' \<or> a = ''-p'')" "a = ''--dir'' \<or> a = ''-d''"
    | (debug) "\<not> (a = ''--port'' \<or> a = ''-p'')" "\<not> (a = ''--dir'' \<or> a = ''-d'')" "a = ''--debug''"
    | (other) "\<not> (a = ''--port'' \<or> a = ''-p'')" "\<not> (a = ''--dir'' \<or> a = ''-d'')" "a \<noteq> ''--debug''" by blast
  then show ?case
  proof cases
    case port
    show ?thesis
    proof (cases args)
      case (Cons b rest)
      obtain r1 t1 where first: "parse_port b opts t = (r1, t1)" by fastforce
      with "2.prems" Cons port have "case r1 of Inl e \<Rightarrow> r = Inl e \<and> t' = t1 | Inr opts' \<Rightarrow> parse_run rest opts' t1 = (r, t')"
        by (cases r1) (auto simp: bind_def)
      with parse_port_run [OF first "2.prems"(2)] "2.IH"(1) [OF port Cons] show ?thesis by (cases r1) auto
    qed (use "2.prems" port in \<open>auto simp: raise_def\<close>)
  next
    case dir
    show ?thesis
    proof (cases args)
      case (Cons b rest)
      obtain r1 t1 where first: "parse_config_directory_path b opts t = (r1, t1)" by fastforce
      with "2.prems" Cons dir have "case r1 of Inl e \<Rightarrow> r = Inl e \<and> t' = t1 | Inr opts' \<Rightarrow> parse_run rest opts' t1 = (r, t')"
        by (cases r1) (auto simp: bind_def)
      with parse_directory_run [OF first] "2.IH"(2) [OF dir Cons] show ?thesis by (cases r1) auto
    qed (use "2.prems" dir in \<open>auto simp: raise_def\<close>)
  next
    case debug
    with "2.prems" "2.IH"(3) [OF debug(1,2)] show ?thesis by simp
  next
    case other
    with "2.prems" show ?thesis by (auto simp: raise_def)
  qed
qed (auto simp: ret_def)

lemma map_sum_Inr: "map_sum f id x = Inr y \<longleftrightarrow> x = Inr y"
  by (cases x) simp_all

lemma execute_run_run:
  assumes "execute_run h opts t = (r, t')" and "rooted opts" and "1 \<le> h_threads h"
  shows "t' = t \<and> (case r of Inl e \<Rightarrow> True | Inr (root, config) \<Rightarrow> is_absolute root \<and> config_ok config)"
proof -
  obtain r1 t1 where first: "prepare_config_directory opts t = (r1, t1)" by fastforce
  have ready: "t1 = t \<and> (case r1 of Inl e \<Rightarrow> True | Inr opts' \<Rightarrow> rooted opts')"
  proof (cases "ro_config_directory opts = None")
    case True
    with first have "parse_config_directory_path (current_path (t_disk t)) opts t = (r1, t1)"
      by (simp add: prepare_config_directory_def bind_def gets_def)
    then show ?thesis by (rule parse_directory_run)
  qed (use first assms(2) in \<open>auto simp: prepare_config_directory_def ret_def\<close>)
  have read: "t'' = t \<and> (case c of Inl e \<Rightarrow> True | Inr config \<Rightarrow> config_ok config)" if "read_run_config h root t = (c, t'')" for root c t''
    using that read_config_valid [OF assms(3)]
    by (auto simp: read_run_config_def action_defs std_sum_def map_sum_Inr split: sum.splits)
  have port: "t'' = t \<and> (case c of Inl e \<Rightarrow> True | Inr config' \<Rightarrow> config_ok config')"
    if "overwrite_port_if_possible o' config t = (c, t'')" "config_ok config" for o' config c t''
    using that by (auto simp: overwrite_port_if_possible_def action_defs std_sum_def set_port_def config_ok_def map_sum_Inr split: option.splits sum.splits if_splits)
  show ?thesis
    using assms(1) first ready
    by (auto simp: execute_run_def bind_def raise_def ret_def dest!: read port split: sum.splits option.splits prod.splits)
qed

lemma main_run:
  assumes "main_program h (''run'' # args) t = (code, launched, t')" and "1 \<le> h_threads h"
  shows "t' = t \<and> (case launched of None \<Rightarrow> code = 1 | Some (root, config) \<Rightarrow> is_absolute root \<and> config_ok config)"
proof -
  obtain r1 t1 where first: "parse_run args new_run_options t = (r1, t1)" by fastforce
  have ready: "t1 = t \<and> (case r1 of Inl e \<Rightarrow> True | Inr opts \<Rightarrow> rooted opts)"
    using parse_run_run [OF first] by (simp add: new_run_options_def)
  show ?thesis
  proof (cases r1)
    case (Inl e)
    with assms(1) first ready show ?thesis by (auto simp: main_program_def cli_command_def bind_def)
  next
    case (Inr opts)
    obtain r2 t2 where second: "execute_run h opts t = (r2, t2)" by fastforce
    with execute_run_run [OF second _ assms(2)] assms(1) first ready Inr show ?thesis
      by (cases r2) (auto simp: main_program_def cli_command_def bind_def ret_def)
  qed
qed

section \<open>Properties\<close>


text \<open>An instance with an empty user table, on a machine where the port may be in use.\<close>

definition tiny_instance :: process where
  "tiny_instance = \<lparr>ps_devices = \<lparr>dv_open = {0, 1, 2}, dv_fd = Map.empty\<rparr>,
     ps_console = \<lparr>t_in = [], t_out = [], t_echo = True,
       t_disk = \<lparr>tree = Dir [(''.tds'', Dir [(''config'', File []), (''users'', File [])])], working_dir = [], available = 0\<rparr>\<rparr>,
     ps_server = None\<rparr>"

definition tiny_host :: host where
  "tiny_host = sample_host\<lparr>h_toml_parse := (\<lambda>_. Some [(''server'', Toml_table []), (''users'', Toml_array [])])\<rparr>"

definition tiny_answers :: "nat option \<Rightarrow> process_answers" where
  "tiny_answers bind_answer = \<lparr>pa_socket = New_fd 3, pa_socket_option = None, pa_epoll = New_fd 4, pa_service_epoll = New_fd 5,
     pa_pipe = Inr (6, 7), pa_ctl_pipe = None,
     pa_start = \<lparr>sa_sigprocmask = None, sa_signalfd = New_fd 8, sa_bind = bind_answer, sa_listen = None,
       sa_ctl_signal = None, sa_ctl_listener = None\<rparr>\<rparr>"

lemma tiny_main:
  "main_program tiny_host [''run'', ''-d'', ''/''] (ps_console tiny_instance) = (0, Some (''/'', new_config 2), ps_console tiny_instance)"
proof -
  let ?d = "t_disk (ps_console tiny_instance)"
  have "resolve ?d ''/'' = Inr []" by code_simp
  moreover have "obs (tree ?d) [''.tds''] = Some Directory" "obs (tree ?d) [''.tds'', ''config''] = Some (Regular [])" "obs (tree ?d) [] = Some Directory"
    by (simp_all add: tiny_instance_def obs_def)
  ultimately have "cli_command tiny_host ''run'' [''-d'', ''/''] (ps_console tiny_instance) = (Inr (Some (canonical_of [], new_config 2)), ps_console tiny_instance)"
    by (intro run_reads_config [where d = ?d and l = "[]" and b = "[]" and tab = "[(''server'', Toml_table []), (''users'', Toml_array [])]"])
      (simp_all add: tiny_host_def sample_host_def read_config_def)
  then show ?thesis by (simp add: main_program_def canonical_of_def)
qed

lemma tiny_context:
  "construct_server_context (h_toml_parse tiny_host) ''/'' n (t_disk (ps_console tiny_instance)) =
     Inr \<lparr>m_root = ''/'', m_config_directory = ''/.tds'', m_upload_max_size = n, m_user_table = \<lparr>m_users_file = ''/.tds/users'', m_users = []\<rparr>,
       m_auth_tokens = [], m_path_locks = []\<rparr>"
proof -
  have "path_append ''/'' ''.tds'' = ''/.tds''" "path_append ''/.tds'' ''users'' = ''/.tds/users''" by code_simp+
  moreover have "read_file (t_disk (ps_console tiny_instance)) ''/.tds/users'' = Some []" by code_simp
  ultimately show ?thesis
    by (simp add: construct_server_context_def Let_def open_table_def fetch_table_def empty_table_def tiny_host_def sample_host_def)
qed


end
