(* ===== verification/Upload_Resume.thy ===== *)
theory Upload_Resume
  imports Transfers
begin

text \<open>
  An upload that a lost connection cut off, and its continuation: the backup that the destructor of
  the upload manager writes (\<open>upload_manager.cpp\<close>), the command \<open>ul\<close> with \<open>retry\<close>
  (\<open>execution/ul.cpp\<close>) that reads it, and the rest of the bytes.
\<close>

section \<open>Files beside other files\<close>

text \<open>Paths through directories that are still there lead to the same place.\<close>

definition keeps_dirs :: "disk \<Rightarrow> disk \<Rightarrow> bool" where
  "keeps_dirs d d' \<longleftrightarrow> working_dir d' = working_dir d \<and> available d' = available d \<and>
     (\<forall>k. obs (tree d) k = Some Directory \<longrightarrow> obs (tree d') k = Some Directory)"

lemma keeps_dirs_trans: "keeps_dirs d d' \<Longrightarrow> keeps_dirs d' d'' \<Longrightarrow> keeps_dirs d d''"
  by (simp add: keeps_dirs_def)

lemma resolve_parent_dirs:
  assumes "keeps_dirs d d'" and "resolve_parent d p = Inr l"
  shows "resolve_parent d' p = Inr l"
proof -
  have w: "p \<noteq> []" "walk (tree d) (start_dir d p) (butlast (strip_trailing (split_on sep p))) = Inr l"
    and dir: "obs (tree d) l = Some Directory"
    using assms(2) by (auto simp: resolve_parent_def split: if_splits sum.splits option.splits entry.splits)
  have "walk (tree d') (start_dir d p) (butlast (strip_trailing (split_on sep p))) = Inr l"
    using assms(1) by (intro walk_dirs_mono [OF _ w(2) dir]) (simp add: keeps_dirs_def)
  moreover have "start_dir d' p = start_dir d p" "obs (tree d') l = Some Directory"
    using assms(1) dir by (simp_all add: start_dir_def keeps_dirs_def)
  ultimately show ?thesis using w(1) by (simp add: resolve_parent_def)
qed

lemma is_directory_dirs:
  assumes "keeps_dirs d d'" and "fs_is_directory d p"
  shows "fs_is_directory d' p"
proof -
  obtain l es where l: "resolve d p = Inr l" "lookup (tree d) l = Some (Dir es)"
    using assms(2) by (auto simp: fs_is_directory_def node_at_def split: sum.splits option.splits node.splits)
  then have dir: "obs (tree d) l = Some Directory" by (simp add: obs_def)
  have w: "p \<noteq> []" "walk (tree d) (start_dir d p) (split_on sep p) = Inr l"
    using l(1) by (auto simp: resolve_def split: if_splits)
  have "walk (tree d') (start_dir d p) (split_on sep p) = Inr l"
    using assms(1) by (intro walk_dirs_mono [OF _ w(2) dir]) (simp add: keeps_dirs_def)
  moreover have "obs (tree d') l = Some Directory" using assms(1) dir by (simp add: keeps_dirs_def)
  ultimately show ?thesis using w(1) assms(1)
    by (auto simp: fs_is_directory_def node_at_def resolve_def start_dir_def keeps_dirs_def obs_Directory)
qed

lemma is_directory_exists: "fs_is_directory d p \<Longrightarrow> fs_exists d p"
  by (cases "node_at d p") (simp_all add: fs_is_directory_def fs_exists_def)

lemma opened_beside:
  assumes "keeps_dirs d d'" and "opened d p l c" and "obs (tree d') (l @ [last_component p]) = Some (Regular c')"
  shows "opened d' p l c'"
  using assms(2,3) resolve_parent_dirs [OF assms(1)] by (simp add: opened_def)

text \<open>A place for a file: its directory exists, and it is no directory itself.\<close>

definition file_place :: "disk \<Rightarrow> path \<Rightarrow> loc \<Rightarrow> bool" where
  "file_place d p l \<longleftrightarrow> resolve_parent d p = Inr l \<and> plain_name (last_component p) \<and> \<not> ends_in_sep p \<and>
     obs (tree d) (l @ [last_component p]) \<noteq> Some Directory"

lemma opened_place: "opened d p l c \<Longrightarrow> file_place d p l"
  by (simp add: opened_def file_place_def)

lemma obs_put_file:
  assumes "obs t l = Some Directory" and "obs t (l @ [n]) \<noteq> Some Directory"
  shows "obs (put_entry l n (File b) t) = (obs t)(l @ [n] \<mapsto> Regular b)"
proof (rule ext)
  fix x
  have "obs t x = None" if "prefix (l @ [n]) x" "x \<noteq> l @ [n]"
  proof (cases "obs t (l @ [n])")
    case None
    then show ?thesis using that(1) obs_prefix_closed by blast
  next
    case (Some y)
    with assms(2) obtain c where "y = Regular c" by (cases y) auto
    with Some that show ?thesis by (simp add: nothing_below_file)
  qed
  then show "obs (put_entry l n (File b) t) x = ((obs t)(l @ [n] \<mapsto> Regular b)) x"
    using obs_of_file [of l n x b] by (auto simp: obs_put_entry [OF assms(1)])
qed

lemma keeps_dirs_file:
  assumes "obs (tree d) f \<noteq> Some Directory" and "obs t = (obs (tree d))(f := y)"
  shows "keeps_dirs d (d\<lparr>tree := t\<rparr>)"
  using assms by (auto simp: keeps_dirs_def)

lemma open_trunc_run:
  assumes "file_place d p l"
  shows "\<exists>t. file_open_trunc d p = (Inr (), d\<lparr>tree := t\<rparr>) \<and> obs t = (obs (tree d))(l @ [last_component p] \<mapsto> Regular [])"
proof -
  have p: "resolve_parent d p = Inr l" "plain_name (last_component p)" "\<not> ends_in_sep p"
    "obs (tree d) (l @ [last_component p]) \<noteq> Some Directory" using assms by (simp_all add: file_place_def)
  note via = resolve_via_parent [OF p(2,3,1)]
  have "node_at d p \<noteq> Some (Dir es)" for es using via(1) p(4) by (auto simp: node_at_def obs_def)
  then show ?thesis using p obs_put_file [OF via(2) p(4), of "[]"]
    by (auto simp: file_open_trunc_def split: option.splits node.splits)
qed

lemma write_file_run:
  assumes "file_place d p l"
  shows "\<exists>d1 t. file_open_trunc d p = (Inr (), d1) \<and> file_append d1 p b = d\<lparr>tree := t\<rparr> \<and>
    obs t = (obs (tree d))(l @ [last_component p] \<mapsto> Regular b)"
proof -
  obtain t1 where t1: "file_open_trunc d p = (Inr (), d\<lparr>tree := t1\<rparr>)" "obs t1 = (obs (tree d))(l @ [last_component p] \<mapsto> Regular [])"
    using open_trunc_run [OF assms] by blast
  obtain l' where l': "opened (d\<lparr>tree := t1\<rparr>) p l' []" "resolve_parent d p = Inr l'" by (rule open_trunc_opened [OF t1(1)])
  have "l' = l" using l'(2) assms by (simp add: file_place_def)
  with l'(1) have op: "opened (d\<lparr>tree := t1\<rparr>) p l []" by simp
  let ?t = "put_entry l (last_component p) (File ([] @ b)) t1"
  have "file_append (d\<lparr>tree := t1\<rparr>) p b = d\<lparr>tree := ?t\<rparr>" using file_append_opened [OF op, of b] by simp
  moreover have "obs ?t = (obs (tree d))(l @ [last_component p] \<mapsto> Regular b)"
    using file_append_obs [OF op, of b] file_append_opened [OF op, of b] t1(2) by simp
  ultimately show ?thesis using t1(1) by blast
qed

lemma remove_file_run:
  assumes "opened d p l c"
  shows "\<exists>t. fs_remove d p = (Inr True, d\<lparr>tree := t\<rparr>) \<and> obs t = (obs (tree d))(l @ [last_component p] := None)"
proof -
  let ?f = "l @ [last_component p]"
  have p: "resolve_parent d p = Inr l" "plain_name (last_component p)" "\<not> ends_in_sep p" "obs (tree d) ?f = Some (Regular c)"
    using assms by (simp_all add: opened_def)
  note via = resolve_via_parent [OF p(2,3,1)]
  have res: "resolve d p = Inr ?f" using via(1) p(4) by simp
  have "obs (del_entry l (last_component p) (tree d)) = (obs (tree d))(?f := None)"
    using nothing_below_file [OF p(4)] by (auto simp: fun_eq_iff obs_del_entry [OF via(2)])
  then show ?thesis using res p(2) opened_lookup [OF assms]
    by (auto simp: fs_remove_def remove_path_def plain_name_def)
qed

section \<open>Backup and retry\<close>

lemma destroy_writes_backup:
  assumes "um_token m = Some i" and "lock_objects (w_heap w) i = Some (Upload_lock t)" and "file_place (w_disk w) (um_backup_file_name m) l"
  shows "\<exists>tr. w_disk (destroy_upload_manager w m) = (w_disk w)\<lparr>tree := tr\<rparr> \<and>
    obs tr = (obs (tree (w_disk w)))(l @ [last_component (um_backup_file_name m)] \<mapsto> Regular (backup_text t))"
proof -
  obtain d1 tr where "file_open_trunc (w_disk w) (um_backup_file_name m) = (Inr (), d1)"
    "file_append d1 (um_backup_file_name m) (backup_text t) = (w_disk w)\<lparr>tree := tr\<rparr>"
    "obs tr = (obs (tree (w_disk w)))(l @ [last_component (um_backup_file_name m)] \<mapsto> Regular (backup_text t))"
    using write_file_run [OF assms(3)] by blast
  then show ?thesis using assms(1,2)
    by (auto simp: destroy_upload_manager_def upload_has_finished_def create_backup_def upload_token_of_def Let_def world_simps
        intro!: exI [of _ tr])
qed

text \<open>What the TOML library has to make of a backup.\<close>

definition toml_reads_backup :: "toml_reader \<Rightarrow> UploadToken \<Rightarrow> bool" where
  "toml_reads_backup parse t \<longleftrightarrow>
     (case parse (backup_text t) of
        None \<Rightarrow> False
      | Some table \<Rightarrow>
          map_of table ''path'' = Some (Toml_string (ut_path t)) \<and>
          map_of table ''size'' = Some (Toml_integer (uint (ut_size t))) \<and>
          map_of table ''offset'' = Some (Toml_integer (uint (ut_offset t))))"

lemma allocate_lock_run:
  obtains i w' where "allocate_lock l w = (i, w')" "lock_objects (w_heap w') i = Some l" "w_disk w' = w_disk w"
    "auth_objects (w_heap w') = auth_objects (w_heap w)" "m_config_directory (w_server w') = m_config_directory (w_server w)"
proof -
  obtain i w' where "allocate_lock l w = (i, w')" by fastforce
  then show thesis using that
    by (auto simp: allocate_lock_def new_lock_def insert_path_lock_def remove_expired_path_locks_def world_simps
        set_path_locks_def)
qed

definition resumed_token :: "UploadToken \<Rightarrow> string \<Rightarrow> UploadToken" where
  "resumed_token t stem = \<lparr>ut_path = ut_path t, ut_destination_path = parent_path (ut_path t), ut_file_name = filename (ut_path t),
     ut_temporary_filename_stem = stem, ut_size = ut_size t, ut_offset = ut_offset t\<rparr>"

lemma retry_upload_run:
  assumes "get_auth_token s = (Inr a, s)" and "backup = get_backup_file_path (the_server s) (at_username a)"
    and "read_file (the_disk s) backup = Some (backup_text t)" and "toml_reads_backup (e_toml_parse e) t"
    and "fs_remove (the_disk s) backup = (Inr True, d)"
    and "upload_guard (set_disk d (ex_world s)) (ut_path t) (ut_size t) = Inr ()"
  shows "\<exists>i w'. retry_upload e s = (Inr i, s\<lparr>ex_world := w'\<rparr>) \<and> lock_objects (w_heap w') i = Some (Upload_lock (resumed_token t [])) \<and>
    w_disk w' = d \<and> auth_objects (w_heap w') = auth_objects (w_heap (ex_world s)) \<and>
    m_config_directory (w_server w') = m_config_directory (the_server s)"
proof -
  obtain table where table: "e_toml_parse e (backup_text t) = Some table" "map_of table ''path'' = Some (Toml_string (ut_path t))"
    "map_of table ''size'' = Some (Toml_integer (uint (ut_size t)))" "map_of table ''offset'' = Some (Toml_integer (uint (ut_offset t)))"
    using assms(4) by (auto simp: toml_reads_backup_def split: option.splits)
  let ?w = "set_disk d (ex_world s)"
  let ?new = "\<lparr>ut_path = ut_path t, ut_destination_path = parent_path (ut_path t), ut_file_name = filename (ut_path t),
    ut_temporary_filename_stem = [], ut_size = ut_size t, ut_offset = 0\<rparr>"
  obtain i w1 where i: "allocate_lock (Upload_lock ?new) ?w = (i, w1)" "lock_objects (w_heap w1) i = Some (Upload_lock ?new)"
    "w_disk w1 = w_disk ?w" "auth_objects (w_heap w1) = auth_objects (w_heap ?w)"
    "m_config_directory (w_server w1) = m_config_directory (w_server ?w)"
    by (rule allocate_lock_run)
  have up: "upload_file (ut_path t) (ut_size t) ?w = (Inr i, w1)"
    using assms(6) i(1) by (simp add: upload_file_run)
  let ?w' = "set_heap (set_lock i (Upload_lock (resumed_token t [])) (w_heap w1)) w1"
  have "retry_upload e s = (Inr i, s\<lparr>ex_world := ?w'\<rparr>)"
    using assms(1,3,5) table up i(2)
    by (simp add: retry_upload_def bind_def gets_def assms(2) on_disk_def the_disk_def with_world_def update_upload_def on_world_def
        add_file_offset_def resumed_token_def andthen_def on_heap_def)
  with i show ?thesis by (intro exI [of _ i] exI [of _ ?w']) (simp add: world_simps the_server_def)
qed

lemma execute_ul_resume:
  assumes "auth_token_of s = Some a" and "m_upload_token (ex_client s) = None"
    and "backup = get_backup_file_path (the_server s) (at_username a)"
    and "read_file (the_disk s) backup = Some (backup_text t)" and "toml_reads_backup (e_toml_parse e) t"
    and "fs_remove (the_disk s) backup = (Inr True, d)"
    and "upload_guard (set_disk d (ex_world s)) (ut_path t) (ut_size t) = Inr ()"
  shows "\<exists>i s'. execute_ul e n sz True rb s = (Inr (add_line (nat_to_string (unat (ut_offset t))) rb), s') \<and>
    m_upload_token (ex_client s') = Some i \<and> m_mode (ex_client s') = mode_upload \<and>
    lock_objects (w_heap (ex_world s')) i = Some (Upload_lock (resumed_token t (at_username a))) \<and>
    w_disk (ex_world s') = d \<and> m_config_directory (w_server (ex_world s')) = m_config_directory (the_server s)"
proof -
  have auth: "get_auth_token s = (Inr a, s)" using assms(1) by (simp add: get_auth_token_def)
  obtain i w' where i: "retry_upload e s = (Inr i, s\<lparr>ex_world := w'\<rparr>)" "lock_objects (w_heap w') i = Some (Upload_lock (resumed_token t []))"
    "w_disk w' = d" "auth_objects (w_heap w') = auth_objects (w_heap (ex_world s))"
    "m_config_directory (w_server w') = m_config_directory (the_server s)"
    using retry_upload_run [OF auth assms(3-7)] by blast
  have "get_auth_token (s\<lparr>ex_world := w'\<rparr>) = (Inr a, s\<lparr>ex_world := w'\<rparr>)"
    using assms(1) i(4) by (simp add: get_auth_token_def auth_token_of_def)
  then show ?thesis
    using i assms(2) by (simp add: execute_ul_def bind_def update_upload_def set_upload_token_def set_mode_def andthen_def on_heap_def
        on_world_def on_client_def free_lock_def world_simps resumed_token_def set_temporary_filename_stem_def set_heap_def set_lock_def)
qed

section \<open>Going on with the upload\<close>

lemma absent_file:
  assumes "file_place d p l" and "obs (tree d) (l @ [last_component p]) = None"
  shows "\<not> fs_exists d p"
  using assms resolve_via_parent(1) [of p d l] by (simp add: file_place_def fs_exists_def node_at_def)

lemma open_partial_run:
  assumes "opened d p l c" and "unat (ut_offset t) = length c"
  shows "\<exists>tr. open_partial t p d = (Inr (), d\<lparr>tree := tr\<rparr>) \<and> obs tr = obs (tree d)"
proof (cases "ut_offset t = 0")
  case True
  then have "c = []" using assms(2) by simp
  moreover have "obs (tree d) (l @ [last_component p]) = Some (Regular c)" using assms(1) by (simp add: opened_def)
  ultimately show ?thesis using open_trunc_run [OF opened_place [OF assms(1)]] True by (auto simp: open_partial_def fun_upd_idem)
next
  case False
  have "node_at d p = Some (File c)"
    using opened_lookup [OF assms(1)] resolve_via_parent(1) [of p d l] assms(1) by (simp add: opened_def node_at_def)
  with False show ?thesis by (auto simp: open_partial_def file_open_append_def intro!: exI [of _ "tree d"])
qed

lemma start_resumed:
  assumes "lock_objects (w_heap w) i = Some (Upload_lock t)" and "um_token m = None"
    and "p = get_partial_file_path (w_server w) (ut_temporary_filename_stem t)"
    and "opened (w_disk w) p l c" and "unat (ut_offset t) = length c"
    and "file_place (w_disk w) (get_backup_file_path (w_server w) (ut_temporary_filename_stem t)) l'"
    and "obs (tree (w_disk w)) (l' @ [last_component (get_backup_file_path (w_server w) (ut_temporary_filename_stem t))]) = None"
  shows "\<exists>d m'. start_upload i w m = (Inr (), set_disk d w, m') \<and> um_token m' = Some i \<and> um_partial_file_name m' = p \<and>
    opened d p l c \<and> obs (tree d) = obs (tree (w_disk w)) \<and> keeps_dirs (w_disk w) d"
proof -
  obtain tr where tr: "open_partial t p (w_disk w) = (Inr (), (w_disk w)\<lparr>tree := tr\<rparr>)" "obs tr = obs (tree (w_disk w))"
    using open_partial_run [OF assms(4,5)] by blast
  let ?d = "(w_disk w)\<lparr>tree := tr\<rparr>" and ?b = "get_backup_file_path (w_server w) (ut_temporary_filename_stem t)"
  have keep: "keeps_dirs (w_disk w) ?d" using tr(2) by (simp add: keeps_dirs_def)
  have op: "opened ?d p l c" using opened_beside [OF keep assms(4)] assms(4) tr(2) by (simp add: opened_def)
  have "file_place ?d ?b l'" using assms(6) resolve_parent_dirs [OF keep] tr(2) by (simp add: file_place_def)
  then have "\<not> fs_exists ?d ?b" using absent_file assms(7) tr(2) by simp
  then have "start_upload i w m = (Inr (), set_disk ?d w, m\<lparr>um_token := Some i, um_partial_file_name := p, um_backup_file_name := ?b\<rparr>)"
    using assms(1-3) tr(1) by (simp add: start_upload_def Let_def free_lock_def set_heap_def set_disk_def)
  with op keep tr(2) show ?thesis by auto
qed

section \<open>From the lost connection to the complete file\<close>

text \<open>
  An upload of the user \<open>u\<close> in progress: the bytes received so far are in the partial file, the
  backup can be written, and the requested place is free.
\<close>

definition uploading :: "world \<Rightarrow> UploadManager \<Rightarrow> UploadToken \<Rightarrow> string \<Rightarrow> loc \<Rightarrow> bytes \<Rightarrow> loc \<Rightarrow> bool" where
  "uploading w m t u l c k \<longleftrightarrow>
     (\<exists>i. um_token m = Some i \<and> lock_objects (w_heap w) i = Some (Upload_lock t)) \<and>
     um_partial_file_name m = get_partial_file_path (w_server w) u \<and> um_backup_file_name m = get_backup_file_path (w_server w) u \<and>
     m_config_directory (w_server w) \<noteq> [] \<and> sep \<notin> set u \<and>
     opened (w_disk w) (um_partial_file_name m) l c \<and> unat (ut_offset t) = length c \<and>
     file_place (w_disk w) (um_backup_file_name m) l \<and>
     vacant (w_disk w) (ut_path t) k \<and> k @ [last_component (ut_path t)] \<noteq> l @ [last_component (um_backup_file_name m)]"

text \<open>
  The same user on a new connection, with nothing but the backup written in between; the path,
  the size and the locks are such that an upload to the path is admitted.
\<close>

definition may_resume :: "env \<Rightarrow> exec \<Rightarrow> world \<Rightarrow> UploadManager \<Rightarrow> UploadToken \<Rightarrow> string \<Rightarrow> bool" where
  "may_resume e s w m t u \<longleftrightarrow>
     the_disk s = w_disk (destroy_upload_manager w m) \<and> m_config_directory (the_server s) = m_config_directory (w_server w) \<and>
     map_option at_username (auth_token_of s) = Some u \<and> m_upload_token (ex_client s) = None \<and>
     is_absolute (ut_path t) \<and> fs_is_directory (w_disk w) (parent_path (ut_path t)) \<and> fs_is_directory (w_disk w) (m_root (the_server s)) \<and>
     ut_size t \<le> m_upload_max_size (the_server s) \<and> ut_size t \<le> available (w_disk w) \<and>
     list_all (\<lambda>l. \<not> path_eq (get_locked_path l) (ut_path t)) (live_locks (ex_world s)) \<and>
     toml_reads_backup (e_toml_parse e) t"

lemma live_locks_disk [simp]: "live_locks (set_disk d w) = live_locks w"
  by (simp add: live_locks_def set_disk_def)

lemma backup_name_differs:
  assumes "m_config_directory sc \<noteq> []" and "sep \<notin> set u"
  shows "last_component (get_backup_file_path sc u) \<noteq> last_component (get_partial_file_path sc u)"
  using assms by (simp add: get_backup_file_path_def get_partial_file_path_def last_component_path_append)

text \<open>The disk when the command has taken the backup away.\<close>

lemma resume_disk:
  assumes "uploading w m t u l c k"
  obtains d where "fs_remove (w_disk (destroy_upload_manager w m)) (um_backup_file_name m) = (Inr True, d)"
    "read_file (w_disk (destroy_upload_manager w m)) (um_backup_file_name m) = Some (backup_text t)"
    "obs (tree d) = (obs (tree (w_disk w)))(l @ [last_component (um_backup_file_name m)] := None)" "keeps_dirs (w_disk w) d"
proof -
  let ?b = "um_backup_file_name m" and ?d1 = "w_disk (destroy_upload_manager w m)"
  let ?f = "l @ [last_component ?b]"
  obtain i where i: "um_token m = Some i" "lock_objects (w_heap w) i = Some (Upload_lock t)" and place: "file_place (w_disk w) ?b l"
    using assms by (auto simp: uploading_def)
  obtain tr where tr: "?d1 = (w_disk w)\<lparr>tree := tr\<rparr>" "obs tr = (obs (tree (w_disk w)))(?f \<mapsto> Regular (backup_text t))"
    using destroy_writes_backup [OF i place] by blast
  have f: "obs (tree (w_disk w)) ?f \<noteq> Some Directory" using place by (simp add: file_place_def)
  have keep1: "keeps_dirs (w_disk w) ?d1" unfolding tr(1) using keeps_dirs_file [OF f tr(2)] .
  have op: "opened ?d1 ?b l (backup_text t)"
    using place resolve_parent_dirs [OF keep1] tr by (simp add: opened_def file_place_def)
  obtain tr2 where tr2: "fs_remove ?d1 ?b = (Inr True, ?d1\<lparr>tree := tr2\<rparr>)" "obs tr2 = (obs (tree ?d1))(?f := None)"
    using remove_file_run [OF op] by blast
  have "obs (tree ?d1) ?f \<noteq> Some Directory" using tr by simp
  then have "keeps_dirs ?d1 (?d1\<lparr>tree := tr2\<rparr>)" using tr2(2) by (rule keeps_dirs_file)
  with keep1 have "keeps_dirs (w_disk w) (?d1\<lparr>tree := tr2\<rparr>)" by (rule keeps_dirs_trans)
  moreover have "obs tr2 = (obs (tree (w_disk w)))(?f := None)" using tr2(2) tr by simp
  ultimately show thesis using that [OF tr2(1) opened_read_file [OF op]] by simp
qed

lemma resume_admitted:
  assumes "uploading w m t u l c k" and "may_resume e s w m t u" and "keeps_dirs (w_disk w) d"
    and "obs (tree d) = (obs (tree (w_disk w)))(l @ [last_component (um_backup_file_name m)] := None)"
  shows "upload_guard (set_disk d (ex_world s)) (ut_path t) (ut_size t) = Inr ()" and "vacant d (ut_path t) k"
proof -
  have v: "vacant (w_disk w) (ut_path t) k" using assms(1) by (simp add: uploading_def)
  then show vac: "vacant d (ut_path t) k"
    using resolve_parent_dirs [OF assms(3)] assms(4) by (auto simp: vacant_def)
  then have "\<not> fs_exists d (ut_path t)" by (intro absent_file [of _ _ k]) (auto simp: vacant_def file_place_def)
  moreover have "fs_exists d (parent_path (ut_path t))" "fs_exists d (m_root (the_server s))" "available d = available (w_disk w)"
    using assms(2) is_directory_exists is_directory_dirs [OF assms(3)] assms(3) by (auto simp: may_resume_def keeps_dirs_def)
  ultimately show "upload_guard (set_disk d (ex_world s)) (ut_path t) (ut_size t) = Inr ()"
    using assms(2) by (simp add: upload_guard_Inr may_resume_def world_simps the_server_def list_all_iff)
qed

section \<open>Properties\<close>


definition broken_token :: UploadToken where
  "broken_token = \<lparr>ut_path = ''/srv/docs/b'', ut_destination_path = ''/srv/docs'', ut_file_name = ''b'',
     ut_temporary_filename_stem = ''7'', ut_size = 4, ut_offset = 1\<rparr>"

definition broken_manager :: UploadManager where
  "broken_manager = \<lparr>um_token = Some 1, um_partial_file_name = ''/srv/.tds/7.partial'', um_backup_file_name = ''/srv/.tds/7.upload''\<rparr>"

definition resuming_env :: env where
  "resuming_env = \<lparr>e_crypt = sample_crypt,
     e_toml_parse = (\<lambda>_. Some [(''path'', Toml_string ''/srv/docs/b''), (''size'', Toml_integer 4), (''offset'', Toml_integer 1)]),
     e_toml_print = (\<lambda>_. []), e_mtime = (\<lambda>_. None)\<rparr>"

definition resuming_session :: exec where
  "resuming_session = \<lparr>ex_world = (destroy_upload_manager sample_transfer_world broken_manager)
     \<lparr>w_heap := empty_heap\<lparr>auth_objects := [0 \<mapsto> \<lparr>at_username = ''7'', at_perms = perm_all\<rparr>]\<rparr>\<rparr>,
     ex_client = new_client_context\<lparr>m_auth_token := Some 0\<rparr>\<rparr>"

lemma broken_uploading: "uploading sample_transfer_world broken_manager broken_token ''7'' [''srv'', ''.tds''] ''x'' [''srv'', ''docs'']"
  by (simp add: uploading_def broken_manager_def broken_token_def file_place_def get_partial_file_path_def get_backup_file_path_def
      path_append_def is_absolute_def has_filename_def transfer_eval)

lemma destroy_keeps_server: "w_server (destroy_upload_manager w m) = w_server w"
  by (simp add: destroy_upload_manager_def create_backup_def Let_def world_simps split: option.splits prod.splits sum.splits)

lemma broken_may_resume: "may_resume resuming_env resuming_session sample_transfer_world broken_manager broken_token ''7''"
  unfolding may_resume_def
proof (intro conjI)
  show "the_disk resuming_session = w_disk (destroy_upload_manager sample_transfer_world broken_manager)"
    by (simp add: resuming_session_def the_disk_def)
  show "fs_is_directory (w_disk sample_transfer_world) (parent_path (ut_path broken_token))"
    "fs_is_directory (w_disk sample_transfer_world) (m_root (the_server resuming_session))"
    by (simp_all add: broken_token_def resuming_session_def the_server_def destroy_keeps_server fs_is_directory_def parent_path_def
        Let_def is_absolute_def transfer_eval)
  show "list_all (\<lambda>l. \<not> path_eq (get_locked_path l) (ut_path broken_token)) (live_locks (ex_world resuming_session))"
    by (simp add: resuming_session_def live_locks_def destroy_keeps_server sample_transfer_world_def sample_world_def)
  show "toml_reads_backup (e_toml_parse resuming_env) broken_token"
    by (simp add: toml_reads_backup_def resuming_env_def broken_token_def)
qed (simp_all add: resuming_session_def the_server_def destroy_keeps_server auth_token_of_def new_client_context_def broken_token_def
    is_absolute_def sample_transfer_world_def sample_world_def)


end
