(* ===== verification/Console_Connection.thy ===== *)
theory Console_Connection
  imports Responses User_Table
begin

text \<open>
  The console client's connection (\<open>src/cli/src/tdpservice/connection.cpp\<close>): connecting, the
  exchange of a request for a response, and the upload of a file. The answers of the kernel are
  inputs. An answer of \<open>epoll_wait\<close> says how each descriptor it reports is ready and what the
  calls made on it then return; as with epoll, an event is delivered when the descriptor is ready
  in the direction it is registered for. When the answers run out, the call has not returned:
  \<open>Waiting\<close>. \<open>Past_buffer\<close> marks a read outside a buffer, which has no defined value.
\<close>

section \<open>State\<close>

datatype client_exn =
    System_error nat string
  | Runtime_error string
  | Logic_error string
  | Waiting
  | Past_buffer

text \<open>\<open>Recv_bytes b n\<close>: the block read, and what the write of it to the local file returns.\<close>

datatype recv_answer = Recv_bytes bytes int | Recv_error nat

record sock_event =
  ev_own :: bool
  ev_writable :: bool
  ev_readable :: bool
  ev_writes :: "io_answer list"
  ev_reads :: "recv_answer list"
  ev_ctl :: nat

datatype wait_answer = Wait_failed nat | Wait_events "sock_event list"

text \<open>
  \<open>c_wire\<close> and \<open>c_input\<close> are the bytes that went over the socket, \<open>c_file\<close> those written to the
  local file, \<open>c_fds\<close> the descriptors the object has open. The fields \<open>x_\<close> are the variables of
  an exchange: the referenced message, the bytes still to read, and the position and flags.
\<close>

record Connection =
  isConnectionOpen :: bool
  c_interest_in :: bool
  c_wire :: bytes
  c_input :: bytes
  c_file :: bytes
  c_fds :: nat
  c_waits :: "wait_answer list"
  x_data :: string
  x_left :: u64
  x_pos :: nat
  x_got :: bool
  x_ready :: bool

type_synonym 'a conn = "(client_exn, Connection, 'a) action"

definition BUF_MAX_SIZE :: nat where "BUF_MAX_SIZE = 2048"

definition new_connection :: "wait_answer list \<Rightarrow> Connection" where
  "new_connection ws = \<lparr>isConnectionOpen = False, c_interest_in = False, c_wire = [], c_input = [], c_file = [], c_fds = 0,
     c_waits = ws, x_data = [], x_left = 0, x_pos = 0, x_got = False, x_ready = False\<rparr>"

section \<open>Connecting\<close>

text \<open>Only the socket is closed, and only when the connection was marked open.\<close>

definition closeConnection :: "unit conn" where
  "closeConnection = modify (\<lambda>c. if isConnectionOpen c then c\<lparr>isConnectionOpen := False, c_fds := c_fds c - 1\<rparr> else c)"

record connect_answers =
  ka_socket :: nat
  ka_epoll_create :: nat
  ka_epoll_add :: nat
  ka_connect :: nat
  ka_wait :: nat
  ka_getsockopt :: nat
  ka_so_error :: nat
  ka_epoll_mod :: nat

definition EINPROGRESS :: nat where "EINPROGRESS = 115"

text \<open>An answer of zero is success, another one the error number.\<close>

definition createSocket :: "connect_answers \<Rightarrow> unit conn" where
  "createSocket k =
     (if ka_socket k \<noteq> 0 then raise (System_error (ka_socket k) ''creating socket'')
      else andthen (modify (\<lambda>c. c\<lparr>c_fds := c_fds c + 1\<rparr>))
        (if ka_epoll_create k \<noteq> 0
         then andthen closeConnection (raise (System_error (ka_epoll_create k) ''creating epoll fd''))
         else andthen (modify (\<lambda>c. c\<lparr>c_fds := c_fds c + 1\<rparr>))
           (if ka_epoll_add k \<noteq> 0
            then andthen closeConnection (raise (System_error (ka_epoll_add k) ''epoll - add''))
            else modify (\<lambda>c. c\<lparr>c_interest_in := False\<rparr>))))"

definition checkIfConnectingSucceeded :: "connect_answers \<Rightarrow> bool" where
  "checkIfConnectingSucceeded k \<longleftrightarrow>
     ka_wait k = 0 \<and> ka_getsockopt k = 0 \<and> ka_so_error k = 0 \<and> ka_epoll_mod k = 0"

definition connectToServer :: "connect_answers \<Rightarrow> unit conn" where
  "connectToServer k =
     bind (gets isConnectionOpen) (\<lambda>already.
       if already then ret ()
       else andthen (createSocket k)
         (if ka_connect k \<noteq> 0 \<and>
             (ka_connect k \<noteq> EINPROGRESS \<and> ka_connect k \<noteq> EAGAIN \<or> \<not> checkIfConnectingSucceeded k)
          then andthen closeConnection (raise (System_error (ka_connect k) ''connecting to server''))
          else modify (\<lambda>c. c\<lparr>isConnectionOpen := True\<rparr>)))"

section \<open>Exchange\<close>

primrec send_loop :: "io_answer list \<Rightarrow> bool conn" where
  "send_loop [] c = (Inr (length (x_data c) = x_pos c), c)"
| "send_loop (a # as) c =
     (let len = length (x_data c) - x_pos c
      in if len = 0 then (Inr True, c)
         else case a of
           Io_error e \<Rightarrow> if e = EAGAIN then (Inr False, c) else (Inl (System_error e ''sending message''), c)
         | Transferred n \<Rightarrow>
             send_loop as (c\<lparr>c_wire := c_wire c @ take (min n len) (drop (x_pos c) (x_data c)), x_pos := x_pos c + min n len\<rparr>))"

text \<open>The subtraction of the position wraps around when the message is shorter.\<close>

definition sendToServer :: "io_answer list \<Rightarrow> bool conn" where
  "sendToServer as c = (if length (x_data c) < x_pos c then (Inl Past_buffer, c) else send_loop as c)"

text \<open>A block read from the socket; in a download it is counted and written to the file.\<close>

definition take_block :: "bool \<Rightarrow> bytes \<Rightarrow> int \<Rightarrow> Connection \<Rightarrow> Connection" where
  "take_block readFile buf n c =
     (let c1 = c\<lparr>c_input := c_input c @ buf\<rparr>
      in if readFile then c1\<lparr>x_left := x_left c - of_nat (length buf), c_file := c_file c @ take (nat n) buf\<rparr> else c1)"

text \<open>
  The blocks read are appended as C strings, so up to the first null byte. The loop ends when
  the socket would block.
\<close>

primrec read_loop :: "bool \<Rightarrow> recv_answer list \<Rightarrow> bool conn" where
  "read_loop readFile [] c = (Inr True, c)"
| "read_loop readFile (a # as) c =
     (case a of
        Recv_error e \<Rightarrow>
          if e = EAGAIN then (Inr True, c)
          else andthen closeConnection (raise (System_error e ''reading message'')) c
      | Recv_bytes b n \<Rightarrow>
          let buf = take (BUF_MAX_SIZE - 1) b
          in if buf = [] then andthen closeConnection (ret False) c
             else
               let c1 = take_block readFile buf n c
               in if readFile \<and> n \<noteq> int (length buf) then (Inr False, c1)
                  else read_loop readFile as (c1\<lparr>x_data := x_data c1 @ c_str buf\<rparr>))"

definition ends_with :: "string \<Rightarrow> string \<Rightarrow> bool" where
  "ends_with s w \<longleftrightarrow> length w \<le> length s \<and> drop (length s - length w) s = w"

definition receiveAllReadyFromServer :: "bool \<Rightarrow> recv_answer list \<Rightarrow> bool conn" where
  "receiveAllReadyFromServer readFile as =
     bind (read_loop readFile as) (\<lambda>go_on.
       if \<not> go_on then ret False
       else andthen (modify (\<lambda>c. c\<lparr>x_got := (if readFile then x_left c = 0 else ends_with (x_data c) [newline, newline])\<rparr>)) (ret True))"

definition changeEpollEvents :: "bool \<Rightarrow> nat \<Rightarrow> unit conn" where
  "changeEpollEvents readyForReading ctl =
     (if ctl \<noteq> 0 then andthen closeConnection (raise (System_error ctl ''epoll - add''))
      else modify (\<lambda>c. c\<lparr>c_interest_in := readyForReading\<rparr>))"

text \<open>One event; the direction reported was fixed when \<open>epoll_wait\<close> returned. False ends the exchange.\<close>

definition exchange_event :: "bool \<Rightarrow> bool \<Rightarrow> sock_event \<Rightarrow> bool conn" where
  "exchange_event downloadingFile interest_in ev =
     bind (if ev_own ev then
             if ev_writable ev \<and> \<not> interest_in then
               bind (sendToServer (ev_writes ev)) (\<lambda>sent.
                 if sent then andthen (modify (\<lambda>c. c\<lparr>x_ready := True, x_data := []\<rparr>)) (ret True) else ret True)
             else if ev_readable ev \<and> interest_in then
               bind (receiveAllReadyFromServer downloadingFile (ev_reads ev)) (\<lambda>go_on.
                 if \<not> go_on then ret False else andthen (modify (\<lambda>c. c\<lparr>x_ready := \<not> x_got c\<rparr>)) (ret True))
             else ret True
           else andthen closeConnection (raise (Runtime_error ''epoll - wrong event'')))
       (\<lambda>go_on. if \<not> go_on then ret False
                else bind (gets x_ready) (\<lambda>r. andthen (changeEpollEvents r (ev_ctl ev)) (ret True)))"

primrec exchange_events :: "bool \<Rightarrow> bool \<Rightarrow> sock_event list \<Rightarrow> bool conn" where
  "exchange_events downloadingFile interest_in [] = ret True"
| "exchange_events downloadingFile interest_in (ev # evs) =
     bind (exchange_event downloadingFile interest_in ev) (\<lambda>go_on.
       if go_on then exchange_events downloadingFile interest_in evs else ret False)"

primrec exchange_loop :: "bool \<Rightarrow> wait_answer list \<Rightarrow> bool conn" where
  "exchange_loop downloadingFile [] c = (if x_got c then (Inr True, c) else (Inl Waiting, c))"
| "exchange_loop downloadingFile (w # ws) c =
     (if x_got c then (Inr True, c)
      else
        let c1 = c\<lparr>c_waits := ws\<rparr>
        in case w of
             Wait_failed e \<Rightarrow> andthen closeConnection (raise (System_error e ''waiting on epoll'')) c1
           | Wait_events evs \<Rightarrow>
               (case exchange_events downloadingFile (c_interest_in c1) evs c1 of
                  (Inl e, c2) \<Rightarrow> (Inl e, c2)
                | (Inr go_on, c2) \<Rightarrow> if go_on then exchange_loop downloadingFile ws c2 else (Inr False, c2)))"

definition exchangeWithServer :: "string \<Rightarrow> u64 \<Rightarrow> bool \<Rightarrow> bool conn" where
  "exchangeWithServer data bytes_to_read downloadingFile c =
     (let c1 = c\<lparr>x_data := data, x_left := bytes_to_read, x_pos := 0, x_got := False, x_ready := False\<rparr>
      in if isConnectionOpen c1 then exchange_loop downloadingFile (c_waits c1) c1 else (Inr False, c1))"

section \<open>Upload\<close>

text \<open>
  \<open>sendfile\<close> moves at most the bytes asked for and those left in the file, and refuses a negative
  offset. Its result goes into
  an unsigned variable, so a failure is the number 2 to the 64 minus 1 and passes the test for
  success: the remaining size grows by one and the loop goes on.
\<close>

primrec sendfile_loop :: "bytes \<Rightarrow> io_answer list \<Rightarrow> int \<Rightarrow> u64 \<Rightarrow> bytes \<Rightarrow> u64 \<times> int \<times> bytes" where
  "sendfile_loop content [] offset remaining out = (remaining, offset, out)"
| "sendfile_loop content (a # as) offset remaining out =
     (if remaining = 0 then (remaining, offset, out)
      else case (if offset < 0 then Io_error (errno_value EINVAL) else a) of
        Io_error e \<Rightarrow> sendfile_loop content as offset (remaining - (- 1)) out
      | Transferred n \<Rightarrow>
          let k = min n (min (unat remaining) (length content - nat offset))
          in sendfile_loop content as (offset + int k) (remaining - of_nat k) (out @ take k (drop (nat offset) content)))"

text \<open>
  The loop over the events; a batch of answers that runs out inside the inner loop leaves the
  call waiting.
\<close>

primrec upload_events :: "bytes \<Rightarrow> sock_event list \<Rightarrow> int \<Rightarrow> u64 \<Rightarrow> (u64 \<times> int) conn" where
  "upload_events content [] offset remaining = ret (remaining, offset)"
| "upload_events content (ev # evs) offset remaining =
     (if \<not> ev_own ev then andthen closeConnection (raise (Runtime_error ''epoll - wrong event''))
      else bind (gets c_interest_in) (\<lambda>interest_in.
        if ev_writable ev \<and> \<not> interest_in then
          (case sendfile_loop content (ev_writes ev) offset remaining [] of
             (remaining', offset', out) \<Rightarrow>
               andthen (modify (\<lambda>c. c\<lparr>c_wire := c_wire c @ out\<rparr>))
                 (if remaining' = 0 then upload_events content evs offset' remaining' else raise Waiting))
        else upload_events content evs offset remaining))"

primrec upload_loop :: "bytes \<Rightarrow> wait_answer list \<Rightarrow> int \<Rightarrow> u64 \<Rightarrow> unit conn" where
  "upload_loop content [] offset remaining c = (if remaining = 0 then (Inr (), c) else (Inl Waiting, c))"
| "upload_loop content (w # ws) offset remaining c =
     (if remaining = 0 then (Inr (), c)
      else
        let c1 = c\<lparr>c_waits := ws\<rparr>
        in case w of
             Wait_failed e \<Rightarrow> andthen closeConnection (raise (System_error e ''waiting on epoll'')) c1
           | Wait_events evs \<Rightarrow>
               (case upload_events content evs offset remaining c1 of
                  (Inl e, c2) \<Rightarrow> (Inl e, c2)
                | (Inr (remaining', offset'), c2) \<Rightarrow> upload_loop content ws offset' remaining' c2))"

definition uploadFile :: "bytes \<Rightarrow> int \<Rightarrow> u64 \<Rightarrow> nat \<Rightarrow> bool conn" where
  "uploadFile content offset file_size ctl =
     bind (gets isConnectionOpen) (\<lambda>is_open.
       if is_open
       then andthen (\<lambda>c. upload_loop content (c_waits c) offset (file_size - of_int offset) c)
              (andthen (changeEpollEvents False ctl) (ret True))
       else andthen (changeEpollEvents False ctl) (ret False))"

section \<open>Phases of an exchange\<close>

text \<open>What was received so far: the blocks, as text and, in a download, in the file.\<close>

definition received :: "bool \<Rightarrow> Connection \<Rightarrow> u64 \<Rightarrow> Connection \<Rightarrow> bool" where
  "received f c0 left c \<longleftrightarrow> (\<exists>blocks. c_input c = c_input c0 @ concat blocks \<and> x_data c = concat (map c_str blocks) \<and>
     (if f then c_file c = c_file c0 @ concat blocks \<and> x_left c = left - of_nat (length (concat blocks))
      else c_file c = c_file c0))"

definition sending :: "string \<Rightarrow> Connection \<Rightarrow> u64 \<Rightarrow> Connection \<Rightarrow> bool" where
  "sending req c0 left c \<longleftrightarrow> isConnectionOpen c \<and> \<not> c_interest_in c \<and> \<not> x_ready c \<and> \<not> x_got c \<and> x_data c = req \<and>
     x_pos c \<le> length req \<and> c_wire c = c_wire c0 @ take (x_pos c) req \<and> c_input c = c_input c0 \<and>
     c_file c = c_file c0 \<and> x_left c = left"

definition receiving :: "bool \<Rightarrow> string \<Rightarrow> Connection \<Rightarrow> u64 \<Rightarrow> Connection \<Rightarrow> bool" where
  "receiving f req c0 left c \<longleftrightarrow> isConnectionOpen c \<and> c_interest_in c \<and> x_ready c \<and> \<not> x_got c \<and>
     c_wire c = c_wire c0 @ req \<and> received f c0 left c"

definition exchanged :: "bool \<Rightarrow> string \<Rightarrow> Connection \<Rightarrow> u64 \<Rightarrow> Connection \<Rightarrow> bool" where
  "exchanged f req c0 left c \<longleftrightarrow> isConnectionOpen c \<and> \<not> c_interest_in c \<and> x_got c \<and>
     c_wire c = c_wire c0 @ req \<and> received f c0 left c \<and>
     (if f then x_left c = 0 else ends_with (x_data c) [newline, newline])"

lemma received_edits [simp]:
  "received f c0 left (c\<lparr>x_ready := b\<rparr>) = received f c0 left c" "received f c0 left (c\<lparr>x_got := b\<rparr>) = received f c0 left c"
  "received f c0 left (c\<lparr>c_interest_in := b\<rparr>) = received f c0 left c"
  "received f c0 left (c\<lparr>c_waits := ws\<rparr>) = received f c0 left c"
  by (simp_all add: received_def)

lemma closing [simp]: "andthen closeConnection m c = m (snd (closeConnection c))"
  by (simp add: closeConnection_def action_defs)

lemma send_loop_spec:
  assumes "sending req c0 left c" and "send_loop as c = (r, c')"
  shows "sending req c0 left c' \<and> (r = Inr True \<longrightarrow> x_pos c' = length req) \<and> r \<noteq> Inl Past_buffer"
  using assms
proof (induction as arbitrary: c)
  case (Cons a as)
  let ?len = "length req - x_pos c"
  have data: "x_data c = req" "x_pos c \<le> length req" using Cons.prems(1) by (simp_all add: sending_def)
  show ?case
  proof (cases "?len = 0 \<or> (\<exists>e. a = Io_error e)")
    case True
    with Cons.prems data show ?thesis by (auto simp: Let_def split: if_splits)
  next
    case False
    then obtain n where a: "a = Transferred n" and pos: "?len \<noteq> 0" by (cases a) auto
    let ?c = "c\<lparr>c_wire := c_wire c @ take (min n ?len) (drop (x_pos c) req), x_pos := x_pos c + min n ?len\<rparr>"
    have "sending req c0 left ?c" using Cons.prems(1) by (auto simp: sending_def take_add)
    moreover have "send_loop as ?c = (r, c')" using Cons.prems(2) data a pos by (simp add: Let_def)
    ultimately show ?thesis by (rule Cons.IH)
  qed
qed (auto simp: sending_def)

lemma take_block_simps [simp]:
  "isConnectionOpen (take_block f buf n c) = isConnectionOpen c" "c_interest_in (take_block f buf n c) = c_interest_in c"
  "x_ready (take_block f buf n c) = x_ready c" "x_got (take_block f buf n c) = x_got c"
  "c_wire (take_block f buf n c) = c_wire c" "x_data (take_block f buf n c) = x_data c"
  by (simp_all add: take_block_def Let_def)

lemma received_block:
  assumes "received f c0 left c" and "\<not> f \<or> n = int (length buf)"
  shows "received f c0 left ((take_block f buf n c)\<lparr>x_data := x_data c @ c_str buf\<rparr>)"
proof -
  from assms(1) obtain blocks where "c_input c = c_input c0 @ concat blocks" "x_data c = concat (map c_str blocks)"
    "if f then c_file c = c_file c0 @ concat blocks \<and> x_left c = left - of_nat (length (concat blocks)) else c_file c = c_file c0"
    unfolding received_def by blast
  with assms(2) show ?thesis unfolding received_def
    by (intro exI [of _ "blocks @ [buf]"]) (auto simp: take_block_def algebra_simps)
qed

lemma read_loop_block:
  assumes "buf = take (BUF_MAX_SIZE - 1) b"
  shows "read_loop f (Recv_bytes b n # as) c =
    (if buf = [] then (Inr False, snd (closeConnection c))
     else if f \<and> n \<noteq> int (length buf) then (Inr False, take_block f buf n c)
     else read_loop f as ((take_block f buf n c)\<lparr>x_data := x_data c @ c_str buf\<rparr>))"
  unfolding assms by (simp only: read_loop.simps recv_answer.case Let_def closing ret_def take_block_simps)

lemma read_loop_spec:
  assumes "receiving f req c0 left c" and "read_loop f as c = (r, c')"
  shows "(r = Inr True \<longrightarrow> receiving f req c0 left c') \<and> r \<noteq> Inl Past_buffer \<and> r \<noteq> Inl Waiting"
  using assms
proof (induction as arbitrary: c)
  case (Cons a as)
  show ?case
  proof (cases a)
    case (Recv_error e)
    with Cons.prems show ?thesis by (auto simp: raise_def split: if_splits)
  next
    case (Recv_bytes b n)
    define buf where "buf = take (BUF_MAX_SIZE - 1) b"
    note step = read_loop_block [OF buf_def, of f n as c]
    consider "buf = []" | "buf \<noteq> []" "f \<and> n \<noteq> int (length buf)" | "buf \<noteq> []" "\<not> f \<or> n = int (length buf)" by auto
    then show ?thesis
    proof cases
      case 1
      with Cons.prems(2) Recv_bytes step show ?thesis by auto
    next
      case 2
      with Cons.prems(2) Recv_bytes step show ?thesis by auto
    next
      case 3
      let ?d = "(take_block f buf n c)\<lparr>x_data := x_data c @ c_str buf\<rparr>"
      have "read_loop f as ?d = (r, c')" using Cons.prems(2) Recv_bytes step 3 by auto
      moreover have "receiving f req c0 left ?d"
        using received_block [OF _ 3(2), of c0 left c] Cons.prems(1) unfolding receiving_def by simp
      ultimately show ?thesis using Cons.IH by blast
    qed
  qed
qed auto

lemma receive_spec:
  assumes "receiving f req c0 left c" and "receiveAllReadyFromServer f as c = (r, c')"
  shows "(r = Inr True \<longrightarrow> (\<exists>d. receiving f req c0 left d \<and>
      c' = d\<lparr>x_got := (if f then x_left d = 0 else ends_with (x_data d) [newline, newline])\<rparr>)) \<and> r \<noteq> Inl Past_buffer"
proof -
  obtain q d where q: "read_loop f as c = (q, d)" by fastforce
  from read_loop_spec [OF assms(1) q] assms(2) q show ?thesis
    by (cases q) (auto simp: receiveAllReadyFromServer_def bind_def andthen_def modify_def ret_def split: if_splits)
qed

abbreviation exchange_phase :: "bool \<Rightarrow> string \<Rightarrow> Connection \<Rightarrow> u64 \<Rightarrow> Connection \<Rightarrow> bool" where
  "exchange_phase f req c0 left c \<equiv> sending req c0 left c \<or> receiving f req c0 left c \<or> exchanged f req c0 left c"

lemma changeEpollEvents_spec:
  "changeEpollEvents b ctl c = (if ctl \<noteq> 0 then (Inl (System_error ctl ''epoll - add''), snd (closeConnection c))
     else (Inr (), c\<lparr>c_interest_in := b\<rparr>))"
  by (simp add: changeEpollEvents_def raise_def modify_def)

lemma exchange_event_sending:
  assumes "sending req c0 left c" and "exchange_event f (c_interest_in c) ev c = (r, c')"
  shows "r \<noteq> Inl Past_buffer \<and> (r = Inr True \<longrightarrow> exchange_phase f req c0 left c')"
proof -
  have c: "\<not> c_interest_in c" "\<not> length (x_data c) < x_pos c" "\<not> x_ready c" using assms(1) by (auto simp: sending_def)
  obtain q d where q: "send_loop (ev_writes ev) c = (q, d)" by fastforce
  note s = send_loop_spec [OF assms(1) q]
  have to_in: "receiving f req c0 left (d\<lparr>x_ready := True, x_data := [], c_interest_in := True\<rparr>)" if "q = Inr True"
    using s that by (auto simp: sending_def receiving_def received_def intro!: exI [of _ "[]"])
  have stay: "sending req c0 left (e\<lparr>c_interest_in := False\<rparr>)" if "sending req c0 left e" for e
    using that by (simp add: sending_def)
  have flag: "\<not> x_ready d" using s by (simp add: sending_def)
  show ?thesis
  proof (cases "ev_own ev \<and> ev_writable ev")
    case True
    then show ?thesis using assms(2) c q s to_in stay [of d] flag
      by (cases q) (auto simp: exchange_event_def sendToServer_def bind_def andthen_def modify_def ret_def gets_def
        changeEpollEvents_spec split: if_splits)
  next
    case False
    then show ?thesis using assms c stay [OF assms(1)]
      by (auto simp: exchange_event_def bind_def andthen_def gets_def ret_def raise_def changeEpollEvents_spec
          closeConnection_def modify_def split: if_splits)
  qed
qed

lemma exchange_event_receiving:
  assumes "receiving f req c0 left c" and "exchange_event f (c_interest_in c) ev c = (r, c')"
  shows "r \<noteq> Inl Past_buffer \<and> (r = Inr True \<longrightarrow> exchange_phase f req c0 left c')"
proof -
  have c: "c_interest_in c" "x_ready c" using assms(1) by (auto simp: receiving_def)
  have stay: "receiving f req c0 left (c\<lparr>c_interest_in := True\<rparr>)" using assms(1) by (simp add: receiving_def)
  obtain q e where q: "receiveAllReadyFromServer f (ev_reads ev) c = (q, e)" by fastforce
  note s = receive_spec [OF assms(1) q]
  have after: "exchange_phase f req c0 left (e\<lparr>x_ready := \<not> x_got e, c_interest_in := \<not> x_got e\<rparr>)" if "q = Inr True"
  proof -
    from s that obtain d where d: "receiving f req c0 left d"
      "e = d\<lparr>x_got := (if f then x_left d = 0 else ends_with (x_data d) [newline, newline])\<rparr>" by blast
    then show ?thesis by (cases "x_got e") (auto simp: receiving_def exchanged_def split: if_splits)
  qed
  show ?thesis
  proof (cases "ev_own ev \<and> ev_readable ev")
    case True
    then show ?thesis using assms(2) c q s after
      by (cases q) (auto simp: exchange_event_def bind_def andthen_def modify_def ret_def gets_def changeEpollEvents_spec
        split: if_splits)
  next
    case False
    then show ?thesis using assms c stay
      by (auto simp: exchange_event_def bind_def andthen_def gets_def ret_def raise_def changeEpollEvents_spec
          closeConnection_def modify_def split: if_splits)
  qed
qed

text \<open>One descriptor is registered, so a wait reports at most one event.\<close>

fun single_event :: "wait_answer \<Rightarrow> bool" where
  "single_event (Wait_events evs) \<longleftrightarrow> length evs \<le> 1"
| "single_event (Wait_failed e) \<longleftrightarrow> True"

lemma phase_edits [simp]:
  "sending req c0 left (c\<lparr>c_waits := ws\<rparr>) = sending req c0 left c"
  "receiving f req c0 left (c\<lparr>c_waits := ws\<rparr>) = receiving f req c0 left c"
  "exchanged f req c0 left (c\<lparr>c_waits := ws\<rparr>) = exchanged f req c0 left c"
  by (simp_all add: sending_def receiving_def exchanged_def)

lemma exchange_events_spec:
  assumes "sending req c0 left c \<or> receiving f req c0 left c" and "length evs \<le> 1"
    and "exchange_events f (c_interest_in c) evs c = (r, c')"
  shows "r \<noteq> Inl Past_buffer \<and> (r = Inr True \<longrightarrow> exchange_phase f req c0 left c')"
proof (cases evs)
  case (Cons ev rest)
  with assms(2) have evs: "evs = [ev]" by simp
  obtain q d where q: "exchange_event f (c_interest_in c) ev c = (q, d)" by fastforce
  have "q \<noteq> Inl Past_buffer \<and> (q = Inr True \<longrightarrow> exchange_phase f req c0 left d)"
    using assms(1) exchange_event_sending [OF _ q] exchange_event_receiving [OF _ q] by blast
  with assms(3) q evs show ?thesis by (cases q) (auto simp: bind_def ret_def split: if_splits)
qed (use assms in \<open>auto simp: ret_def\<close>)

lemma exchange_loop_spec:
  assumes "exchange_phase f req c0 left c" and "list_all single_event ws" and "exchange_loop f ws c = (r, c')"
  shows "r \<noteq> Inl Past_buffer \<and> (r = Inr True \<longrightarrow> exchanged f req c0 left c')"
  using assms
proof (induction ws arbitrary: c)
  case Nil
  then show ?case by (auto simp: sending_def receiving_def split: if_splits)
next
  case (Cons w ws)
  show ?case
  proof (cases "x_got c")
    case True
    with Cons.prems show ?thesis by (auto simp: sending_def receiving_def)
  next
    case False
    let ?c = "c\<lparr>c_waits := ws\<rparr>"
    from False Cons.prems(1) have ph: "sending req c0 left ?c \<or> receiving f req c0 left ?c" by (auto simp: exchanged_def)
    show ?thesis
    proof (cases w)
      case (Wait_failed e)
      with False Cons.prems(3) show ?thesis by (auto simp: raise_def)
    next
      case (Wait_events evs)
      obtain q d where q: "exchange_events f (c_interest_in ?c) evs ?c = (q, d)" by fastforce
      have "length evs \<le> 1" using Cons.prems(2) Wait_events by simp
      note spec = exchange_events_spec [OF ph this q]
      show ?thesis
      proof (cases q)
        case (Inl e)
        with Cons.prems(3) False Wait_events q spec show ?thesis by (auto simp: Let_def)
      next
        case (Inr b)
        show ?thesis
        proof (cases b)
          case True
          then have "exchange_loop f ws d = (r, c')" "exchange_phase f req c0 left d"
            using Cons.prems(3) False Wait_events q Inr spec by (auto simp: Let_def)
          with Cons.IH [of d] Cons.prems(2) show ?thesis by simp
        qed (use Cons.prems(3) False Wait_events q Inr in \<open>auto simp: Let_def\<close>)
      qed
    qed
  qed
qed

section \<open>Upload\<close>

text \<open>
  The remaining size is what is left of the file plus the number of failed calls; so it can
  reach zero only if no call failed.
\<close>

lemma unat_minus_of_nat: "n \<le> unat (w :: u64) \<Longrightarrow> unat (w - of_nat n) = unat w - n"
proof -
  assume le: "n \<le> unat w"
  also have "unat w < 2 ^ 64" using unsigned_less [of w] by simp
  finally have n: "unat (of_nat n :: u64) = n" by (simp add: unat_of_nat)
  then have "of_nat n \<le> w" using le by (simp add: word_le_nat_alt)
  then show ?thesis using n by (simp add: unat_sub)
qed

lemma unat_plus_one: "unat (w :: u64) + 1 < 2 ^ 64 \<Longrightarrow> unat (w + 1) = unat w + 1"
  by (simp add: unat_word_ariths)

lemma sendfile_loop_spec:
  assumes "sendfile_loop content as off rem out = (rem', off', out')"
    and "0 \<le> off" and "nat off \<le> length content" and "unat rem = length content - nat off + k"
    and "length content + k + length as < 2 ^ 64"
  shows "\<exists>k'. k \<le> k' \<and> off \<le> off' \<and> nat off' \<le> length content \<and> unat rem' = length content - nat off' + k' \<and>
    out' = out @ take (nat off' - nat off) (drop (nat off) content)"
  using assms
proof (induction as arbitrary: off rem out k)
  case (Cons a as)
  show ?case
  proof (cases "rem = 0")
    case True
    with Cons.prems show ?thesis by auto
  next
    case False
    show ?thesis
    proof (cases a)
      case (Io_error e)
      have "unat (rem + 1) = length content - nat off + Suc k"
        using Cons.prems(4,5) unat_plus_one [of rem] by simp
      moreover have "sendfile_loop content as off (rem + 1) out = (rem', off', out')"
        using Cons.prems(1,2) False Io_error by simp
      moreover have "length content + Suc k + length as < 2 ^ 64" using Cons.prems(5) by simp
      ultimately show ?thesis using Cons.IH [of off "rem + 1" out "Suc k"] Cons.prems(2,3) Suc_leD by blast
    next
      case (Transferred n)
      define m where "m = min n (min (unat rem) (length content - nat off))"
      have m: "m \<le> unat rem" "m \<le> length content - nat off" by (simp_all add: m_def)
      have "unat (rem - of_nat m) = unat rem - m"
        by (rule unat_minus_of_nat [OF m(1)])
      moreover have "nat (off + int m) = nat off + m" using Cons.prems(2) by simp
      ultimately have "unat (rem - of_nat m) = length content - nat (off + int m) + k" using Cons.prems(3,4) m by linarith
      moreover have "sendfile_loop content as (off + int m) (rem - of_nat m) (out @ take m (drop (nat off) content)) = (rem', off', out')"
        using Cons.prems(1,2) False Transferred by (simp add: m_def Let_def)
      moreover have bounds: "0 \<le> off + int m" "nat (off + int m) \<le> length content" "length content + k + length as < 2 ^ 64"
        using Cons.prems(2,3,5) m by simp_all
      ultimately obtain k' where "k \<le> k' \<and> off + int m \<le> off' \<and> nat off' \<le> length content \<and> unat rem' = length content - nat off' + k' \<and>
          out' = (out @ take m (drop (nat off) content)) @ take (nat off' - nat (off + int m)) (drop (nat (off + int m)) content)"
        using Cons.IH [of "off + int m" "rem - of_nat m" "out @ take m (drop (nat off) content)" k] bounds by blast
      moreover from this have split: "nat off' - nat off = m + (nat off' - (nat off + m))" "nat (off + int m) = nat off + m" "off \<le> off'"
        using Cons.prems(2) by linarith+
      ultimately show ?thesis unfolding split(1,2) by (intro exI [of _ k']) (simp add: take_add add.commute)
    qed
  qed
qed auto

lemma sendfile_loop_Nil [simp]: "sendfile_loop content as off 0 out = (0, off, out)"
  by (cases as) simp_all

lemma sendfile_loop_append:
  "sendfile_loop content (as @ bs) off rem out =
     (case sendfile_loop content as off rem out of (rem', off', out') \<Rightarrow> sendfile_loop content bs off' rem' out')"
proof (induction as arbitrary: off rem out)
  case (Cons a as)
  show ?case
  proof (cases "rem = 0")
    case False
    show ?thesis
    proof (cases "if off < 0 then Io_error (errno_value EINVAL) else a")
      case (Io_error e)
      with False show ?thesis by (simp only: append_Cons sendfile_loop.simps if_False io_answer.case Cons.IH)
    next
      case (Transferred n)
      with False show ?thesis by (simp only: append_Cons sendfile_loop.simps if_False io_answer.case Let_def Cons.IH)
    qed
  qed simp
qed simp

lemma sendfile_loop_counts:
  assumes "0 \<le> off" and "nat off \<le> length content" and "unat rem = length content - nat off"
  shows "\<exists>rem' off' out'. sendfile_loop content (map Transferred ns) off rem out = (rem', off', out') \<and>
    0 \<le> off' \<and> nat off' = min (length content) (nat off + sum_list ns) \<and> unat rem' = length content - nat off'"
  using assms
proof (induction ns arbitrary: off rem out)
  case Nil
  then show ?case by simp
next
  case (Cons n ns)
  show ?case
  proof (cases "rem = 0")
    case True
    with Cons.prems have "nat off = length content" by simp
    with True Cons.prems show ?thesis by (simp del: sendfile_loop.simps)
  next
    case False
    define m where "m = min n (min (unat rem) (length content - nat off))"
    have m: "m \<le> unat rem" "m = min n (length content - nat off)" using Cons.prems(3) by (simp_all add: m_def)
    have off: "nat (off + int m) = nat off + m" "0 \<le> off + int m" using Cons.prems(1) by (simp_all add: nat_add_distrib)
    have le: "nat (off + int m) \<le> length content" unfolding off(1) using m(2) Cons.prems(2) by linarith
    have minus: "unat (rem - of_nat m) = length content - nat (off + int m)"
      using unat_minus_of_nat [OF m(1)] Cons.prems(3) off(1) by simp
    from Cons.IH [OF off(2) le minus, of "out @ take m (drop (nat off) content)"]
    obtain rem' off' out' where *: "sendfile_loop content (map Transferred ns) (off + int m) (rem - of_nat m)
        (out @ take m (drop (nat off) content)) = (rem', off', out')" "0 \<le> off'"
      "nat off' = min (length content) (nat off + m + sum_list ns)" "unat rem' = length content - nat off'"
      unfolding off(1) by blast
    have "sendfile_loop content (map Transferred (n # ns)) off rem out = (rem', off', out')"
      using *(1) False Cons.prems(1) by (simp add: m_def [symmetric] Let_def)
    moreover have "nat off' = min (length content) (nat off + sum_list (n # ns))"
      using *(3) m(2) Cons.prems(2) by (cases "n \<le> length content - nat off") (simp_all add: add.assoc)
    ultimately show ?thesis using *(2,4) by blast
  qed
qed


lemma upload_loop_event:
  assumes "c_waits c = Wait_events [ev] # ws" and "ev_own ev" and "ev_writable ev" and "\<not> c_interest_in c"
    and "remaining \<noteq> 0" and "sendfile_loop content (ev_writes ev) off remaining [] = (rem', off', out)"
  shows "upload_loop content (c_waits c) off remaining c =
    (let c' = c\<lparr>c_waits := ws, c_wire := c_wire c @ out\<rparr>
     in if rem' = 0 then (Inr (), c') else (Inl Waiting, c'))"
  using assms by (cases ws) (auto simp: bind_def andthen_def gets_def modify_def ret_def raise_def Let_def)

lemma sendfile_failed:
  assumes "0 \<le> off" and "nat off \<le> length content" and "sum_list ns < length content - nat off"
    and "length content + length ns + length bs + 1 < 2 ^ 64"
    and "sendfile_loop content (map Transferred ns @ Io_error e # bs) off (of_nat (length content) - of_int off) [] = (rem', off', out)"
  shows "rem' \<noteq> 0"
proof -
  let ?rem = "of_nat (length content) - of_int off :: u64"
  have "?rem = of_nat (length content - nat off)" using assms(1,2) by (simp add: of_nat_diff)
  moreover have "length content - nat off < 2 ^ 64" using assms(4) by simp
  ultimately have rem: "unat ?rem = length content - nat off" by (simp add: unat_of_nat)
  obtain rem1 off1 out1 where 1: "sendfile_loop content (map Transferred ns) off ?rem [] = (rem1, off1, out1)" "0 \<le> off1"
    "nat off1 = nat off + sum_list ns" "unat rem1 = length content - nat off1"
    using sendfile_loop_counts [OF assms(1,2) rem, of ns "[]"] assms(3) by auto
  then have pos: "unat rem1 > 0" using assms(3) by simp
  then have ne: "rem1 \<noteq> 0" by auto
  have plus: "unat (rem1 + 1) = length content - nat off1 + 1" using unat_plus_one [of rem1] 1(4) assms(4) by simp
  have "sendfile_loop content bs off1 (rem1 + 1) out1 = (rem', off', out)"
    using assms(5) 1(1,2) ne by (simp add: sendfile_loop_append)
  from sendfile_loop_spec [OF this 1(2) _ plus] 1(3) assms(3,4) show ?thesis by force
qed

section \<open>Properties\<close>

text \<open>
  C38: an exchange is a request and its answer. If it reports success, exactly the message went
  over the wire, what is in the buffer is what was received since then (each block up to its
  first null byte), it ends with an empty line, and the connection is left open and registered
  for writing, ready for the next exchange; in a download, the file got exactly the bytes that
  were received, and their number is the one announced, modulo 2 to the 64. In no case does the
  client read outside its buffer.
\<close>

theorem exchange_correct:
  assumes "isConnectionOpen c" and "\<not> c_interest_in c" and "list_all single_event (c_waits c)"
    and "exchangeWithServer req left f c = (r, c')"
  shows "r \<noteq> Inl Past_buffer \<and>
    (r = Inr True \<longrightarrow> isConnectionOpen c' \<and> \<not> c_interest_in c' \<and> c_wire c' = c_wire c @ req \<and>
      (\<exists>blocks. c_input c' = c_input c @ concat blocks \<and> x_data c' = concat (map c_str blocks) \<and>
        (if f then c_file c' = c_file c @ concat blocks \<and> left = of_nat (length (concat blocks))
         else c_file c' = c_file c \<and> ends_with (x_data c') [newline, newline])))"
proof -
  let ?c = "c\<lparr>x_data := req, x_left := left, x_pos := 0, x_got := False, x_ready := False\<rparr>"
  have "sending req c left ?c" using assms(1,2) by (simp add: sending_def)
  moreover have "exchange_loop f (c_waits c) ?c = (r, c')" using assms(1,4) by (simp add: exchangeWithServer_def)
  ultimately have spec: "r \<noteq> Inl Past_buffer" "r = Inr True \<longrightarrow> exchanged f req c left c'"
    using exchange_loop_spec [OF _ assms(3)] by blast+
  show ?thesis
  proof (cases "r = Inr True")
    case True
    with spec(2) have ex: "exchanged f req c left c'" by blast
    then obtain blocks where "c_input c' = c_input c @ concat blocks" "x_data c' = concat (map c_str blocks)"
      "if f then c_file c' = c_file c @ concat blocks \<and> x_left c' = left - of_nat (length (concat blocks)) else c_file c' = c_file c"
      unfolding exchanged_def received_def by blast
    with ex True show ?thesis unfolding exchanged_def
      by (intro conjI impI exI [of _ blocks]) (auto split: if_splits)
  qed (use spec(1) in simp)
qed

definition ready_connection :: "wait_answer list \<Rightarrow> Connection" where
  "ready_connection ws = (new_connection ws)\<lparr>isConnectionOpen := True, c_fds := 2\<rparr>"

definition sample_event :: "io_answer list \<Rightarrow> recv_answer list \<Rightarrow> wait_answer" where
  "sample_event ws rs = Wait_events [\<lparr>ev_own = True, ev_writable = True, ev_readable = True, ev_writes = ws, ev_reads = rs, ev_ctl = 0\<rparr>]"

theorem exchange_correct_witness:
  "\<exists>c'. exchangeWithServer ''pwd'' 0 False (ready_connection
      [sample_event [Transferred 2] [], sample_event [Transferred 5] [], sample_event [] [Recv_bytes [newline, newline] 2]]) =
     (Inr True, c') \<and> c_wire c' = ''pwd'' \<and> x_data c' = [newline, newline]"
proof -
  let ?c = "ready_connection [sample_event [Transferred 2] [], sample_event [Transferred 5] [], sample_event [] [Recv_bytes [newline, newline] 2]]"
  have "fst (exchangeWithServer ''pwd'' 0 False ?c) = Inr True" "x_data (snd (exchangeWithServer ''pwd'' 0 False ?c)) = [newline, newline]"
    by code_simp+
  then obtain c' where c': "exchangeWithServer ''pwd'' 0 False ?c = (Inr True, c')" "x_data c' = [newline, newline]"
    by (metis prod.collapse)
  have "isConnectionOpen ?c" "\<not> c_interest_in ?c" "list_all single_event (c_waits ?c)" "c_wire ?c = []"
    by (simp_all add: ready_connection_def new_connection_def sample_event_def)
  with exchange_correct [of ?c "''pwd''" 0 False "Inr True" c'] c' show ?thesis by auto
qed

text \<open>
  C39: an upload sends the rest of the file from the offset on and reports success if the kernel
  takes it all; but if a call of \<open>sendfile\<close> fails before the end, be it only because the socket
  would block, the result of the call passes the test for success and the upload never returns,
  whatever the kernel answers afterwards.
\<close>

theorem upload_complete_or_stuck:
  assumes "isConnectionOpen c" and "\<not> c_interest_in c" and "c_waits c = Wait_events [ev] # ws" and "ev_own ev" and "ev_writable ev"
    and "0 \<le> off" and "nat off < length content" and "length content + length (ev_writes ev) < 2 ^ 64"
  shows "(ev_writes ev = map Transferred ns \<and> length content - nat off \<le> sum_list ns \<longrightarrow>
      uploadFile content off (of_nat (length content)) 0 c =
        (Inr True, c\<lparr>c_waits := ws, c_wire := c_wire c @ drop (nat off) content, c_interest_in := False\<rparr>)) \<and>
    (ev_writes ev = map Transferred ns @ Io_error e # bs \<and> sum_list ns < length content - nat off \<longrightarrow>
      fst (uploadFile content off (of_nat (length content)) 0 c) = Inl Waiting)"
proof -
  let ?rem = "of_nat (length content) - of_int off :: u64"
  have "?rem = of_nat (length content - nat off)" using assms(6,7) by (simp add: of_nat_diff)
  moreover have "length content - nat off < 2 ^ 64" using assms(8) by simp
  ultimately have rem: "unat ?rem = length content - nat off" by (simp add: unat_of_nat)
  then have ne: "?rem \<noteq> 0" using assms(7) by fastforce
  obtain rem' off' out where run: "sendfile_loop content (ev_writes ev) off ?rem [] = (rem', off', out)" by (metis prod_cases3)
  note step = upload_loop_event [OF assms(3-5,2) ne run]
  have le: "nat off \<le> length content" using assms(7) by simp
  show ?thesis
  proof (intro conjI impI)
    assume all: "ev_writes ev = map Transferred ns \<and> length content - nat off \<le> sum_list ns"
    then have "nat off' = length content" "rem' = 0"
      using sendfile_loop_counts [OF assms(6) le rem, of ns "[]"] run by (auto simp: unat_eq_0)
    moreover have "out = take (nat off' - nat off) (drop (nat off) content)"
      using sendfile_loop_spec [OF run assms(6) le, of 0] rem assms(8) by auto
    ultimately show "uploadFile content off (of_nat (length content)) 0 c =
        (Inr True, c\<lparr>c_waits := ws, c_wire := c_wire c @ drop (nat off) content, c_interest_in := False\<rparr>)"
      using step assms(1) by (simp add: uploadFile_def changeEpollEvents_spec bind_def andthen_def gets_def ret_def Let_def)
  next
    assume failed: "ev_writes ev = map Transferred ns @ Io_error e # bs \<and> sum_list ns < length content - nat off"
    then have "rem' \<noteq> 0" using sendfile_failed [OF assms(6) le, of ns bs e rem' off' out] run assms(8) by simp
    with step assms(1) show "fst (uploadFile content off (of_nat (length content)) 0 c) = Inl Waiting"
      by (simp add: uploadFile_def bind_def andthen_def gets_def Let_def)
  qed
qed

theorem upload_complete_or_stuck_witness:
  "fst (uploadFile ''abc'' 1 3 0 (ready_connection [sample_event [Transferred 1, Io_error EAGAIN, Transferred 9] []])) = Inl Waiting \<and>
   fst (uploadFile ''abc'' 1 3 0 (ready_connection [sample_event [Transferred 1, Transferred 9] []])) = Inr True"
proof -
  define ev where "ev ws = \<lparr>ev_own = True, ev_writable = True, ev_readable = True, ev_writes = ws, ev_reads = [], ev_ctl = 0\<rparr>" for ws
  define c where "c ws = ready_connection [Wait_events [ev ws]]" for ws
  have c: "isConnectionOpen (c ws)" "\<not> c_interest_in (c ws)" "c_waits (c ws) = Wait_events [ev ws] # []" "ev_own (ev ws)"
    "ev_writable (ev ws)" "ev_writes (ev ws) = ws" for ws
    by (simp_all add: c_def ev_def ready_connection_def new_connection_def)
  have len: "of_nat (length ''abc'') = (3 :: u64)" by simp
  have "nat 1 < length ''abc''" "length ''abc'' + length (ev_writes (ev [Transferred 1, Io_error EAGAIN, Transferred 9])) < 2 ^ 64"
    "length ''abc'' + length (ev_writes (ev [Transferred 1, Transferred 9])) < 2 ^ 64" by (simp_all add: c(6))
  note stuck = upload_complete_or_stuck [OF c(1-5) _ this(1,2), of "[1]" EAGAIN "[Transferred 9]", THEN conjunct2, THEN mp]
    and all = upload_complete_or_stuck [OF c(1-5) _ this(1,3), of "[1, 9]", THEN conjunct1, THEN mp]
  have "fst (uploadFile ''abc'' 1 3 0 (c [Transferred 1, Io_error EAGAIN, Transferred 9])) = Inl Waiting"
    using stuck unfolding c(6) len by simp
  moreover have "fst (uploadFile ''abc'' 1 3 0 (c [Transferred 1, Transferred 9])) = Inr True"
    using all unfolding c(6) len by simp
  ultimately show ?thesis unfolding c_def ev_def sample_event_def by blast
qed

end
