(* ===== verification/Response_Analyzer.thy ===== *)
theory Response_Analyzer
  imports Responses
begin

text \<open>
  The console client's reading of responses (\<open>src/cli/src/tdpservice/responseanalyzer.cpp\<close>,
  \<open>connectionerror.h\<close>). The iterator into \<open>read_buf\<close> is the text from its position to the end;
  a function that moves it returns the new one. Reading the character at the end of the buffer
  has no defined value: such a run is \<open>None\<close>, so that its absence can be proved.
\<close>

section \<open>Errors of the client\<close>

datatype ConnectionError =
    NONE | E_CON_TO_SERV | E_CLOSE_CON | E_CLOSED_CON | E_EXCHANGE_MESSAGE | E_READ_MESSAGE
  | E_NOTHING_READ | E_RESPONSE | OK
  | E_LINE_TOO_LONG | E_TOO_MANY_FIELDS | E_BAD_FIELD | E_BAD_COMMAND
  | E_UNKNOWN | E_NOT_LOGGED_IN | E_INVALID_FIELD_VALUE | E_NOT_FOUND | E_RESUME_UPLOAD
  | E_NOT_ENOUGH_PERMS | E_USER_ALREADY_LOGGED | E_INVALID_CREDENTIALS | E_FILE_ALREADY_EXISTS
  | E_FILE_TYPE | E_DLS_WITHOUT_DL | E_IN_USE | E_UPLOAD_PATH | E_NOT_DIR | E_FILE_TOO_LARGE

fun error_value :: "ConnectionError \<Rightarrow> nat" where
  "error_value NONE = 0"
| "error_value E_CON_TO_SERV = 1"
| "error_value E_CLOSE_CON = 2"
| "error_value E_CLOSED_CON = 3"
| "error_value E_EXCHANGE_MESSAGE = 4"
| "error_value E_READ_MESSAGE = 5"
| "error_value E_NOTHING_READ = 6"
| "error_value E_RESPONSE = 7"
| "error_value OK = 100"
| "error_value E_LINE_TOO_LONG = 300"
| "error_value E_TOO_MANY_FIELDS = 301"
| "error_value E_BAD_FIELD = 302"
| "error_value E_BAD_COMMAND = 303"
| "error_value E_UNKNOWN = 401"
| "error_value E_NOT_LOGGED_IN = 402"
| "error_value E_INVALID_FIELD_VALUE = 403"
| "error_value E_NOT_FOUND = 404"
| "error_value E_RESUME_UPLOAD = 405"
| "error_value E_NOT_ENOUGH_PERMS = 406"
| "error_value E_USER_ALREADY_LOGGED = 407"
| "error_value E_INVALID_CREDENTIALS = 408"
| "error_value E_FILE_ALREADY_EXISTS = 409"
| "error_value E_FILE_TYPE = 410"
| "error_value E_DLS_WITHOUT_DL = 411"
| "error_value E_IN_USE = 412"
| "error_value E_UPLOAD_PATH = 413"
| "error_value E_NOT_DIR = 414"
| "error_value E_FILE_TOO_LARGE = 415"

text \<open>The cast of an accepted code to the enumeration.\<close>

definition accepted_errors :: "ConnectionError list" where
  "accepted_errors = [OK, E_LINE_TOO_LONG, E_TOO_MANY_FIELDS, E_BAD_FIELD, E_BAD_COMMAND, E_UNKNOWN, E_NOT_LOGGED_IN,
     E_INVALID_FIELD_VALUE, E_NOT_FOUND, E_RESUME_UPLOAD, E_NOT_ENOUGH_PERMS, E_USER_ALREADY_LOGGED,
     E_INVALID_CREDENTIALS, E_FILE_ALREADY_EXISTS]"

definition error_of_code :: "nat \<Rightarrow> ConnectionError" where
  "error_of_code code =
     (if code = 100 \<or> 300 \<le> code \<and> code \<le> 303 \<or> 401 \<le> code \<and> code \<le> 409
      then case find (\<lambda>e. error_value e = code) accepted_errors of Some e \<Rightarrow> e | None \<Rightarrow> E_RESPONSE
      else E_RESPONSE)"

section \<open>Scanning the buffer\<close>

type_synonym iter = string

definition deref :: "iter \<Rightarrow> char option" where
  "deref it = (case it of [] \<Rightarrow> None | c # cs \<Rightarrow> Some c)"

definition nextReadChar :: "iter \<Rightarrow> ConnectionError \<times> iter" where
  "nextReadChar it = (if it = [] then (E_RESPONSE, it) else if tl it = [] then (E_RESPONSE, []) else (NONE, tl it))"

primrec code_digits :: "nat \<Rightarrow> nat \<Rightarrow> iter \<Rightarrow> (ConnectionError \<times> iter) option" where
  "code_digits 0 code it = Some (error_of_code code, it)"
| "code_digits (Suc n) code it =
     Option.bind (deref it) (\<lambda>c.
       if \<not> is_digit c then Some (E_RESPONSE, it)
       else case nextReadChar it of (e, it') \<Rightarrow>
         if e \<noteq> NONE then Some (E_RESPONSE, it') else code_digits n (10 * code + digit_value c) it')"

definition getErrorCode :: "iter \<Rightarrow> (ConnectionError \<times> iter) option" where
  "getErrorCode = code_digits 3 0"

primrec match_ending :: "string \<Rightarrow> iter \<Rightarrow> (ConnectionError \<times> iter) option" where
  "match_ending [] it = Some (NONE, it)"
| "match_ending (i # is) it =
     Option.bind (deref it) (\<lambda>c.
       if c \<noteq> i then Some (E_BAD_COMMAND, it)
       else case nextReadChar it of (e, it') \<Rightarrow> if e \<noteq> NONE then Some (E_RESPONSE, it') else match_ending is it')"

definition checkRestOfResponseHeader :: "string \<Rightarrow> iter \<Rightarrow> (ConnectionError \<times> iter) option" where
  "checkRestOfResponseHeader command_name = match_ending ('' '' @ command_name @ [newline])"

definition getResponseHeader :: "string \<Rightarrow> iter \<Rightarrow> (ConnectionError \<times> iter) option" where
  "getResponseHeader command_name it =
     Option.bind (getErrorCode it) (\<lambda>(code, it').
       if code \<noteq> E_RESPONSE then
         Option.bind (checkRestOfResponseHeader command_name it') (\<lambda>(e, it'').
           Some (if e \<noteq> NONE then E_RESPONSE else code, it''))
       else Some (code, it'))"

text \<open>One turn of the inner loop appends the character and moves on; it ends after a newline.\<close>

primrec copy_line :: "iter \<Rightarrow> string \<Rightarrow> (ConnectionError \<times> iter \<times> string) option" where
  "copy_line [] body = None"
| "copy_line (c # cs) body =
     (if cs = [] then Some (E_RESPONSE, [], body @ [c])
      else if c = newline then Some (NONE, cs, body @ [c])
      else copy_line cs (body @ [c]))"

definition getResponseLine :: "iter \<Rightarrow> (ConnectionError \<times> iter \<times> string) option" where
  "getResponseLine it =
     Option.bind (deref it) (\<lambda>c.
       if c = newline then Some (E_RESPONSE, it, [])
       else Option.bind (copy_line it []) (\<lambda>(e, it', body).
         if e \<noteq> NONE then Some (E_RESPONSE, it', body)
         else Option.bind (deref it') (\<lambda>c'.
           if c' = newline then Some (NONE, it', body @ [newline]) else Some (E_RESPONSE, it', body))))"

lemma copy_line_shorter: "copy_line it body = Some (e, it', body') \<Longrightarrow> length it' < length it"
  by (induction it arbitrary: body) (auto split: if_splits, fastforce)

function copy_lines :: "iter \<Rightarrow> string \<Rightarrow> (ConnectionError \<times> iter \<times> string) option" where
  "copy_lines it body =
     (case copy_line it body of
        None \<Rightarrow> None
      | Some (e, it', body') \<Rightarrow>
          if e \<noteq> NONE then Some (E_RESPONSE, it', body')
          else (case deref it' of
                  None \<Rightarrow> None
                | Some c \<Rightarrow> if c = newline then Some (NONE, it', body') else copy_lines it' body'))"
  by pat_completeness auto
termination
  by (relation "measure (\<lambda>(it, body). length it)") (auto dest: copy_line_shorter)

definition getMultipleLineResponse :: "iter \<Rightarrow> (ConnectionError \<times> iter \<times> string) option" where
  "getMultipleLineResponse it =
     Option.bind (deref it) (\<lambda>c.
       if c \<noteq> newline then
         Option.bind (copy_lines it []) (\<lambda>(e, it', body).
           if e \<noteq> NONE then Some (e, it', body) else Some (NONE, it', body @ [newline]))
       else Some (NONE, it, [newline]))"

section \<open>Analysis of a response\<close>

text \<open>Results: the code, and what is left in \<open>received_response\<close> and \<open>response_body\<close>.\<close>

definition header_read :: "ConnectionError \<Rightarrow> bool" where
  "header_read e \<longleftrightarrow> e \<noteq> E_RESPONSE \<and> e \<noteq> E_NOTHING_READ \<and> e \<noteq> E_READ_MESSAGE"

definition analyseSimpleResponse ::
  "string \<Rightarrow> string \<Rightarrow> string \<Rightarrow> bool \<Rightarrow> (ConnectionError \<times> string \<times> string) option" where
  "analyseSimpleResponse command_name received_response response_body isSpecificAnswerExpected =
     Option.bind (getResponseHeader command_name received_response) (\<lambda>(code, it).
       if header_read code then
         if code = OK \<and> \<not> isSpecificAnswerExpected then
           Option.bind (deref it) (\<lambda>c.
             if c = newline
             then Some (code, nat_to_string (error_value code) @ '' '' @ command_name @ [newline, newline], [])
             else Some (E_RESPONSE, [], response_body))
         else
           Option.bind (getResponseLine it) (\<lambda>(e, it', body).
             if e = NONE then Some (code, nat_to_string (error_value code) @ '' '' @ command_name @ [newline] @ body, body)
             else Some (E_RESPONSE, [], []))
       else Some (code, [], response_body))"

definition analyseMultilineResponse ::
  "string \<Rightarrow> string \<Rightarrow> string \<Rightarrow> (ConnectionError \<times> string \<times> string) option" where
  "analyseMultilineResponse command_name received_response response_body =
     Option.bind (getResponseHeader command_name received_response) (\<lambda>(code, it).
       if header_read code then
         Option.bind (getMultipleLineResponse it) (\<lambda>(e, it', body).
           if e = NONE then Some (code, nat_to_string (error_value code) @ '' '' @ command_name @ [newline] @ body, body)
           else Some (E_RESPONSE, [], body))
       else Some (code, [], response_body))"

section \<open>Reading never leaves the buffer\<close>

lemma nextReadChar_Cons: "nextReadChar (c # cs) = (if cs = [] then (E_RESPONSE, []) else (NONE, cs))"
  by (simp add: nextReadChar_def)

lemma deref_Cons [simp]: "deref (c # cs) = Some c"
  by (simp add: deref_def)

lemma deref_Some: "it \<noteq> [] \<Longrightarrow> \<exists>c. deref it = Some c"
  by (cases it) simp_all

lemma code_digits_defined:
  "it \<noteq> [] \<Longrightarrow> \<exists>e it'. code_digits n code it = Some (e, it') \<and> (e \<noteq> E_RESPONSE \<longrightarrow> it' \<noteq> [])"
proof (induction n arbitrary: code it)
  case (Suc n)
  then show ?case by (cases it) (auto simp: nextReadChar_Cons)
qed simp

lemma match_ending_defined:
  "it \<noteq> [] \<Longrightarrow> \<exists>e it'. match_ending w it = Some (e, it') \<and> (e = NONE \<longrightarrow> it' \<noteq> [])"
proof (induction w arbitrary: it)
  case (Cons i w)
  then show ?case by (cases it) (auto simp: nextReadChar_Cons)
qed simp

lemma getResponseHeader_defined:
  assumes "it \<noteq> []"
  shows "\<exists>e it'. getResponseHeader n it = Some (e, it') \<and> (e \<noteq> E_RESPONSE \<longrightarrow> it' \<noteq> [])"
proof -
  obtain e it1 where c: "getErrorCode it = Some (e, it1)" "e \<noteq> E_RESPONSE \<longrightarrow> it1 \<noteq> []"
    using code_digits_defined [OF assms] unfolding getErrorCode_def by blast
  show ?thesis
  proof (cases "e = E_RESPONSE")
    case False
    with c match_ending_defined [of it1] obtain f it2 where
      "checkRestOfResponseHeader n it1 = Some (f, it2)" "f = NONE \<longrightarrow> it2 \<noteq> []"
      unfolding checkRestOfResponseHeader_def by blast
    with c(1) False show ?thesis by (auto simp: getResponseHeader_def)
  qed (simp add: getResponseHeader_def c(1))
qed

lemma copy_line_defined:
  "it \<noteq> [] \<Longrightarrow> \<exists>e it' body'. copy_line it body = Some (e, it', body') \<and> (e = NONE \<longrightarrow> it' \<noteq> [])"
proof (induction it arbitrary: body)
  case (Cons c it)
  then show ?case by auto
qed simp

lemma copy_lines_defined: "it \<noteq> [] \<Longrightarrow> copy_lines it body \<noteq> None"
proof (induction it body rule: copy_lines.induct)
  case (1 it body)
  from copy_line_defined [OF 1(2)] obtain e it' body' where
    c: "copy_line it body = Some (e, it', body')" "e = NONE \<longrightarrow> it' \<noteq> []" by blast
  with 1(1) [OF c(1) refl refl] show ?case by (cases it') (auto simp: copy_lines.simps [of it] split: if_splits)
qed

lemma getResponseLine_defined:
  assumes "it \<noteq> []"
  shows "getResponseLine it \<noteq> None"
proof -
  obtain e it' body' where c: "copy_line it [] = Some (e, it', body')" "e = NONE \<longrightarrow> it' \<noteq> []"
    using copy_line_defined [OF assms] by blast
  obtain x where "deref it = Some x" using deref_Some [OF assms] by blast
  moreover have "\<exists>y. deref it' = Some y" if "e = NONE" using c(2) that deref_Some by simp
  ultimately show ?thesis by (auto simp: getResponseLine_def c(1))
qed

lemma getMultipleLineResponse_defined: "it \<noteq> [] \<Longrightarrow> getMultipleLineResponse it \<noteq> None"
  using copy_lines_defined [of it "[]"] by (cases it) (auto simp: getMultipleLineResponse_def)


section \<open>Responses of the server\<close>

lemma code_digits_run:
  "list_all is_digit ds \<Longrightarrow> rest \<noteq> [] \<Longrightarrow>
   code_digits (length ds) k (ds @ rest) = Some (error_of_code (foldl (\<lambda>n c. 10 * n + digit_value c) k ds), rest)"
  by (induction ds arbitrary: k) (auto simp: nextReadChar_Cons)

lemma code_length: "length (nat_to_string (code_value c)) = 3"
  by (cases c) (simp_all add: nat_to_string.simps)

lemma getErrorCode_run:
  "rest \<noteq> [] \<Longrightarrow> getErrorCode (nat_to_string (code_value c) @ rest) = Some (error_of_code (code_value c), rest)"
  using code_digits_run [of "nat_to_string (code_value c)" rest 0] nat_to_string_digits [of "code_value c"]
  by (simp add: getErrorCode_def code_length list_all_iff flip: decimal_value_def)

lemma match_ending_run: "rest \<noteq> [] \<Longrightarrow> match_ending w (w @ rest) = Some (NONE, rest)"
  by (induction w) (auto simp: nextReadChar_Cons)

lemma copy_line_run: "newline \<notin> set l \<Longrightarrow> rest \<noteq> [] \<Longrightarrow> copy_line (l @ newline # rest) body = Some (NONE, rest, body @ l @ [newline])"
  by (induction l arbitrary: body) auto

definition plain_lines :: "string list \<Rightarrow> bool" where
  "plain_lines ls \<longleftrightarrow> list_all (\<lambda>l. l \<noteq> [] \<and> newline \<notin> set l) ls"

definition unlines :: "string list \<Rightarrow> string" where
  "unlines ls = concat (map (\<lambda>l. l @ [newline]) ls)"

lemma copy_lines_run:
  "plain_lines ls \<Longrightarrow> ls \<noteq> [] \<Longrightarrow> copy_lines (unlines ls @ [newline]) body = Some (NONE, [newline], body @ unlines ls)"
proof (induction ls arbitrary: body)
  case (Cons l ls)
  then have l: "newline \<notin> set l" and ls: "plain_lines ls" by (simp_all add: plain_lines_def)
  have step: "copy_line (unlines (l # ls) @ [newline]) body = Some (NONE, unlines ls @ [newline], body @ l @ [newline])"
    using copy_line_run [OF l, of "unlines ls @ [newline]"] by (simp add: unlines_def)
  show ?case
  proof (cases ls)
    case Nil
    with step show ?thesis by (simp add: copy_lines.simps unlines_def)
  next
    case (Cons m ms)
    with ls obtain c cs where "m = c # cs" "c \<noteq> newline" by (cases m) (auto simp: plain_lines_def)
    with Cons have "deref (unlines ls @ [newline]) = Some c" "c \<noteq> newline" by (simp_all add: unlines_def)
    with step Cons.IH [OF ls] Cons show ?thesis by (subst copy_lines.simps) (simp add: unlines_def)
  qed
qed simp

lemma getResponseHeader_run:
  assumes "rest \<noteq> []"
  shows "getResponseHeader n (nat_to_string (code_value c) @ '' '' @ n @ [newline] @ rest) =
    (if error_of_code (code_value c) = E_RESPONSE then Some (E_RESPONSE, '' '' @ n @ [newline] @ rest)
     else Some (error_of_code (code_value c), rest))"
  using getErrorCode_run [of "'' '' @ n @ [newline] @ rest" c] match_ending_run [OF assms, of "'' '' @ n @ [newline]"]
  by (simp add: getResponseHeader_def checkRestOfResponseHeader_def)

lemma error_of_code_value:
  "error_of_code (code_value c) = E_RESPONSE \<longleftrightarrow> 410 \<le> code_value c"
  "error_of_code (code_value c) = OK \<longleftrightarrow> c = ok"
  "code_value c < 410 \<Longrightarrow> error_value (error_of_code (code_value c)) = code_value c"
  "code_value c < 410 \<Longrightarrow> header_read (error_of_code (code_value c))"
  by (cases c; simp add: error_of_code_def accepted_errors_def header_read_def)+

definition server_response :: "ProtocolCode \<Rightarrow> string \<Rightarrow> string list \<Rightarrow> bytes" where
  "server_response c n ls = rs_data (get_response (fold add_line ls (set_command_name n (set_code c new_builder))))"

lemma server_response_text:
  "server_response c n ls = nat_to_string (code_value c) @ '' '' @ n @ [newline] @ unlines ls @ [newline]"
proof -
  have "fold add_line ls b = b\<lparr>rb_lines := rb_lines b @ unlines ls\<rparr>" for b
    by (induction ls arbitrary: b) (simp_all add: add_line_def unlines_def)
  then show ?thesis
    by (simp add: server_response_def get_response_def make_response_def set_command_name_def set_code_def new_builder_def)
qed

lemma getMultiple_run: "plain_lines ls \<Longrightarrow> getMultipleLineResponse (unlines ls @ [newline]) = Some (NONE, [newline], unlines ls @ [newline])"
proof (cases ls)
  case (Cons l ms)
  assume p: "plain_lines ls"
  with Cons obtain c cs where "l = c # cs" "c \<noteq> newline" by (cases l) (auto simp: plain_lines_def)
  with Cons have "deref (unlines ls @ [newline]) = Some c" "c \<noteq> newline" by (simp_all add: unlines_def)
  with copy_lines_run [OF p, of "[]"] Cons show ?thesis by (simp add: getMultipleLineResponse_def)
qed (simp add: getMultipleLineResponse_def unlines_def)

lemma getResponseLine_run:
  assumes "l \<noteq> []" and "newline \<notin> set l"
  shows "getResponseLine (unlines [l] @ [newline]) = Some (NONE, [newline], unlines [l] @ [newline])"
proof -
  obtain c cs where "l = c # cs" "c \<noteq> newline" using assms by (cases l) auto
  with copy_line_run [OF assms(2), of "[newline]" "[]"] show ?thesis
    by (simp add: getResponseLine_def unlines_def del: copy_line.simps)
qed

lemma response_header:
  "getResponseHeader n (server_response c n ls) =
    (if 410 \<le> code_value c then Some (E_RESPONSE, '' '' @ n @ [newline] @ unlines ls @ [newline])
     else Some (error_of_code (code_value c), unlines ls @ [newline]))"
  using getResponseHeader_run [of "unlines ls @ [newline]" n c] by (simp add: server_response_text error_of_code_value(1))

lemma refused_codes:
  assumes "410 \<le> code_value c"
  shows "analyseMultilineResponse n (server_response c n ls) b = Some (E_RESPONSE, [], b)"
    and "analyseSimpleResponse n (server_response c n ls) b specific = Some (E_RESPONSE, [], b)"
  using assms by (simp_all add: analyseMultilineResponse_def analyseSimpleResponse_def response_header header_read_def)

lemma simple_one_line:
  assumes "code_value c < 410" and "plain_lines [l]" and "specific \<or> c \<noteq> ok"
  shows "analyseSimpleResponse n (server_response c n [l]) b specific =
    Some (error_of_code (code_value c), server_response c n [l], unlines [l] @ [newline])"
  using assms getResponseLine_run [of l] error_of_code_value(2-4) [of c]
  unfolding analyseSimpleResponse_def response_header by (auto simp: server_response_text plain_lines_def)

lemma simple_no_line:
  "analyseSimpleResponse n (server_response ok n []) b False = Some (OK, server_response ok n [], [])"
  using error_of_code_value(2-4) [of ok]
  unfolding analyseSimpleResponse_def response_header by (auto simp: server_response_text unlines_def)

lemma multiple_lines:
  assumes "code_value c < 410" and "plain_lines ls"
  shows "analyseMultilineResponse n (server_response c n ls) b =
    Some (error_of_code (code_value c), server_response c n ls, unlines ls @ [newline])"
  using assms(1) getMultiple_run [OF assms(2)] error_of_code_value(3,4) [OF assms(1)]
  unfolding analyseMultilineResponse_def response_header by (simp add: server_response_text)

section \<open>Properties\<close>

text \<open>
  C33: whatever a server answers, the client does not read behind the end of its buffer as long
  as it received at least one byte.
\<close>

theorem analyzer_stays_in_buffer:
  assumes "received \<noteq> []"
  shows "analyseSimpleResponse n received body specific \<noteq> None \<and> analyseMultilineResponse n received body \<noteq> None"
proof -
  obtain e it where h: "getResponseHeader n received = Some (e, it)" "e \<noteq> E_RESPONSE \<longrightarrow> it \<noteq> []"
    using getResponseHeader_defined [OF assms] by blast
  show ?thesis
  proof (cases "header_read e")
    case True
    with h(2) have it: "it \<noteq> []" by (simp add: header_read_def)
    from getResponseLine_defined [OF it] getMultipleLineResponse_defined [OF it] deref_Some [OF it] h(1) True
    show ?thesis by (auto simp: analyseSimpleResponse_def analyseMultilineResponse_def)
  qed (simp add: analyseSimpleResponse_def analyseMultilineResponse_def h(1))
qed

theorem analyzer_stays_in_buffer_witness:
  "analyseSimpleResponse ''ls'' ''100 l'' [] True \<noteq> None \<and> analyseMultilineResponse ''ls'' ''100 l'' [] \<noteq> None"
  using analyzer_stays_in_buffer [of "''100 l''"] by simp

text \<open>
  C32: the client understands the server. A response that the server's builder made for the
  command, with non-empty lines, is read back by the analyser of multi-line responses, with its
  code and exactly its lines; the one of simple responses reads an answer of one line, and one
  of no lines where none is expected. The codes 410 to 415, which the server sends, are not
  accepted: for them the client reports a malformed response and drops the text.
\<close>

theorem server_response_read:
  assumes "plain_lines ls"
  shows "if code_value c < 410
    then analyseMultilineResponse n (server_response c n ls) b =
           Some (error_of_code (code_value c), server_response c n ls, unlines ls @ [newline]) \<and>
         error_value (error_of_code (code_value c)) = code_value c \<and>
         (length ls = 1 \<and> (specific \<or> c \<noteq> ok) \<longrightarrow>
           analyseSimpleResponse n (server_response c n ls) b specific =
             Some (error_of_code (code_value c), server_response c n ls, unlines ls @ [newline])) \<and>
         (ls = [] \<and> c = ok \<longrightarrow>
           analyseSimpleResponse n (server_response c n ls) b False = Some (OK, server_response c n ls, []))
    else analyseMultilineResponse n (server_response c n ls) b = Some (E_RESPONSE, [], b) \<and>
         analyseSimpleResponse n (server_response c n ls) b specific = Some (E_RESPONSE, [], b)"
proof (cases "code_value c < 410")
  case True
  have "analyseSimpleResponse n (server_response c n ls) b specific =
      Some (error_of_code (code_value c), server_response c n ls, unlines ls @ [newline])"
    if "length ls = 1 \<and> (specific \<or> c \<noteq> ok)"
    using that simple_one_line [OF True, of "hd ls"] assms by (cases ls) auto
  with True multiple_lines [OF True assms] simple_no_line error_of_code_value(3) [OF True] show ?thesis by auto
next
  case False
  with refused_codes show ?thesis by auto
qed

theorem server_response_read_witness:
  "analyseMultilineResponse ''ls'' (server_response ok ''ls'' [''a'', ''b'']) [] =
     Some (OK, server_response ok ''ls'' [''a'', ''b''], unlines [''a'', ''b''] @ [newline]) \<and>
   analyseSimpleResponse ''rm'' (server_response in_use ''rm'' [''busy'']) [] True = Some (E_RESPONSE, [], [])"
proof -
  have "plain_lines [''a'', ''b'']" "plain_lines [''busy'']" by (simp_all add: plain_lines_def newline_def)
  from server_response_read [OF this(1), of ok "''ls''" "[]"] server_response_read [OF this(2), of in_use "''rm''" "[]" True]
  show ?thesis by (simp add: error_of_code_def accepted_errors_def)
qed

end
