(* ===== verification/Tdp_Service.thy ===== *)
theory Tdp_Service
  imports Console_Connection Response_Analyzer
begin

text \<open>
  The console client's service (\<open>src/cli/src/tdpservice/tdpservice.cpp\<close>): one method per command,
  each sending a request over the connection and analysing the response, and the two transfers.
  What \<open>open\<close> and \<open>fstat\<close> give for a local file is an input. The local descriptor, its closing
  and the final \<open>chmod\<close> are not modelled.
\<close>

section \<open>State\<close>

record TDPService =
  response_body :: string
  received_response :: string
  last_sent_command :: string
  error_code :: ConnectionError
  connectionToServer :: Connection

type_synonym 'a service = "(client_exn, TDPService, 'a) action"

datatype local_file = Open_failed | Fstat_failed | Opened bytes

definition new_service :: "Connection \<Rightarrow> TDPService" where
  "new_service c = \<lparr>response_body = [], received_response = [], last_sent_command = [], error_code = NONE, connectionToServer = c\<rparr>"

definition on_connection :: "'a conn \<Rightarrow> 'a service" where
  "on_connection m s = (case m (connectionToServer s) of (r, c) \<Rightarrow> (r, s\<lparr>connectionToServer := c\<rparr>))"

text \<open>What \<open>catch (std::runtime_error&)\<close> catches.\<close>

fun is_runtime_error :: "client_exn \<Rightarrow> bool" where
  "is_runtime_error (System_error e m) = True"
| "is_runtime_error (Runtime_error m) = True"
| "is_runtime_error _ = False"

section \<open>Numbers in responses\<close>

definition is_space :: "char \<Rightarrow> bool" where
  "is_space c \<longleftrightarrow> c = CHR '' '' \<or> 9 \<le> char_code c \<and> char_code c \<le> 13"

text \<open>The sign and the digits behind leading white space; the text behind them is not looked at.\<close>

definition scan_number :: "string \<Rightarrow> bool \<times> string" where
  "scan_number s =
     (let t = dropWhile is_space s;
          negative = (t \<noteq> [] \<and> hd t = CHR ''-'');
          u = (if t \<noteq> [] \<and> (hd t = CHR ''-'' \<or> hd t = CHR ''+'') then tl t else t)
      in (negative, takeWhile is_digit u))"

definition stol :: "string \<Rightarrow> client_exn + int" where
  "stol s =
     (let (negative, ds) = scan_number s;
          v = (if negative then - int (decimal_value ds) else int (decimal_value ds))
      in if ds = [] then Inl (Logic_error ''stol: invalid argument'')
         else if v < - (2 ^ 63) \<or> v \<ge> 2 ^ 63 then Inl (Logic_error ''stol: out of range'')
         else Inr v)"

definition stoul :: "string \<Rightarrow> client_exn + u64" where
  "stoul s =
     (let (negative, ds) = scan_number s
      in if ds = [] then Inl (Logic_error ''stoul: invalid argument'')
         else if decimal_value ds \<ge> 2 ^ 64 then Inl (Logic_error ''stoul: out of range'')
         else Inr (if negative then - of_nat (decimal_value ds) else of_nat (decimal_value ds)))"

section \<open>Requests\<close>

definition field_text :: "string \<Rightarrow> string \<Rightarrow> string" where
  "field_text name val = (if name = [] then [] else name @ '':'' @ val @ [newline])"

text \<open>
  The buffer of the exchange is \<open>received_response\<close> itself; a runtime error of the connection
  becomes an error code.
\<close>

definition guarded_exchange :: "string \<Rightarrow> u64 \<Rightarrow> bool \<Rightarrow> bool service" where
  "guarded_exchange data bytes_to_read downloadingFile s =
     (case exchangeWithServer data bytes_to_read downloadingFile (connectionToServer s) of (r, c) \<Rightarrow>
        let s' = s\<lparr>connectionToServer := c, received_response := x_data c\<rparr>
        in case r of
             Inr answered \<Rightarrow> if answered then (Inr True, s') else (Inr False, s'\<lparr>error_code := E_CLOSED_CON\<rparr>)
           | Inl e \<Rightarrow> if is_runtime_error e then (Inr False, s'\<lparr>error_code := E_EXCHANGE_MESSAGE\<rparr>) else (Inl e, s'))"

definition sendAndGetResponse ::
  "string \<Rightarrow> string \<Rightarrow> string \<Rightarrow> string \<Rightarrow> string \<Rightarrow> string \<Rightarrow> string \<Rightarrow> bool service" where
  "sendAndGetResponse command_name name1 value1 name2 value2 name3 value3 s =
     (let s1 = s\<lparr>error_code := NONE\<rparr>
      in if length command_name > 6 \<or> length name1 + length value1 \<ge> BUF_MAX_SIZE - 1
            \<or> length name2 + length value2 \<ge> BUF_MAX_SIZE - 1 \<or> length name3 + length value3 \<ge> BUF_MAX_SIZE - 1
         then (Inr False, s1\<lparr>error_code := E_LINE_TOO_LONG\<rparr>)
         else
           let text = command_name @ [newline] @ field_text name1 value1 @ field_text name2 value2 @ field_text name3 value3 @ [newline]
           in guarded_exchange text 0 False (s1\<lparr>last_sent_command := text, received_response := text\<rparr>))"

definition downloadFileData :: "u64 \<Rightarrow> bool service" where
  "downloadFileData bytes_to_download s =
     (let text = ''dls'' @ [newline, newline]
      in guarded_exchange text bytes_to_download True
           (s\<lparr>error_code := NONE, last_sent_command := text, received_response := text\<rparr>))"

text \<open>Storing what an analyser returned: true for the code \<open>OK\<close>.\<close>

definition analysed :: "(ConnectionError \<times> string \<times> string) option \<Rightarrow> bool service" where
  "analysed r s =
     (case r of
        None \<Rightarrow> (Inl Past_buffer, s)
      | Some (code, response, body) \<Rightarrow>
          (Inr (code = OK), s\<lparr>error_code := code, received_response := response, response_body := body\<rparr>))"

definition analyse_simple :: "string \<Rightarrow> bool \<Rightarrow> bool service" where
  "analyse_simple command_name specific s =
     analysed (analyseSimpleResponse command_name (received_response s) (response_body s) specific) s"

definition analyse_multiline :: "string \<Rightarrow> bool service" where
  "analyse_multiline command_name s =
     analysed (analyseMultilineResponse command_name (received_response s) (response_body s)) s"

definition if_sent :: "bool service \<Rightarrow> bool service \<Rightarrow> bool service" where
  "if_sent send analyse = bind send (\<lambda>sent. if sent then analyse else ret False)"

definition quoted_text :: "string \<Rightarrow> string" where
  "quoted_text s = [apostrophe] @ s @ [apostrophe]"

section \<open>Methods\<close>

definition initConnection :: "connect_answers \<Rightarrow> bool service" where
  "initConnection k =
     catching (andthen (on_connection (connectToServer k)) (ret True))
       (\<lambda>e. case e of
              System_error n m \<Rightarrow> andthen (modify (\<lambda>s. s\<lparr>error_code := E_CON_TO_SERV\<rparr>)) (ret False)
            | _ \<Rightarrow> raise e)"

definition tdp_closeConnection :: "bool service" where
  "tdp_closeConnection =
     if_sent (sendAndGetResponse ''exit'' [] [] [] [] [] []) (andthen (on_connection closeConnection) (ret True))"

definition tdp_logout :: "bool service" where
  "tdp_logout = if_sent (sendAndGetResponse ''logout'' [] [] [] [] [] []) (analyse_simple ''logout'' False)"

definition tdp_auth :: "string \<Rightarrow> string \<Rightarrow> bool service" where
  "tdp_auth login passwd =
     if_sent (sendAndGetResponse ''auth'' ''login'' (if login = [] then ''.'' else quoted_text login)
                ''passwd'' (if passwd = [] then ''.'' else quoted_text passwd) [] [])
       (analyse_simple ''auth'' False)"

definition tdp_mkdir :: "string \<Rightarrow> bool service" where
  "tdp_mkdir name = if_sent (sendAndGetResponse ''mkdir'' ''name'' (quoted_text name) [] [] [] []) (analyse_simple ''mkdir'' False)"

definition tdp_rm :: "string \<Rightarrow> bool service" where
  "tdp_rm name = if_sent (sendAndGetResponse ''rm'' ''name'' (quoted_text name) [] [] [] []) (analyse_simple ''rm'' True)"

definition tdp_rename :: "string \<Rightarrow> string \<Rightarrow> bool service" where
  "tdp_rename oname nname =
     if_sent (sendAndGetResponse ''rename'' ''oname'' (quoted_text oname) ''nname'' (quoted_text nname) [] [])
       (analyse_simple ''rename'' False)"

definition tdp_cp :: "string \<Rightarrow> string \<Rightarrow> bool service" where
  "tdp_cp name path =
     if_sent (sendAndGetResponse ''cp'' ''name'' (quoted_text name) ''path'' (quoted_text path) [] []) (analyse_simple ''cp'' False)"

definition tdp_mv :: "string \<Rightarrow> string \<Rightarrow> bool service" where
  "tdp_mv name path =
     if_sent (sendAndGetResponse ''mv'' ''name'' (quoted_text name) ''path'' (quoted_text path) [] []) (analyse_simple ''mv'' False)"

definition tdp_cd :: "string \<Rightarrow> bool service" where
  "tdp_cd path = if_sent (sendAndGetResponse ''cd'' ''path'' (quoted_text path) [] [] [] []) (analyse_simple ''cd'' True)"

definition tdp_ls :: "string \<Rightarrow> string \<Rightarrow> string \<Rightarrow> bool service" where
  "tdp_ls path file_size modified =
     if_sent (sendAndGetResponse ''ls'' (if path = [] then [] else ''path'') (quoted_text path)
                (if file_size = [] then [] else ''size'') file_size (if modified = [] then [] else ''mod'') modified)
       (analyse_multiline ''ls'')"

definition tdp_tree :: "string \<Rightarrow> bool service" where
  "tdp_tree path =
     if_sent (sendAndGetResponse ''tree'' (if path = [] then [] else ''path'') (quoted_text path) [] [] [] [])
       (analyse_multiline ''tree'')"

definition tdp_name :: "bool service" where
  "tdp_name = if_sent (sendAndGetResponse ''name'' [] [] [] [] [] []) (analyse_simple ''name'' True)"

definition tdp_perms :: "bool service" where
  "tdp_perms = if_sent (sendAndGetResponse ''perms'' [] [] [] [] [] []) (analyse_simple ''perms'' True)"

definition tdp_pwd :: "bool service" where
  "tdp_pwd = if_sent (sendAndGetResponse ''pwd'' [] [] [] [] [] []) (analyse_simple ''pwd'' True)"

text \<open>The try block of a transfer: a runtime error makes it fail, other exceptions leave it.\<close>

definition transfer_guard :: "bool service \<Rightarrow> bool service" where
  "transfer_guard m = catching m (\<lambda>e. if is_runtime_error e then ret False else raise e)"

definition tdp_ul :: "string \<Rightarrow> local_file \<Rightarrow> bool \<Rightarrow> nat \<Rightarrow> bool service" where
  "tdp_ul name loc retry ctl =
     (case loc of
        Opened content \<Rightarrow>
          let file_size = of_nat (length content) :: u64
          in transfer_guard
               (if_sent
                  (if_sent (sendAndGetResponse ''ul'' ''name'' (quoted_text name) ''size'' (nat_to_string (unat file_size))
                              ''retry'' (if retry then ''true'' else ''false''))
                     (analyse_simple ''ul'' True))
                  (bind (gets response_body) (\<lambda>body.
                   bind (from_sum (stol body)) (\<lambda>offset.
                     on_connection (uploadFile content offset file_size ctl)))))
      | _ \<Rightarrow> ret False)"

definition tdp_dl :: "string \<Rightarrow> local_file \<Rightarrow> bool \<Rightarrow> bool service" where
  "tdp_dl name loc retry =
     (case loc of
        Opened old \<Rightarrow>
          let content = (if retry then old else [])
          in andthen (on_connection (modify (\<lambda>c. c\<lparr>c_file := content\<rparr>)))
               (transfer_guard
                 (if_sent
                    (if_sent (sendAndGetResponse ''dl'' ''name'' (quoted_text name) (if retry then ''size'' else [])
                                (if retry then nat_to_string (length content) else []) [] [])
                       (analyse_simple ''dl'' True))
                    (bind (gets response_body) (\<lambda>body. bind (from_sum (stoul body)) downloadFileData))))
      | _ \<Rightarrow> ret False)"

end
