(* ===== verification/Console_Tui.thy ===== *)
theory Console_Tui
  imports Tdp_Service
begin

text \<open>
  The console client's user interface (\<open>src/cli/src/tui/tui.cpp\<close>, \<open>modalinputwin.cpp\<close>,
  \<open>modalwarningwin.cpp\<close>) without its screens: what each button does with the service, the parsing
  of listings, and the decisions to reconnect. The widget library is not part of the repository:
  the events it delivers (a button pressed, an entry selected, a text entered) are inputs, as are
  the answers of the local file system; the windows shown are collected in \<open>tui_shown\<close>. A view
  whose events run out is still open: \<open>Waiting\<close>.
\<close>

section \<open>State\<close>

text \<open>A warning window: two lines, and whether it is one of failure.\<close>

record ModalWarningWin =
  first_line :: string
  second_line :: string
  isNegative :: bool

record Tui =
  tdpService :: TDPService
  needToReconnect :: bool
  terminateProgram :: bool
  tui_shown :: "ModalWarningWin list"

type_synonym 'a tui = "(client_exn, Tui, 'a) action"

definition new_tui :: "TDPService \<Rightarrow> Tui" where
  "new_tui s = \<lparr>tdpService = s, needToReconnect = True, terminateProgram = False, tui_shown = []\<rparr>"

definition on_service :: "'a service \<Rightarrow> 'a tui" where
  "on_service m t = (case m (tdpService t) of (r, s) \<Rightarrow> (r, t\<lparr>tdpService := s\<rparr>))"

definition showModalWindow :: "bool \<Rightarrow> string \<Rightarrow> string \<Rightarrow> unit tui" where
  "showModalWindow negative a b =
     modify (\<lambda>t. t\<lparr>tui_shown := tui_shown t @ [\<lparr>first_line = a, second_line = b, isNegative = negative\<rparr>]\<rparr>)"

abbreviation warning :: "string \<Rightarrow> string \<Rightarrow> unit tui" where
  "warning \<equiv> showModalWindow True"

definition mark_reconnect :: "unit tui" where
  "mark_reconnect = modify (\<lambda>t. t\<lparr>needToReconnect := True\<rparr>)"

definition still_connected :: "bool tui" where
  "still_connected = gets (\<lambda>t. \<not> needToReconnect t)"

section \<open>Connecting\<close>

text \<open>Up to five attempts, with a window after each failure; the fifth failure ends the program.\<close>

function connect_attempts :: "nat \<Rightarrow> (nat \<Rightarrow> connect_answers) \<Rightarrow> unit tui" where
  "connect_attempts attempt k =
     (if attempt \<le> 5 then
        bind (on_service (initConnection (k attempt))) (\<lambda>connected.
          if connected then modify (\<lambda>t. t\<lparr>needToReconnect := False\<rparr>)
          else andthen (warning ''Cannot connect to server.'' ''Try again.'')
            (if attempt = 5 then modify (\<lambda>t. t\<lparr>terminateProgram := True\<rparr>) else connect_attempts (attempt + 1) k))
      else modify (\<lambda>t. t\<lparr>needToReconnect := False\<rparr>))"
  by pat_completeness auto
termination
  by (relation "measure (\<lambda>(attempt, k). 6 - attempt)") auto

declare connect_attempts.simps [simp del]

definition tui_connectToServer :: "(nat \<Rightarrow> connect_answers) \<Rightarrow> unit tui" where
  "tui_connectToServer = connect_attempts 1"

definition checkIfShouldReconnect :: "bool tui" where
  "checkIfShouldReconnect =
     bind (gets (\<lambda>t. error_code (tdpService t))) (\<lambda>e.
       if e = E_CLOSED_CON \<or> e = E_EXCHANGE_MESSAGE then andthen mark_reconnect (ret True) else ret False)"

section \<open>Listings\<close>

text \<open>The words that \<open>operator>>\<close> extracts from a stream.\<close>

function stream_words :: "string \<Rightarrow> string list" where
  "stream_words [] = []"
| "stream_words (c # cs) =
     (if is_space c then stream_words cs
      else (c # takeWhile (\<lambda>c. \<not> is_space c) cs) # stream_words (dropWhile (\<lambda>c. \<not> is_space c) cs))"
  by pat_completeness auto
termination
  by (relation "measure length") (auto simp: le_imp_less_Suc length_dropWhile_le)

text \<open>Words joined by single spaces; removing the last character of an empty string is undefined.\<close>

definition joined_words :: "string \<Rightarrow> string tui" where
  "joined_words body =
     (let s = concat (map (\<lambda>w. w @ '' '') (stream_words body))
      in if s = [] then raise Past_buffer else ret (butlast s))"

text \<open>
  The number of spaces is an unsigned difference: when it wraps around, \<open>string(n, ' ')\<close> is longer
  than a string can be and throws \<open>std::length_error\<close>.
\<close>

definition column_spaces :: "nat \<Rightarrow> nat \<Rightarrow> client_exn + string" where
  "column_spaces width used =
     (if used > width then Inl (Logic_error ''basic_string::_M_create'')
      else if used < width then Inr (replicate (width - used) (CHR '' ''))
      else Inr '' '')"

text \<open>
  The name of an entry: words up to one that ends in a quotation mark. When the stream ends first
  the word stays the same and the loop goes on without end.
\<close>

primrec quoted_name :: "string list \<Rightarrow> string \<Rightarrow> string \<Rightarrow> (string \<times> string list) option" where
  "quoted_name [] word entry = (if ends_with word [quotation] then Some (entry @ butlast word, []) else None)"
| "quoted_name (w # ws) word entry =
     (if ends_with word [quotation] then Some (entry @ butlast word, w # ws)
      else quoted_name ws w (entry @ word @ '' ''))"

lemma quoted_name_shorter: "quoted_name ws word entry = Some (x, ws') \<Longrightarrow> length ws' \<le> length ws"
  by (induction ws arbitrary: word entry) (auto split: if_splits simp: le_SucI)

record listing =
  li_entries :: "string list"
  li_names :: "string list"

text \<open>The size column; the size of a directory is a dash, and its name gets a slash in both lists.\<close>

definition size_column :: "string \<Rightarrow> string \<Rightarrow> listing \<Rightarrow> client_exn + string \<times> listing" where
  "size_column entry word li =
     (let e = entry @ word;
          name = last (li_names li) @ ''/'';
          (e', li') = (if word = ''-'' then (name @ drop (length name) e, li\<lparr>li_names := butlast (li_names li) @ [name]\<rparr>) else (e, li))
      in map_sum id (\<lambda>spaces. (e' @ spaces, li')) (column_spaces 15 (length word)))"

text \<open>The words of an entry in turn: name, size, date and time.\<close>

function list_words :: "string list \<Rightarrow> nat \<Rightarrow> string \<Rightarrow> listing \<Rightarrow> client_exn + listing" where
  "list_words [] word_counter entry li = Inr li"
| "list_words (w # ws) word_counter entry li =
     (if word_counter = 0 then
        (case quoted_name ws (tl w) entry of
           None \<Rightarrow> Inl Waiting
         | Some (name, ws') \<Rightarrow>
             (case column_spaces 40 (length name) of
                Inl e \<Rightarrow> Inl e
              | Inr spaces \<Rightarrow> list_words ws' 1 (name @ spaces) (li\<lparr>li_names := li_names li @ [name]\<rparr>)))
      else if word_counter = 1 then
        (case size_column entry w li of
           Inl e \<Rightarrow> Inl e
         | Inr (entry', li') \<Rightarrow> list_words ws 2 entry' li')
      else if word_counter = 2 then list_words ws 3 (entry @ tl w @ '' '') li
      else list_words ws 0 [] (li\<lparr>li_entries := li_entries li @ [entry @ butlast w]\<rparr>))"
  by pat_completeness auto
termination
  by (relation "measure (\<lambda>(ws, c, e, l). length ws)") (auto dest: quoted_name_shorter simp: less_Suc_eq_le)

text \<open>The variables of a view of files.\<close>

record FilesView =
  location :: string
  file_entries :: "string list"
  file_names :: "string list"
  selected_file :: nat

definition new_view :: FilesView where
  "new_view = \<lparr>location = [], file_entries = [], file_names = [], selected_file = 0\<rparr>"

definition initial_listing :: "string \<Rightarrow> listing" where
  "initial_listing path =
     (if path \<noteq> ''/'' then \<lparr>li_entries = [''../''], li_names = [''../'']\<rparr> else \<lparr>li_entries = [], li_names = []\<rparr>)"

definition updateFilesEntries :: "FilesView \<Rightarrow> (bool \<times> FilesView) tui" where
  "updateFilesEntries v =
     bind (on_service tdp_pwd) (\<lambda>known.
       if \<not> known then andthen mark_reconnect (ret (False, v))
       else
         bind (gets (\<lambda>t. response_body (tdpService t))) (\<lambda>body.
         bind (joined_words body) (\<lambda>path.
         bind (on_service (tdp_ls path ''true'' ''true'')) (\<lambda>listed.
           if \<not> listed then andthen mark_reconnect (ret (False, v\<lparr>location := path\<rparr>))
           else
             bind (gets (\<lambda>t. response_body (tdpService t))) (\<lambda>ls_result.
             bind (from_sum (list_words (stream_words ls_result) 0 [] (initial_listing path))) (\<lambda>li.
               ret (True, v\<lparr>location := path, file_entries := li_entries li, file_names := li_names li\<rparr>)))))))"

definition getUserName :: "string option tui" where
  "getUserName =
     bind (on_service tdp_name) (\<lambda>known.
       if \<not> known then andthen mark_reconnect (ret None)
       else bind (gets (\<lambda>t. response_body (tdpService t))) (\<lambda>body. bind (joined_words body) (\<lambda>name. ret (Some name))))"

section \<open>Buttons\<close>

text \<open>A failed call: mark the connection as lost, or show a window.\<close>

definition warn_unless_lost :: "string \<Rightarrow> string \<Rightarrow> unit tui" where
  "warn_unless_lost a b = bind checkIfShouldReconnect (\<lambda>lost. if lost then ret () else warning a b)"

definition changeDirectory :: "string \<Rightarrow> FilesView \<Rightarrow> (bool \<times> FilesView) tui" where
  "changeDirectory dir_name v =
     (if ends_with dir_name ''/'' then
        bind (on_service (tdp_cd dir_name)) (\<lambda>changed.
          if \<not> changed then
            bind checkIfShouldReconnect (\<lambda>lost.
              if \<not> lost then andthen (warning '' Error occured while '' '' changing directory. '') (ret (True, v))
              else ret (False, v))
          else
            bind (updateFilesEntries v) (\<lambda>(updated, v').
              if \<not> updated then ret (False, v') else ret (True, v'\<lparr>selected_file := 0\<rparr>)))
      else ret (True, v))"

definition strip_slash :: "string \<Rightarrow> string" where
  "strip_slash n = (if ends_with n ''/'' then butlast n else n)"

text \<open>Whether the user confirmed is an input.\<close>

definition deleteFileView :: "string \<Rightarrow> bool \<Rightarrow> bool tui" where
  "deleteFileView file_to_delete confirmed =
     (let file_name = strip_slash file_to_delete
      in andthen
           (if confirmed then
              bind (on_service (tdp_rm file_name)) (\<lambda>removed.
                if removed then ret () else warn_unless_lost ''Cannot delete file:'' file_name)
            else ret ())
           still_connected)"

text \<open>The text entered in an input window, or \<open>None\<close> when it was cancelled.\<close>

type_synonym modal_input = "string option"

definition createDir :: "modal_input \<Rightarrow> bool tui" where
  "createDir inp =
     andthen
       (case inp of
          None \<Rightarrow> ret ()
        | Some dir_name \<Rightarrow>
            bind (if dir_name = [] then ret False else on_service (tdp_mkdir dir_name)) (\<lambda>created.
              if created then ret () else warn_unless_lost ''Cannot create directory'' dir_name))
       still_connected"

definition renameFile :: "string \<Rightarrow> modal_input \<Rightarrow> bool tui" where
  "renameFile old_name inp =
     (let o_name = strip_slash old_name
      in andthen
           (case inp of
              None \<Rightarrow> ret ()
            | Some new_name \<Rightarrow>
                bind (if new_name = [] then ret False else on_service (tdp_rename o_name new_name)) (\<lambda>renamed.
                  if renamed then ret () else warn_unless_lost ''Cannot rename file/directory'' o_name))
           still_connected)"

text \<open>
  The path window: an input line with two buttons, and above it, after Return, a menu of files
  with a button. Events that the window on top does not take have no effect.
\<close>

datatype path_event =
    Path_text string | Path_enter | Path_operation | Path_cancel
  | Path_select nat | Path_open | Path_ok

definition selected_name :: "FilesView \<Rightarrow> string tui" where
  "selected_name v = (if selected_file v < length (file_names v) then ret (file_names v ! selected_file v) else raise Past_buffer)"

text \<open>The result says whether the operation button was pressed, and the path.\<close>

primrec path_window :: "path_event list \<Rightarrow> string \<Rightarrow> bool \<Rightarrow> FilesView \<Rightarrow> (bool \<times> string) tui" where
  "path_window [] path menu_open v = raise Waiting"
| "path_window (ev # evs) path menu_open v =
     (case (ev, menu_open) of
        (Path_text s, False) \<Rightarrow> path_window evs s False v
      | (Path_enter, False) \<Rightarrow> path_window evs path True v
      | (Path_operation, False) \<Rightarrow> ret (True, path)
      | (Path_cancel, False) \<Rightarrow> ret (False, path)
      | (Path_select i, True) \<Rightarrow> path_window evs path True (v\<lparr>selected_file := i\<rparr>)
      | (Path_open, True) \<Rightarrow>
          bind (selected_name v) (\<lambda>name.
          bind (changeDirectory name v) (\<lambda>(go_on, v').
            if go_on then path_window evs path True v' else ret (False, path)))
      | (Path_ok, True) \<Rightarrow> path_window evs (location v) False v
      | _ \<Rightarrow> path_window evs path menu_open v)"

definition showPathSelectWind :: "path_event list \<Rightarrow> string \<Rightarrow> (bool \<times> string) tui" where
  "showPathSelectWind evs path =
     bind (updateFilesEntries new_view) (\<lambda>(updated, v).
       if \<not> updated then andthen mark_reconnect (ret (False, path)) else path_window evs path False v)"

text \<open>Copying and moving differ in the command and the texts.\<close>

definition place_file :: "(string \<Rightarrow> string \<Rightarrow> bool service) \<Rightarrow> string \<Rightarrow> string \<Rightarrow> string \<Rightarrow> path_event list \<Rightarrow> bool tui" where
  "place_file command title file_name current_location evs =
     andthen
       (if ends_with file_name ''/'' then ret ()
        else bind (showPathSelectWind evs current_location) (\<lambda>(proceed, selected_path).
          if proceed then
            if selected_path = [] then warning title file_name
            else bind (on_service (tdp_cd current_location)) (\<lambda>back.
                 bind (if back then on_service (command file_name selected_path) else ret False) (\<lambda>placed.
                   if placed then ret () else warn_unless_lost title file_name))
          else bind still_connected (\<lambda>connected.
            if \<not> connected then ret ()
            else bind (on_service (tdp_cd current_location)) (\<lambda>back.
              if back then ret () else warn_unless_lost title file_name))))
       still_connected"

definition copyFile :: "string \<Rightarrow> string \<Rightarrow> path_event list \<Rightarrow> bool tui" where
  "copyFile = place_file tdp_cp '' Cannot copy file ''"

definition moveFile :: "string \<Rightarrow> string \<Rightarrow> path_event list \<Rightarrow> bool tui" where
  "moveFile = place_file tdp_mv '' Cannot move file ''"

text \<open>The folder for transfers; the result of creating it is an input, zero for success.\<close>

definition create_folder :: "nat \<Rightarrow> unit tui" where
  "create_folder errno = (if errno \<noteq> 0 then raise (System_error errno ''create_directory'') else ret ())"

definition downloadFile :: "string \<Rightarrow> string \<Rightarrow> nat \<Rightarrow> local_file \<Rightarrow> bool tui" where
  "downloadFile PATH_TO_FOLDER file_name folder loc =
     andthen
       (if ends_with file_name ''/'' then ret ()
        else andthen (create_folder folder)
          (bind (on_service (tdp_dl file_name loc False)) (\<lambda>downloaded.
           bind (if downloaded then ret True else checkIfShouldReconnect) (\<lambda>positive.
             if \<not> positive then warning '' Cannot download file '' file_name
             else showModalWindow False ('' Downloaded file '' @ quoted_text file_name @ '' into '') PATH_TO_FOLDER))))
       still_connected"

definition tui_uploadFile :: "modal_input \<Rightarrow> nat \<Rightarrow> local_file \<Rightarrow> nat \<Rightarrow> bool tui" where
  "tui_uploadFile inp folder loc ctl =
     andthen
       (case inp of
          None \<Rightarrow> ret ()
        | Some file_name \<Rightarrow>
            andthen (create_folder folder)
              (bind (if file_name = [] then ret False else on_service (tdp_ul file_name loc False ctl)) (\<lambda>uploaded.
                if uploaded then ret () else warn_unless_lost '' Cannot upload file '' file_name)))
       still_connected"

section \<open>Views\<close>

datatype view_event =
    Press_logout
  | Select_entry nat
  | Enter_entry
  | Press_create modal_input
  | Press_rename modal_input
  | Press_copy "path_event list"
  | Press_move "path_event list"
  | Press_delete bool
  | Press_upload modal_input nat local_file nat
  | Press_download nat local_file

text \<open>A button's action, and the new listing when it succeeded.\<close>

definition then_update :: "bool tui \<Rightarrow> FilesView \<Rightarrow> (bool \<times> FilesView) tui" where
  "then_update m v = bind m (\<lambda>go_on. if \<not> go_on then ret (False, v) else updateFilesEntries v)"

definition on_selected :: "(string \<Rightarrow> bool tui) \<Rightarrow> FilesView \<Rightarrow> (bool \<times> FilesView) tui" where
  "on_selected f v =
     bind (selected_name v) (\<lambda>name. if name \<noteq> ''../'' then then_update (f name) v else ret (True, v))"

text \<open>False presses the logout button, which closes the view.\<close>

fun view_event_step :: "string \<Rightarrow> view_event \<Rightarrow> FilesView \<Rightarrow> (bool \<times> FilesView) tui" where
  "view_event_step folder_path Press_logout v = ret (False, v)"
| "view_event_step folder_path (Select_entry i) v = ret (True, v\<lparr>selected_file := i\<rparr>)"
| "view_event_step folder_path Enter_entry v = bind (selected_name v) (\<lambda>name. changeDirectory name v)"
| "view_event_step folder_path (Press_create inp) v = then_update (createDir inp) v"
| "view_event_step folder_path (Press_rename inp) v = on_selected (\<lambda>name. renameFile name inp) v"
| "view_event_step folder_path (Press_copy evs) v = on_selected (\<lambda>name. copyFile name (location v) evs) v"
| "view_event_step folder_path (Press_move evs) v = on_selected (\<lambda>name. moveFile name (location v) evs) v"
| "view_event_step folder_path (Press_delete confirmed) v = on_selected (\<lambda>name. deleteFileView name confirmed) v"
| "view_event_step folder_path (Press_upload inp folder loc ctl) v = then_update (tui_uploadFile inp folder loc ctl) v"
| "view_event_step folder_path (Press_download folder loc) v =
     bind (selected_name v) (\<lambda>name. then_update (downloadFile folder_path name folder loc) v)"

primrec files_loop :: "string \<Rightarrow> view_event list \<Rightarrow> FilesView \<Rightarrow> unit tui" where
  "files_loop folder_path [] v = raise Waiting"
| "files_loop folder_path (ev # evs) v =
     bind (view_event_step folder_path ev v) (\<lambda>(go_on, v'). if go_on then files_loop folder_path evs v' else ret ())"

definition showFilesView :: "string \<Rightarrow> view_event list \<Rightarrow> unit tui" where
  "showFilesView folder_path evs =
     bind getUserName (\<lambda>user_name.
       if user_name = None then mark_reconnect
       else bind (updateFilesEntries new_view) (\<lambda>(updated, v).
         if \<not> updated then mark_reconnect else files_loop folder_path evs v))"

definition logInUser :: "string \<Rightarrow> string \<Rightarrow> string \<Rightarrow> view_event list \<Rightarrow> unit tui" where
  "logInUser folder_path login password evs =
     bind (on_service (tdp_auth login password)) (\<lambda>authorized.
       if \<not> authorized then
         bind (gets (\<lambda>t. error_code (tdpService t))) (\<lambda>e.
           if e = E_INVALID_CREDENTIALS \<or> e = E_BAD_FIELD then warning ''Wrong login and/or password.'' ''Try again.''
           else bind still_connected (\<lambda>connected.
             if connected \<and> e = E_CLOSED_CON
             then andthen (warning ''Wrong login and/or password.'' ''Try again.'') mark_reconnect else ret ()))
       else andthen (showFilesView folder_path evs)
         (bind (on_service tdp_logout) (\<lambda>left. if left then ret () else mark_reconnect)))"

datatype login_event = Press_quit | Sign_in string string "view_event list"

primrec login_loop :: "string \<Rightarrow> login_event list \<Rightarrow> unit tui" where
  "login_loop folder_path [] = raise Waiting"
| "login_loop folder_path (ev # evs) =
     (case ev of
        Press_quit \<Rightarrow> ret ()
      | Sign_in login passwd view_evs \<Rightarrow>
          andthen (logInUser folder_path login passwd view_evs)
            (bind still_connected (\<lambda>connected. if connected then login_loop folder_path evs else ret ())))"

definition showLoginView :: "string \<Rightarrow> (nat \<Rightarrow> connect_answers) \<Rightarrow> login_event list \<Rightarrow> unit tui" where
  "showLoginView folder_path k evs =
     bind still_connected (\<lambda>connected.
       if \<not> connected then
         andthen (tui_connectToServer k)
           (bind (gets terminateProgram) (\<lambda>terminate. if terminate then ret () else login_loop folder_path evs))
       else login_loop folder_path evs)"

text \<open>Each turn of the loop is a login view with its own answers and events.\<close>

primrec runTDPClient :: "string \<Rightarrow> ((nat \<Rightarrow> connect_answers) \<times> login_event list) list \<Rightarrow> unit tui" where
  "runTDPClient folder_path [] = raise Waiting"
| "runTDPClient folder_path (x # xs) =
     andthen (showLoginView folder_path (fst x) (snd x))
       (bind (gets (\<lambda>t. needToReconnect t \<and> \<not> terminateProgram t)) (\<lambda>again.
          if again then runTDPClient folder_path xs else ret ()))"

section \<open>Connecting\<close>

text \<open>When an attempt succeeds, and how many descriptors a failed one leaves open.\<close>

definition attempt_succeeds :: "connect_answers \<Rightarrow> bool" where
  "attempt_succeeds k \<longleftrightarrow> ka_socket k = 0 \<and> ka_epoll_create k = 0 \<and> ka_epoll_add k = 0 \<and>
     (ka_connect k = 0 \<or> (ka_connect k = EINPROGRESS \<or> ka_connect k = EAGAIN) \<and> checkIfConnectingSucceeded k)"

definition opened_fds :: "connect_answers \<Rightarrow> nat" where
  "opened_fds k = (if ka_socket k \<noteq> 0 then 0 else if ka_epoll_create k \<noteq> 0 then 1 else 2)"

abbreviation tui_connection :: "Tui \<Rightarrow> Connection" where
  "tui_connection t \<equiv> connectionToServer (tdpService t)"

lemma connectToServer_run:
  assumes "\<not> isConnectionOpen c"
  shows "\<exists>r c'. connectToServer k c = (r, c') \<and> isConnectionOpen c' = attempt_succeeds k \<and> c_fds c' = c_fds c + opened_fds k \<and>
    (if attempt_succeeds k then r = Inr () else (\<exists>n m. r = Inl (System_error n m)))"
  using assms
  by (simp add: connectToServer_def createSocket_def closeConnection_def attempt_succeeds_def opened_fds_def
      bind_def andthen_def) auto

lemma initConnection_run:
  assumes "\<not> isConnectionOpen (tui_connection t)"
  shows "\<exists>s. on_service (initConnection k) t = (Inr (attempt_succeeds k), t\<lparr>tdpService := s\<rparr>) \<and>
    isConnectionOpen (connectionToServer s) = attempt_succeeds k \<and>
    c_fds (connectionToServer s) = c_fds (tui_connection t) + opened_fds k"
proof -
  from connectToServer_run [OF assms, of k] obtain r c' where c: "connectToServer k (tui_connection t) = (r, c')"
    "isConnectionOpen c' = attempt_succeeds k" "c_fds c' = c_fds (tui_connection t) + opened_fds k"
    "if attempt_succeeds k then r = Inr () else (\<exists>n m. r = Inl (System_error n m))" by blast
  then show ?thesis
    by (cases "attempt_succeeds k") (auto simp: on_service_def initConnection_def catching_def andthen_def bind_def on_connection_def)
qed

text \<open>The attempts made: up to the first success.\<close>

definition failed_attempts :: "(nat \<Rightarrow> connect_answers) \<Rightarrow> nat \<Rightarrow> nat list" where
  "failed_attempts k attempt = takeWhile (\<lambda>i. \<not> attempt_succeeds (k i)) [attempt..<6]"

definition no_connection_window :: ModalWarningWin where
  "no_connection_window = \<lparr>first_line = ''Cannot connect to server.'', second_line = ''Try again.'', isNegative = True\<rparr>"

lemma attempts_left:
  assumes "attempt \<le> 5"
  shows "failed_attempts k attempt = (if attempt_succeeds (k attempt) then [] else attempt # failed_attempts k (attempt + 1))"
  using assms by (simp add: failed_attempts_def upt_rec [of attempt])

text \<open>The state after the attempts from a given one on, when five is the last.\<close>

definition connect_outcome :: "(nat \<Rightarrow> connect_answers) \<Rightarrow> nat \<Rightarrow> Tui \<Rightarrow> Tui \<Rightarrow> bool" where
  "connect_outcome k attempt t t' \<longleftrightarrow>
     (let failed = failed_attempts k attempt; gave_up = (length failed = 6 - attempt)
      in needToReconnect t' = (needToReconnect t \<and> gave_up) \<and> terminateProgram t' = (terminateProgram t \<or> gave_up) \<and>
         tui_shown t' = tui_shown t @ replicate (length failed) no_connection_window \<and>
         isConnectionOpen (tui_connection t') = (\<not> gave_up) \<and>
         c_fds (tui_connection t') = c_fds (tui_connection t) + sum_list (map (opened_fds \<circ> k) failed) + (if gave_up then 0 else 2))"

lemma connect_attempts_run:
  assumes "\<not> isConnectionOpen (tui_connection t)" and "attempt \<le> 5"
  shows "\<exists>t'. connect_attempts attempt k t = (Inr (), t') \<and> connect_outcome k attempt t t'"
  using assms
proof (induction attempt k arbitrary: t rule: connect_attempts.induct)
  case (1 attempt k)
  from initConnection_run [OF 1(2), of "k attempt"] obtain s where
    s: "on_service (initConnection (k attempt)) t = (Inr (attempt_succeeds (k attempt)), t\<lparr>tdpService := s\<rparr>)"
      "isConnectionOpen (connectionToServer s) = attempt_succeeds (k attempt)"
      "c_fds (connectionToServer s) = c_fds (tui_connection t) + opened_fds (k attempt)" by blast
  show ?case
  proof (cases "attempt_succeeds (k attempt)")
    case True
    then have "opened_fds (k attempt) = 2" by (simp add: attempt_succeeds_def opened_fds_def)
    with True s 1(3) show ?thesis
      by (subst connect_attempts.simps) (simp add: bind_def attempts_left connect_outcome_def)
  next
    case False
    let ?t = "t\<lparr>tdpService := s, tui_shown := tui_shown t @ [no_connection_window]\<rparr>"
    have step: "connect_attempts attempt k t =
        (if attempt = 5 then (Inr (), ?t\<lparr>terminateProgram := True\<rparr>) else connect_attempts (attempt + 1) k ?t)"
      using s(1) False 1(3) by (subst connect_attempts.simps)
        (simp add: bind_def andthen_def showModalWindow_def no_connection_window_def)
    show ?thesis
    proof (cases "attempt = 5")
      case True
      with False have "failed_attempts k 5 = [5]" by (simp add: failed_attempts_def upt_rec [of 5])
      with step True s(2,3) False show ?thesis by (simp add: connect_outcome_def)
    next
      case more: False
      then have "\<not> isConnectionOpen (tui_connection ?t)" "attempt + 1 \<le> 5" using s(2) False 1(3) by auto
      with 1(1) [OF 1(3) False more, of ?t] obtain t' where
        t': "connect_attempts (attempt + 1) k ?t = (Inr (), t')" "connect_outcome k (attempt + 1) ?t t'" by auto
      have "6 - attempt = Suc (6 - (attempt + 1))" using 1(3) by simp
      with t'(2) s(3) False have "connect_outcome k attempt t t'"
        unfolding connect_outcome_def Let_def attempts_left [OF 1(3)] by simp
      with step more t'(1) show ?thesis by simp
    qed
  qed
qed

section \<open>Views\<close>

text \<open>
  \<open>stays_up m\<close>: starting connected, an action that returns a flag returns it as true exactly if
  the client still counts as connected.
\<close>

definition stays_up :: "('a \<Rightarrow> bool) \<Rightarrow> 'a tui \<Rightarrow> bool" where
  "stays_up flag m \<longleftrightarrow> (\<forall>t r t'. \<not> needToReconnect t \<longrightarrow> m t = (Inr r, t') \<longrightarrow> flag r = (\<not> needToReconnect t'))"

text \<open>Actions that leave the flag for reconnecting alone.\<close>

definition neutral :: "'a tui \<Rightarrow> bool" where
  "neutral m \<longleftrightarrow> (\<forall>t. needToReconnect (snd (m t)) = needToReconnect t)"

lemma neutralD: "neutral m \<Longrightarrow> m t = (r, t') \<Longrightarrow> needToReconnect t' = needToReconnect t"
  by (metis neutral_def snd_conv)

lemma neutral_basic: "neutral (ret x)" "neutral (raise e)" "neutral (gets f)" "neutral (from_sum q)" "neutral (showModalWindow b x y)"
    "neutral (on_service m)" "neutral (joined_words s)" "neutral (selected_name v)" "neutral (create_folder n)"
  by (auto simp: neutral_def showModalWindow_def on_service_def joined_words_def selected_name_def create_folder_def Let_def split: prod.splits)

lemma stays_up_bind:
  assumes "neutral m" and "\<And>x. stays_up flag (f x)"
  shows "stays_up flag (bind m f)"
  unfolding stays_up_def
proof (intro allI impI)
  fix t r t' assume "\<not> needToReconnect t" "bind m f t = (Inr r, t')"
  then obtain x u where "m t = (Inr x, u)" "f x u = (Inr r, t')" by (blast elim: bind_InrE)
  moreover from this(1) have "\<not> needToReconnect u" using neutralD [OF assms(1)] \<open>\<not> needToReconnect t\<close> by blast
  ultimately show "flag r = (\<not> needToReconnect t')" using assms(2) by (auto simp: stays_up_def)
qed

lemma stays_up_andthen: "neutral m \<Longrightarrow> stays_up flag n \<Longrightarrow> stays_up flag (andthen m n)"
  unfolding andthen_def by (rule stays_up_bind)

lemma stays_up_still: "stays_up id (andthen m still_connected)"
  by (auto simp: stays_up_def andthen_def still_connected_def bind_def split: prod.splits sum.splits)

lemma stays_up_ret: "flag x \<Longrightarrow> stays_up flag (ret x)" "\<not> flag x \<Longrightarrow> stays_up flag (andthen mark_reconnect (ret x))"
    "stays_up flag (raise e)"
  by (auto simp: stays_up_def mark_reconnect_def andthen_def)

lemma stays_up_if: "stays_up flag m \<Longrightarrow> stays_up flag n \<Longrightarrow> stays_up flag (if b then m else n)"
  by simp

lemma updateFilesEntries_up: "stays_up fst (updateFilesEntries v)"
  unfolding updateFilesEntries_def by (intro stays_up_bind neutral_basic stays_up_if stays_up_ret) simp_all

text \<open>After the connection was lost: the flag stays false.\<close>

definition stays_lost :: "('a \<Rightarrow> bool) \<Rightarrow> 'a tui \<Rightarrow> bool" where
  "stays_lost flag m \<longleftrightarrow> (\<forall>t r t'. needToReconnect t \<longrightarrow> m t = (Inr r, t') \<longrightarrow> \<not> flag r \<and> needToReconnect t')"

lemma stays_upD: "stays_up flag m \<Longrightarrow> \<not> needToReconnect t \<Longrightarrow> m t = (Inr r, t') \<Longrightarrow> flag r = (\<not> needToReconnect t')"
  and stays_lostD: "stays_lost flag m \<Longrightarrow> needToReconnect t \<Longrightarrow> m t = (Inr r, t') \<Longrightarrow> \<not> flag r \<and> needToReconnect t'"
  unfolding stays_up_def stays_lost_def by blast+

lemma stays_lost_ret: "\<not> flag x \<Longrightarrow> stays_lost flag (ret x)"
  by (simp add: stays_lost_def)

lemma stays_up_step:
  assumes "stays_up g m" and "\<And>x. g x \<Longrightarrow> stays_up flag (f x)" and "\<And>x. \<not> g x \<Longrightarrow> stays_lost flag (f x)"
  shows "stays_up flag (bind m f)"
  unfolding stays_up_def
proof (intro allI impI)
  fix t r t' assume t: "\<not> needToReconnect t" "bind m f t = (Inr r, t')"
  then obtain x u where x: "m t = (Inr x, u)" "f x u = (Inr r, t')" by (blast elim: bind_InrE)
  with t assms(1) have g: "g x = (\<not> needToReconnect u)" by (auto simp: stays_up_def)
  show "flag r = (\<not> needToReconnect t')"
  proof (cases "g x")
    case True
    with g have "\<not> needToReconnect u" by simp
    from stays_upD [OF assms(2) [OF True] this x(2)] show ?thesis .
  next
    case False
    with g have "needToReconnect u" by simp
    from stays_lostD [OF assms(3) [OF False] this x(2)] show ?thesis by simp
  qed
qed

lemma check_up: "stays_up Not checkIfShouldReconnect"
  unfolding checkIfShouldReconnect_def by (intro stays_up_bind neutral_basic stays_up_if stays_up_ret) simp_all

lemma changeDirectory_up: "stays_up fst (changeDirectory dir v)"
proof -
  have refused: "stays_up fst (bind checkIfShouldReconnect (\<lambda>lost.
      if \<not> lost then andthen (warning '' Error occured while '' '' changing directory. '') (ret (True, v)) else ret (False, v)))"
    by (rule stays_up_step [OF check_up])
      (simp_all add: stays_up_andthen [OF neutral_basic(5)] stays_up_ret stays_lost_ret)
  have changed: "stays_up fst (bind (updateFilesEntries v) (\<lambda>(updated, v').
      if \<not> updated then ret (False, v') else ret (True, v'\<lparr>selected_file := 0\<rparr>)))"
    by (rule stays_up_step [OF updateFilesEntries_up]) (simp_all add: stays_up_ret stays_lost_ret case_prod_beta)
  show ?thesis unfolding changeDirectory_def
    by (intro stays_up_if stays_up_bind neutral_basic refused changed stays_up_ret) simp
qed

lemma then_update_up: "stays_up id m \<Longrightarrow> stays_up fst (then_update m v)"
  unfolding then_update_def by (rule stays_up_step [where g = id]) (simp_all add: updateFilesEntries_up stays_lost_ret)

lemma buttons_up:
  "stays_up id (createDir inp)" "stays_up id (renameFile n inp)" "stays_up id (copyFile n l evs)" "stays_up id (moveFile n l evs)"
  "stays_up id (deleteFileView n b)" "stays_up id (tui_uploadFile inp k loc ctl)" "stays_up id (downloadFile p n k loc)"
  by (simp_all add: createDir_def renameFile_def copyFile_def moveFile_def place_file_def deleteFileView_def Let_def
      tui_uploadFile_def downloadFile_def stays_up_still)

lemma on_selected_up: "(\<And>n. stays_up id (f n)) \<Longrightarrow> stays_up fst (on_selected f v)"
  unfolding on_selected_def by (intro stays_up_bind neutral_basic stays_up_if then_update_up stays_up_ret) simp_all

lemma view_step_up: "ev \<noteq> Press_logout \<Longrightarrow> stays_up fst (view_event_step p ev v)"
  by (cases ev) (simp_all add: stays_up_bind neutral_basic then_update_up on_selected_up buttons_up changeDirectory_up stays_up_ret)

lemma files_loop_ends:
  assumes "files_loop p evs v t = (Inr (), t')" and "\<not> needToReconnect t"
  shows "\<exists>before later. if needToReconnect t' then evs = before @ later \<and> Press_logout \<notin> set before \<and> before \<noteq> []
    else evs = before @ Press_logout # later \<and> Press_logout \<notin> set before"
  using assms
proof (induction evs arbitrary: v t)
  case (Cons ev evs)
  from Cons.prems(1) obtain go v' u where step: "view_event_step p ev v t = (Inr (go, v'), u)"
      "(if go then files_loop p evs v' else ret ()) u = (Inr (), t')"
    by (auto elim!: bind_InrE)
  show ?case
  proof (cases "ev = Press_logout")
    case True
    with step Cons.prems(2) show ?thesis by (intro exI [of _ "[]"] exI [of _ evs]) auto
  next
    case False
    with view_step_up [OF False, of p v] step(1) Cons.prems(2) have go: "go = (\<not> needToReconnect u)" by (auto simp: stays_up_def)
    show ?thesis
    proof (cases go)
      case True
      with step(2) go Cons.IH [of v' u] obtain before later where "if needToReconnect t' then evs = before @ later \<and> Press_logout \<notin> set before \<and> before \<noteq> []
    else evs = before @ Press_logout # later \<and> Press_logout \<notin> set before" by auto
      with False show ?thesis by (intro exI [of _ "ev # before"] exI [of _ later]) auto
    next
      case lost: False
      with step(2) go False show ?thesis by (intro exI [of _ "[ev]"] exI [of _ evs]) auto
    qed
  qed
qed simp

section \<open>Downloads\<close>

text \<open>A download that failed because the connection was lost is reported as done.\<close>

lemma lost_download_reported:
  assumes "\<not> ends_with n ''/''" and "tdp_dl n loc False (tdpService t) = (Inr False, s)" and "error_code s = E_CLOSED_CON"
  shows "\<exists>t'. downloadFile p n 0 loc t = (Inr False, t') \<and> isNegative (last (tui_shown t')) = False \<and> second_line (last (tui_shown t')) = p"
  using assms by (simp add: downloadFile_def create_folder_def checkIfShouldReconnect_def showModalWindow_def mark_reconnect_def
      still_connected_def on_service_def bind_def andthen_def)

section \<open>Properties\<close>

text \<open>
  C36: a view of files closes only by logging out or because the connection counts as lost.
  Whatever button is pressed while the client is connected, and whatever the server answers, a
  handler that returns normally keeps the view open exactly if the flag for reconnecting is still
  clear; so when the view has returned, either the flag is set or the events up to there end with
  the logout button.
\<close>

theorem view_open_while_connected:
  assumes "\<not> needToReconnect t"
  shows "(\<forall>ev v go v' u. ev \<noteq> Press_logout \<longrightarrow> view_event_step p ev v t = (Inr (go, v'), u) \<longrightarrow> go = (\<not> needToReconnect u)) \<and>
    (\<forall>evs v t'. files_loop p evs v t = (Inr (), t') \<longrightarrow>
       needToReconnect t' \<or> (\<exists>before later. evs = before @ Press_logout # later \<and> Press_logout \<notin> set before))"
proof (intro conjI allI impI)
  fix ev v go v' u
  assume "ev \<noteq> Press_logout" and "view_event_step p ev v t = (Inr (go, v'), u)"
  from stays_upD [OF view_step_up [OF this(1)] assms this(2)] show "go = (\<not> needToReconnect u)" by simp
next
  fix evs v t'
  assume "files_loop p evs v t = (Inr (), t')"
  from files_loop_ends [OF this assms]
  show "needToReconnect t' \<or> (\<exists>before later. evs = before @ Press_logout # later \<and> Press_logout \<notin> set before)"
    by (auto split: if_splits)
qed

theorem view_open_while_connected_witness:
  "\<exists>t'. files_loop ''/TinDox'' [Select_entry 3, Press_create (Some ''d''), Press_create None] new_view
     ((new_tui (new_service (new_connection [])))\<lparr>needToReconnect := False\<rparr>) = (Inr (), t') \<and> needToReconnect t'"
proof -
  let ?t = "(new_tui (new_service (new_connection [])))\<lparr>needToReconnect := False\<rparr>"
    and ?evs = "[Select_entry 3, Press_create (Some ''d''), Press_create None]"
  have "fst (files_loop ''/TinDox'' ?evs new_view ?t) = Inr ()" by code_simp
  then obtain t' where t': "files_loop ''/TinDox'' ?evs new_view ?t = (Inr (), t')" by (metis prod.collapse)
  have "\<not> needToReconnect ?t" by simp
  from view_open_while_connected [OF this] t'
  have "needToReconnect t' \<or> (\<exists>before later. ?evs = before @ Press_logout # later \<and> Press_logout \<notin> set before)" by blast
  moreover have "Press_logout \<notin> set ?evs" by simp
  ultimately have "needToReconnect t'" by (metis in_set_conv_decomp)
  with t' show ?thesis by blast
qed

text \<open>
  C37: connecting. A client that is not connected makes attempts until one succeeds, at most five,
  and shows a window after each that failed. It ends connected, or, after five failures, with the
  flag that ends the program. Every failed attempt leaves its socket and its epoll descriptor open.
\<close>

theorem connecting_outcome:
  assumes "\<not> isConnectionOpen (tui_connection t)" and "needToReconnect t" and "\<not> terminateProgram t"
    and "failed = failed_attempts k 1"
  shows "\<exists>t'. tui_connectToServer k t = (Inr (), t') \<and>
    tui_shown t' = tui_shown t @ replicate (length failed) no_connection_window \<and>
    isConnectionOpen (tui_connection t') = (length failed < 5) \<and> needToReconnect t' = (length failed = 5) \<and>
    terminateProgram t' = (length failed = 5) \<and>
    c_fds (tui_connection t') = c_fds (tui_connection t) + sum_list (map (opened_fds \<circ> k) failed) + (if length failed = 5 then 0 else 2)"
proof -
  obtain t' where t': "connect_attempts 1 k t = (Inr (), t')" "connect_outcome k 1 t t'"
    using connect_attempts_run [OF assms(1), of 1 k] by auto
  have "length failed \<le> 5" using length_takeWhile_le [of _ "[1..<6]"] unfolding assms(4) failed_attempts_def by simp
  then have "(length failed < 5) = (length failed \<noteq> 5)" by auto
  with t' assms(2-4) show ?thesis by (auto simp: tui_connectToServer_def connect_outcome_def Let_def)
qed

definition refused_answers :: connect_answers where
  "refused_answers = \<lparr>ka_socket = 0, ka_epoll_create = 0, ka_epoll_add = 0, ka_connect = 111, ka_wait = 0, ka_getsockopt = 0,
     ka_so_error = 0, ka_epoll_mod = 0\<rparr>"

theorem connecting_outcome_witness:
  "\<exists>t'. tui_connectToServer (\<lambda>i. if i < 3 then refused_answers else refused_answers\<lparr>ka_connect := 0\<rparr>)
     (new_tui (new_service (new_connection []))) = (Inr (), t') \<and>
   length (tui_shown t') = 2 \<and> isConnectionOpen (tui_connection t') \<and> c_fds (tui_connection t') = 6"
proof -
  let ?k = "\<lambda>i :: nat. if i < 3 then refused_answers else refused_answers\<lparr>ka_connect := 0\<rparr>"
    and ?t = "new_tui (new_service (new_connection []))"
  have "failed_attempts ?k 1 = [1, 2]" "sum_list (map (opened_fds \<circ> ?k) [1, 2]) = 4" by code_simp+
  with connecting_outcome [of ?t "[1, 2]" ?k] show ?thesis
    by (auto simp: new_tui_def new_service_def new_connection_def)
qed

end
