(* ===== verification/Client_Server.thy ===== *)
theory Client_Server
  imports Tdp_Service Interpreter Commands
begin

text \<open>
  The console client against the server: what the client sends, the server's interpreter reads,
  and what the server answers, the client understands.
\<close>

section \<open>Requests\<close>

definition request_fits :: "string \<Rightarrow> (string \<times> string) list \<Rightarrow> bool" where
  "request_fits cmd fs \<longleftrightarrow> length cmd \<le> 6 \<and> list_all (\<lambda>(n, v). length n + length v < BUF_MAX_SIZE - 1) fs"

lemma guarded_exchange_command: "last_sent_command (snd (guarded_exchange d k f s)) = last_sent_command s"
  by (auto simp: guarded_exchange_def Let_def split: prod.splits sum.splits)

lemma sendAndGetResponse_text:
  assumes "request_fits cmd [(n1, v1), (n2, v2), (n3, v3)]"
  shows "last_sent_command (snd (sendAndGetResponse cmd n1 v1 n2 v2 n3 v3 s)) =
    cmd @ [newline] @ field_text n1 v1 @ field_text n2 v2 @ field_text n3 v3 @ [newline]"
  using assms by (simp add: sendAndGetResponse_def request_fits_def guarded_exchange_command Let_def not_le)

lemma sendAndGetResponse_refused:
  assumes "\<not> request_fits cmd [(n1, v1), (n2, v2), (n3, v3)]"
  shows "sendAndGetResponse cmd n1 v1 n2 v2 n3 v3 s = (Inr False, s\<lparr>error_code := E_LINE_TOO_LONG\<rparr>)"
  using assms by (auto simp: sendAndGetResponse_def request_fits_def Let_def)

lemma field_text_line: "n \<noteq> [] \<Longrightarrow> field_text n v = (n @ CHR '':'' # v) @ [newline]"
  by (simp add: field_text_def)

lemma lower_not_newline: "list_all is_lower n \<Longrightarrow> newline \<notin> set n"
  by (auto simp: list_all_iff newline_def in_char_range_def char_code_def)

lemma fitting_line:
  assumes "n \<noteq> []" and "list_all is_lower n" and "newline \<notin> set v" and "length n + length v < BUF_MAX_SIZE - 1"
  shows "short_line (n @ CHR '':'' # v)"
  using assms(1,3,4) lower_not_newline [OF assms(2)]
  by (simp add: short_line_def max_line_length_def BUF_MAX_SIZE_def) (simp add: newline_def)

lemma request_read:
  assumes "list_all short_line (cmd # ls)" and "list_all2 (\<lambda>l f. field_from_string l = Inr f) ls fs" and "length ls \<le> 3"
  shows "commit_bytes (new_interpreter k) (encode_request cmd ls) =
    (Inr (), (new_interpreter k)\<lparr>m_request := Some \<lparr>r_name = cmd, r_fields = fs\<rparr>\<rparr>, [])"
  using commit_request_lines [of "new_interpreter k" cmd ls "[]"] assms parse_lines_fields [OF assms(2), of "make_request cmd"]
  by (simp add: new_interpreter_def make_request_def)

lemma if_sent_command:
  "(\<And>t. last_sent_command (snd (m t)) = last_sent_command t) \<Longrightarrow>
   last_sent_command (snd (if_sent send m s)) = last_sent_command (snd (send s))"
  by (auto simp: if_sent_def bind_def ret_def split: prod.splits sum.splits)

lemma analyse_command:
  "last_sent_command (snd (analyse_simple n b t)) = last_sent_command t"
  "last_sent_command (snd (analyse_multiline n t)) = last_sent_command t"
  by (auto simp: analyse_simple_def analyse_multiline_def analysed_def split: option.splits)

lemma transfer_guard_command: "last_sent_command (snd (transfer_guard m s)) = last_sent_command (snd (m s))"
  by (auto simp: transfer_guard_def catching_def ret_def raise_def split: prod.splits sum.splits)

lemma upload_command:
  "last_sent_command (snd (bind (gets response_body) (\<lambda>body. bind (from_sum (stol body)) (\<lambda>offset.
     on_connection (uploadFile content offset n ctl))) t)) = last_sent_command t"
  by (auto simp: bind_def gets_def from_sum_def on_connection_def split: prod.splits sum.splits)

text \<open>The server's interpreter reads the last request of the client as this command with these fields.\<close>

definition server_reads :: "TDPService \<Rightarrow> string \<Rightarrow> Field list \<Rightarrow> bool" where
  "server_reads s cmd fs \<longleftrightarrow> commit_bytes (new_interpreter 0) (last_sent_command s) =
     (Inr (), (new_interpreter 0)\<lparr>m_request := Some \<lparr>r_name = cmd, r_fields = fs\<rparr>\<rparr>, [])"

lemma server_readsI:
  assumes "last_sent_command s = encode_request cmd ls" and "list_all short_line (cmd # ls)"
    and "list_all2 (\<lambda>l f. field_from_string l = Inr f) ls fs" and "length ls \<le> 3"
  shows "server_reads s cmd fs"
  using request_read [OF assms(2-4)] assms(1) by (simp add: server_reads_def)

lemma lower_names: "list_all is_lower ''name''" "list_all is_lower ''oname''" "list_all is_lower ''nname''" "list_all is_lower ''size''"
  "list_all is_lower ''retry''"
  by (simp_all add: in_char_range_def char_code_def)

lemma newline_apostrophe [simp]: "newline \<noteq> apostrophe"
  by (simp add: special_chars)

lemma quoted_field: "list_all is_lower n \<Longrightarrow> field_from_string (n @ CHR '':'' # quoted_text a) = Inr \<lparr>f_name = n, f_value = string_value a\<rparr>"
  using parse_quoted [of n a] by (simp add: quoted_text_def)

lemma quoted_no_newline: "newline \<notin> set a \<Longrightarrow> newline \<notin> set (quoted_text a)"
  by (simp add: quoted_text_def)

lemma number_no_newline: "newline \<notin> set (nat_to_string n)"
  using nat_to_string_digits [of n] by (auto simp: newline_def in_char_range_def char_code_def)

lemma nat_to_string_length: "n < 10 ^ k \<Longrightarrow> 0 < k \<Longrightarrow> length (nat_to_string n) \<le> k"
proof (induction k arbitrary: n)
  case (Suc k)
  show ?case
  proof (cases "n < 10")
    case True
    then show ?thesis by (simp add: nat_to_string.simps [of n])
  next
    case False
    with Suc.prems have "n div 10 < 10 ^ k" "0 < k" by (auto simp: div_less_iff_less_mult mult.commute intro: gr0I)
    with Suc.IH [of "n div 10"] False show ?thesis by (simp add: nat_to_string.simps [of n])
  qed
qed simp

lemma rename_request:
  assumes "newline \<notin> set a" and "newline \<notin> set b" and "length a < 2040" and "length b < 2040"
  shows "server_reads (snd (tdp_rename a b s)) ''rename''
    [\<lparr>f_name = ''oname'', f_value = string_value a\<rparr>, \<lparr>f_name = ''nname'', f_value = string_value b\<rparr>]"
proof (rule server_readsI [where ls = "[''oname'' @ CHR '':'' # quoted_text a, ''nname'' @ CHR '':'' # quoted_text b]"])
  have "request_fits ''rename'' [(''oname'', quoted_text a), (''nname'', quoted_text b), ([], [])]"
    using assms by (simp add: request_fits_def BUF_MAX_SIZE_def quoted_text_def)
  then show "last_sent_command (snd (tdp_rename a b s)) =
      encode_request ''rename'' [''oname'' @ CHR '':'' # quoted_text a, ''nname'' @ CHR '':'' # quoted_text b]"
    by (simp add: tdp_rename_def if_sent_command analyse_command sendAndGetResponse_text encode_request_def encode_lines_def
        field_text_def)
next
  have "short_line ''rename''" by (simp add: short_line_def newline_def max_line_length_def)
  moreover have "short_line (''oname'' @ CHR '':'' # quoted_text a)" "short_line (''nname'' @ CHR '':'' # quoted_text b)"
    using assms lower_names by (auto intro!: fitting_line simp: quoted_text_def BUF_MAX_SIZE_def simp del: append.simps)
  ultimately show "list_all short_line [''rename'', ''oname'' @ CHR '':'' # quoted_text a, ''nname'' @ CHR '':'' # quoted_text b]" by simp
qed (use quoted_field [OF lower_names(2), of a] quoted_field [OF lower_names(3), of b] in simp_all)

lemma upload_request:
  assumes "newline \<notin> set a" and "length a < 2041" and "length content < 2 ^ 64"
  shows "server_reads (snd (tdp_ul a (Opened content) retry ctl s)) ''ul''
    [\<lparr>f_name = ''name'', f_value = string_value a\<rparr>, \<lparr>f_name = ''size'', f_value = integer (of_nat (length content))\<rparr>,
     \<lparr>f_name = ''retry'', f_value = boolean retry\<rparr>]"
proof (rule server_readsI [where ls = "[''name'' @ CHR '':'' # quoted_text a, ''size'' @ CHR '':'' # nat_to_string (length content),
      ''retry'' @ CHR '':'' # (if retry then ''true'' else ''false'')]"])
  have len: "length (nat_to_string (length content)) \<le> 20" using nat_to_string_length [of "length content" 20] assms(3) by simp
  have sz: "unat (of_nat (length content) :: u64) = length content" using assms(3) by (simp add: unat_of_nat)
  have fits: "request_fits ''ul'' [(''name'', quoted_text a), (''size'', nat_to_string (length content)), (''retry'', if retry then ''true'' else ''false'')]"
    using assms(1,2) len by (simp add: request_fits_def BUF_MAX_SIZE_def quoted_text_def)
  show "last_sent_command (snd (tdp_ul a (Opened content) retry ctl s)) =
      encode_request ''ul'' [''name'' @ CHR '':'' # quoted_text a, ''size'' @ CHR '':'' # nat_to_string (length content),
      ''retry'' @ CHR '':'' # (if retry then ''true'' else ''false'')]"
    unfolding tdp_ul_def local_file.case Let_def transfer_guard_command if_sent_command [OF upload_command]
      if_sent_command [OF analyse_command(1)] sz sendAndGetResponse_text [OF fits]
    by (simp add: encode_request_def encode_lines_def field_text_def)
next
  have len: "length (nat_to_string (length content)) \<le> 20" using nat_to_string_length [of "length content" 20] assms(3) by simp
  have short: "short_line ''ul''" by (simp add: short_line_def newline_def max_line_length_def)
  have name_line: "short_line (''name'' @ CHR '':'' # quoted_text a)"
    using assms(1,2) lower_names by (intro fitting_line) (simp_all add: quoted_text_def BUF_MAX_SIZE_def)
  have size_line: "short_line (''size'' @ CHR '':'' # nat_to_string (length content))"
    using len number_no_newline lower_names by (intro fitting_line) (simp_all add: BUF_MAX_SIZE_def)
  have retry_line: "short_line (''retry'' @ CHR '':'' # (if retry then ''true'' else ''false''))"
    using lower_names by (intro fitting_line) (simp_all add: BUF_MAX_SIZE_def newline_def)
  show "list_all short_line [''ul'', ''name'' @ CHR '':'' # quoted_text a, ''size'' @ CHR '':'' # nat_to_string (length content),
      ''retry'' @ CHR '':'' # (if retry then ''true'' else ''false'')]"
    using short name_line size_line retry_line by simp
next
  show "list_all2 (\<lambda>l f. field_from_string l = Inr f) [''name'' @ CHR '':'' # quoted_text a, ''size'' @ CHR '':'' # nat_to_string (length content),
      ''retry'' @ CHR '':'' # (if retry then ''true'' else ''false'')]
     [\<lparr>f_name = ''name'', f_value = string_value a\<rparr>, \<lparr>f_name = ''size'', f_value = integer (of_nat (length content))\<rparr>,
     \<lparr>f_name = ''retry'', f_value = boolean retry\<rparr>]"
    using quoted_field [OF lower_names(1), of a] parse_number [OF lower_names(4), of "length content"] parse_bool [OF lower_names(5)] assms(3)
    by simp
qed simp


section \<open>Downloads\<close>

text \<open>The fields of the client's request to resume a download.\<close>

definition resume_fields :: "string \<Rightarrow> nat \<Rightarrow> Field list" where
  "resume_fields name n = [\<lparr>f_name = ''name'', f_value = string_value name\<rparr>, \<lparr>f_name = ''size'', f_value = integer (of_nat n)\<rparr>]"

lemma resume_request_read:
  assumes "newline \<notin> set a" and "length a < 2041" and "n < 2 ^ 64"
  shows "server_reads (snd (sendAndGetResponse ''dl'' ''name'' (quoted_text a) ''size'' (nat_to_string n) [] [] s)) ''dl'' (resume_fields a n)"
proof (rule server_readsI [where ls = "[''name'' @ CHR '':'' # quoted_text a, ''size'' @ CHR '':'' # nat_to_string n]"])
  have len: "length (nat_to_string n) \<le> 20" using nat_to_string_length [of n 20] assms(3) by simp
  have fits: "request_fits ''dl'' [(''name'', quoted_text a), (''size'', nat_to_string n), ([], [])]"
    using assms(1,2) len by (simp add: request_fits_def BUF_MAX_SIZE_def quoted_text_def)
  show "last_sent_command (snd (sendAndGetResponse ''dl'' ''name'' (quoted_text a) ''size'' (nat_to_string n) [] [] s)) =
      encode_request ''dl'' [''name'' @ CHR '':'' # quoted_text a, ''size'' @ CHR '':'' # nat_to_string n]"
    unfolding sendAndGetResponse_text [OF fits] by (simp add: encode_request_def encode_lines_def field_text_def)
  have "short_line ''dl''" by (simp add: short_line_def newline_def max_line_length_def)
  moreover have "short_line (''name'' @ CHR '':'' # quoted_text a)"
    using assms(1,2) lower_names by (intro fitting_line) (simp_all add: quoted_text_def BUF_MAX_SIZE_def)
  moreover have "short_line (''size'' @ CHR '':'' # nat_to_string n)"
    using len number_no_newline lower_names by (intro fitting_line) (simp_all add: BUF_MAX_SIZE_def)
  ultimately show "list_all short_line [''dl'', ''name'' @ CHR '':'' # quoted_text a, ''size'' @ CHR '':'' # nat_to_string n]" by simp
next
  show "list_all2 (\<lambda>l f. field_from_string l = Inr f) [''name'' @ CHR '':'' # quoted_text a, ''size'' @ CHR '':'' # nat_to_string n]
     (resume_fields a n)"
    using quoted_field [OF lower_names(1), of a] parse_number [OF lower_names(4), of n] assms(3) by (simp add: resume_fields_def)
qed simp

lemma dl_ignores_size: "parse_dl (resume_fields a n) = parse_dl [hd (resume_fields a n)]"
  by (simp add: parse_dl_def resume_fields_def dl_field_def bind_def ret_def fun_eq_iff split: prod.splits sum.splits)

section \<open>Properties\<close>

text \<open>
  C34: requests arrive as they were meant. For names of any characters but newlines, apostrophes
  and colons included, and up to the length the client allows, what the client sends for
  \<open>rename\<close> and \<open>ul\<close> is read by the server's interpreter as that command with those fields and
  nothing more; a longer name is refused by the client, which then sends nothing and only sets its
  error code.
\<close>

theorem client_requests_understood:
  assumes "newline \<notin> set a" and "newline \<notin> set b" and "length content < 2 ^ 64"
  shows "(if length a < 2040 \<and> length b < 2040
      then server_reads (snd (tdp_rename a b s)) ''rename''
        [\<lparr>f_name = ''oname'', f_value = string_value a\<rparr>, \<lparr>f_name = ''nname'', f_value = string_value b\<rparr>]
      else tdp_rename a b s = (Inr False, s\<lparr>error_code := E_LINE_TOO_LONG\<rparr>)) \<and>
    (if length a < 2041
      then server_reads (snd (tdp_ul a (Opened content) retry ctl s)) ''ul''
        [\<lparr>f_name = ''name'', f_value = string_value a\<rparr>, \<lparr>f_name = ''size'', f_value = integer (of_nat (length content))\<rparr>,
         \<lparr>f_name = ''retry'', f_value = boolean retry\<rparr>]
      else tdp_ul a (Opened content) retry ctl s = (Inr False, s\<lparr>error_code := E_LINE_TOO_LONG\<rparr>))"
proof -
  have "tdp_rename a b s = (Inr False, s\<lparr>error_code := E_LINE_TOO_LONG\<rparr>)" if "\<not> (length a < 2040 \<and> length b < 2040)"
  proof -
    have "\<not> request_fits ''rename'' [(''oname'', quoted_text a), (''nname'', quoted_text b), ([], [])]"
      using that by (simp add: request_fits_def BUF_MAX_SIZE_def quoted_text_def)
    then show ?thesis by (simp add: tdp_rename_def if_sent_def bind_def ret_def sendAndGetResponse_refused)
  qed
  moreover have "tdp_ul a (Opened content) retry ctl s = (Inr False, s\<lparr>error_code := E_LINE_TOO_LONG\<rparr>)" if "\<not> length a < 2041"
  proof -
    have "\<not> request_fits ''ul'' [(''name'', quoted_text a), (''size'', nat_to_string (unat (of_nat (length content) :: u64))),
        (''retry'', if retry then ''true'' else ''false'')]"
      using that by (simp add: request_fits_def BUF_MAX_SIZE_def quoted_text_def)
    then show ?thesis
      unfolding tdp_ul_def local_file.case Let_def transfer_guard_def catching_def if_sent_def bind_def sendAndGetResponse_refused
      by (simp add: sendAndGetResponse_refused ret_def)
  qed
  ultimately show ?thesis using rename_request [OF assms(1,2)] upload_request [OF assms(1) _ assms(3)] by auto
qed

theorem client_requests_understood_witness:
  "server_reads (snd (tdp_rename ''a:b'' ''c'' (new_service (new_connection [])))) ''rename''
     [\<lparr>f_name = ''oname'', f_value = string_value ''a:b''\<rparr>, \<lparr>f_name = ''nname'', f_value = string_value ''c''\<rparr>]"
  using client_requests_understood [of "''a:b''" "''c''" "[]" "new_service (new_connection [])"] by (simp add: newline_def)



text \<open>
  the outcome of a call. If the exchange for \<open>mkdir\<close> brings back a response of the server
  for that command (no line on success, one line of explanation with an error), the client's
  method returns true exactly when the server accepted the command, and its error code is the
  server's code, except for the codes from 410 on, which all become \<open>E_RESPONSE\<close>.
\<close>

lemma mkdir_outcome:
  assumes "length name < 2041"
    and "exchangeWithServer (encode_request ''mkdir'' [''name:'' @ quoted_text name]) 0 False (connectionToServer s) = (Inr True, c)"
    and "x_data c = server_response code ''mkdir'' ls" and "plain_lines ls"
    and "if code = ok then ls = [] else length ls = 1"
  shows "\<exists>s'. tdp_mkdir name s = (Inr (code = ok), s') \<and> connectionToServer s' = c \<and>
    error_code s' = (if code_value code < 410 then error_of_code (code_value code) else E_RESPONSE)"
proof -
  let ?text = "encode_request ''mkdir'' [''name:'' @ quoted_text name]"
  have wire: "''mkdir'' @ [newline] @ field_text ''name'' (quoted_text name) @ field_text [] [] @ field_text [] [] @ [newline] = ?text"
    by (simp add: encode_request_def encode_lines_def field_text_def)
  have fits: "\<not> length (quoted_text name) + 4 \<ge> BUF_MAX_SIZE - 1" "\<not> 0 \<ge> BUF_MAX_SIZE - 1"
    using assms(1) by (simp_all add: BUF_MAX_SIZE_def quoted_text_def)
  define s1 where "s1 = s\<lparr>error_code := NONE, last_sent_command := ?text, received_response := x_data c, connectionToServer := c\<rparr>"
  have sent: "sendAndGetResponse ''mkdir'' ''name'' (quoted_text name) [] [] [] [] s = (Inr True, s1)"
    using fits assms(2) unfolding sendAndGetResponse_def wire
    by (simp add: guarded_exchange_def Let_def s1_def add.commute)
  have analysis: "analyseSimpleResponse ''mkdir'' (server_response code ''mkdir'' ls) (response_body s) False =
      (if code_value code < 410
       then Some (error_of_code (code_value code), server_response code ''mkdir'' ls, if code = ok then [] else unlines ls @ [newline])
       else Some (E_RESPONSE, [], response_body s))"
  proof (cases "code = ok")
    case True
    with assms(5) simple_no_line [of "''mkdir''" "response_body s"] error_of_code_value(2) [of ok] show ?thesis by simp
  next
    case False
    with assms(5) obtain l where "ls = [l]" by (cases ls) auto
    with False assms(4) simple_one_line [of code l False] refused_codes(2) [of code] show ?thesis by auto
  qed
  have same: "error_of_code (code_value code) = OK \<longleftrightarrow> code = ok" by (rule error_of_code_value(2))
  have "code_value ok < 410" by simp
  with sent analysis same show ?thesis
    by (auto simp: tdp_mkdir_def if_sent_def bind_def analyse_simple_def analysed_def s1_def assms(3))
qed


definition mkdir_service :: TDPService where
  "mkdir_service = new_service (ready_connection [sample_event [Transferred 99] [],
     sample_event [] [Recv_bytes (server_response in_use ''mkdir'' [''busy'']) 0]])"

lemma mkdir_outcome_witness:
  "\<exists>s'. tdp_mkdir ''d'' mkdir_service = (Inr False, s') \<and> error_code s' = E_RESPONSE"
proof -
  let ?x = "exchangeWithServer (encode_request ''mkdir'' [''name:'' @ quoted_text ''d'']) 0 False (connectionToServer mkdir_service)"
  have "fst ?x = Inr True" "x_data (snd ?x) = server_response in_use ''mkdir'' [''busy'']" by code_simp+
  then obtain c where c: "?x = (Inr True, c)" "x_data c = server_response in_use ''mkdir'' [''busy'']" by (metis prod.collapse)
  from mkdir_outcome [OF _ c] show ?thesis by (auto simp: plain_lines_def newline_def)
qed

end
