(* ===== verification/Console_Listing.thy ===== *)
theory Console_Listing
  imports Console_Tui Client_Server
begin

text \<open>
  A listing on its way from the server's command \<open>ls\<close> through the response and the client's
  analyser to the menu of files.
\<close>

section \<open>Words of a text\<close>

text \<open>Words separated by single spaces.\<close>

fun spaced :: "string list \<Rightarrow> string" where
  "spaced [] = []"
| "spaced [w] = w"
| "spaced (w # ws) = w @ '' '' @ spaced ws"

definition is_word :: "string \<Rightarrow> bool" where
  "is_word w \<longleftrightarrow> w \<noteq> [] \<and> list_all (\<lambda>c. \<not> is_space c) w"

lemma space_chars [simp]: "is_space (CHR '' '')" "is_space newline" "\<not> is_space quotation"
  by (simp_all add: is_space_def special_chars char_code_def)

lemma words_of_stream: "list_all is_word (stream_words s)"
proof (induction s rule: stream_words.induct)
  case (2 c cs)
  have "list_all (\<lambda>c. \<not> is_space c) (takeWhile (\<lambda>c. \<not> is_space c) cs)" by (auto simp: list_all_iff dest: set_takeWhileD)
  with 2 show ?case by (simp add: is_word_def)
qed simp

lemma stream_first_word:
  assumes "is_word w" and "is_space c"
  shows "stream_words (w @ c # rest) = w # stream_words rest"
proof -
  from assms(1) obtain a as where w: "w = a # as" "\<not> is_space a" "list_all (\<lambda>c. \<not> is_space c) as"
    by (cases w) (auto simp: is_word_def)
  with assms(2) takeWhile_append_stop [of as "\<lambda>c. \<not> is_space c" c rest] dropWhile_prefix_all [of as "\<lambda>c. \<not> is_space c" "c # rest"]
  show ?thesis by (simp add: list_all_iff)
qed

lemma stream_spaced:
  "list_all is_word ws \<Longrightarrow> ws \<noteq> [] \<Longrightarrow> is_space c \<Longrightarrow> stream_words (spaced ws @ c # rest) = ws @ stream_words rest"
  by (induction ws rule: spaced.induct) (simp_all add: stream_first_word)

lemma spaced_append: "us \<noteq> [] \<Longrightarrow> vs \<noteq> [] \<Longrightarrow> spaced (us @ vs) = spaced us @ '' '' @ spaced vs"
  by (induction us rule: spaced.induct) (auto simp: neq_Nil_conv)

lemma spaced_snoc: "ws \<noteq> [] \<Longrightarrow> spaced (butlast ws @ [last ws @ q]) = spaced ws @ q"
  by (induction ws rule: spaced.induct) auto

lemma spaced_prefix: "ws \<noteq> [] \<Longrightarrow> spaced ((q @ hd ws) # tl ws) = q @ spaced ws"
  by (cases ws rule: spaced.cases) auto

section \<open>Quoted names\<close>

text \<open>The words of a text between quotation marks.\<close>

definition closed :: "string list \<Rightarrow> string list" where
  "closed ws = butlast ws @ [last ws @ [quotation]]"

lemma quoted_words:
  assumes "ws \<noteq> []"
  shows "[quotation] @ spaced ws @ [quotation] = spaced ((quotation # hd (closed ws)) # tl (closed ws))"
  using spaced_snoc [OF assms, of "[quotation]"] spaced_prefix [of "closed ws" "[quotation]"] by (simp add: closed_def)

lemma closed_words:
  assumes "list_all is_word ws" and "ws \<noteq> []"
  shows "list_all is_word ((quotation # hd (closed ws)) # tl (closed ws))"
proof -
  have "list_all is_word (closed ws)"
    using assms by (auto simp: closed_def list_all_iff is_word_def dest: in_set_butlastD)
  moreover have "closed ws \<noteq> []" by (simp add: closed_def)
  ultimately show ?thesis by (cases "closed ws") (simp_all add: is_word_def)
qed

lemma ends_with_last: "ends_with w [c] \<longleftrightarrow> w \<noteq> [] \<and> last w = c"
  by (cases w rule: rev_cases) (auto simp: ends_with_def)

lemma quoted_name_read:
  assumes "ws \<noteq> []" and "list_all (\<lambda>w. last w \<noteq> quotation) (butlast ws)"
  shows "quoted_name (tl (closed ws) @ rest) (hd (closed ws)) entry = Some (entry @ spaced ws, rest)"
  using assms
proof (induction ws arbitrary: entry rule: spaced.induct)
  case (2 w)
  then show ?case by (cases rest) (simp_all add: closed_def ends_with_last)
next
  case (3 w v vs)
  have "closed (w # v # vs) = w # closed (v # vs)" by (simp add: closed_def)
  moreover obtain x xs where x: "closed (v # vs) = x # xs" by (cases "closed (v # vs)") (auto simp: closed_def)
  ultimately show ?case using 3 x by (auto simp: ends_with_last)
qed simp

section \<open>Entries\<close>

text \<open>
  Names and times that survive being cut into words: single spaces only, and no word but the last
  one of a name ends in a quotation mark.
\<close>

definition listable :: "string \<Rightarrow> bool" where
  "listable n \<longleftrightarrow> n \<noteq> [] \<and> sep \<notin> set n \<and> spaced (stream_words n) = n \<and>
     list_all (\<lambda>w. last w \<noteq> quotation) (butlast (stream_words n))"

definition listable_time :: "string \<Rightarrow> bool" where
  "listable_time m \<longleftrightarrow> length (stream_words m) = 2 \<and> spaced (stream_words m) = m"

definition entry_listable :: "env \<Rightarrow> path \<Rightarrow> string \<times> node \<Rightarrow> bool" where
  "entry_listable e dir x \<longleftrightarrow> listable (fst x) \<and>
     (case e_mtime e (path_append dir (fst x)) of Some m \<Rightarrow> listable_time m | None \<Rightarrow> False) \<and>
     (case snd x of File b \<Rightarrow> length b < 10 ^ 15 | Dir es \<Rightarrow> True)"

definition size_word :: "node \<Rightarrow> string" where
  "size_word x = (case x of File b \<Rightarrow> nat_to_string (length b) | Dir es \<Rightarrow> ''-'')"

text \<open>What the menu should show of an entry, and the name the client works with.\<close>

definition shown_name :: "string \<times> node \<Rightarrow> string" where
  "shown_name x = fst x @ (case snd x of File b \<Rightarrow> [] | Dir es \<Rightarrow> ''/'')"

definition shown_entry :: "env \<Rightarrow> path \<Rightarrow> string \<times> node \<Rightarrow> string" where
  "shown_entry e dir x =
     shown_name x @ replicate (max 1 (40 - length (fst x)) - (case snd x of File b \<Rightarrow> 0 | Dir es \<Rightarrow> 1)) (CHR '' '') @
     size_word (snd x) @ replicate (max 1 (15 - length (size_word (snd x)))) (CHR '' '') @
     the (e_mtime e (path_append dir (fst x)))"

text \<open>The words of a line of the listing.\<close>

definition entry_words :: "env \<Rightarrow> path \<Rightarrow> string \<times> node \<Rightarrow> string list" where
  "entry_words e dir x =
     (let name = closed (stream_words (fst x)); m = stream_words (the (e_mtime e (path_append dir (fst x))))
      in (quotation # hd name) # tl name @ [size_word (snd x), quotation # hd m, m ! 1 @ [quotation]])"

lemma spaced_Nil: "list_all is_word ws \<Longrightarrow> spaced ws = [] \<longleftrightarrow> ws = []"
  by (cases ws rule: spaced.cases) (simp_all add: is_word_def)

lemma listableD:
  assumes "listable n"
  obtains ws where "stream_words n = ws" "ws \<noteq> []" "spaced ws = n" "list_all is_word ws"
    "list_all (\<lambda>w. last w \<noteq> quotation) (butlast ws)" "sep \<notin> set n"
proof (rule that [OF refl])
  show "stream_words n \<noteq> []" using assms by (auto simp: listable_def)
qed (use assms words_of_stream [of n] in \<open>auto simp: listable_def\<close>)

lemma listable_timeD:
  assumes "listable_time m"
  obtains d t where "stream_words m = [d, t]" "m = d @ '' '' @ t" "is_word d" "is_word t"
proof -
  from assms obtain d t where dt: "stream_words m = [d, t]" by (auto simp: listable_time_def length_Suc_conv numeral_2_eq_2)
  with assms words_of_stream [of m] show ?thesis by (intro that [OF dt]) (auto simp: listable_time_def)
qed

lemma size_word_word: "is_word (size_word x)"
proof -
  have "\<not> is_space c" if "is_digit c" for c using that by (auto simp: in_char_range_def is_space_def char_code_def)
  then show ?thesis using nat_to_string_digits
    by (auto simp: size_word_def is_word_def list_all_iff is_space_def char_code_def split: node.splits)
qed

lemma size_word_length:
  assumes "case x of File b \<Rightarrow> length b < 10 ^ 15 | Dir es \<Rightarrow> True"
  shows "length (size_word x) \<le> 15"
  using assms nat_to_string_length [of _ 15] by (auto simp: size_word_def split: node.splits)

lemma filename_append:
  assumes "sep \<notin> set n" and "n \<noteq> []"
  shows "filename (path_append p n) = n"
proof -
  have relative: "\<not> is_absolute n" using assms by (cases n) (auto simp: is_absolute_def)
  have joined: "filename (q @ sep # n) = n" for q
    using filename_id [OF assms(1)] assms(1) by (simp add: filename_def takeWhile_append_stop rev_swap)
  show ?thesis
  proof (cases "has_filename p")
    case True
    then show ?thesis using relative joined [of p] by (simp add: path_append_def)
  next
    case False
    then have "p = [] \<or> (\<exists>q. p = q @ [sep])" by (cases p rule: rev_cases) (auto simp: has_filename_def)
    then show ?thesis using relative False joined filename_id [OF assms(1)] by (auto simp: path_append_def)
  qed
qed

lemma ls_line_words:
  assumes "entry_listable e dir x"
  shows "ls_line e dir True True x = spaced (entry_words e dir x)" and "list_all is_word (entry_words e dir x)"
proof -
  obtain m where m: "e_mtime e (path_append dir (fst x)) = Some m" "listable_time m"
    using assms by (auto simp: entry_listable_def split: option.splits)
  from m(2) obtain d t where dt: "stream_words m = [d, t]" "m = d @ '' '' @ t" "is_word d" "is_word t" by (rule listable_timeD)
  have "listable (fst x)" using assms by (simp add: entry_listable_def)
  then obtain ws where ws: "stream_words (fst x) = ws" "ws \<noteq> []" "spaced ws = fst x" "list_all is_word ws" "sep \<notin> set (fst x)"
    by (rule listableD)
  have nonempty: "fst x \<noteq> []" using assms by (simp add: entry_listable_def listable_def)
  let ?name = "(quotation # hd (closed ws)) # tl (closed ws)" and ?tail = "[size_word (snd x), quotation # d, t @ [quotation]]"
  have words: "entry_words e dir x = ?name @ ?tail" using m(1) dt(1) ws(1) by (simp add: entry_words_def Let_def)
  have "ls_line e dir True True x = ([quotation] @ spaced ws @ [quotation]) @ '' '' @ spaced ?tail"
    using m(1) dt(2) ws(3) filename_append [OF ws(5) nonempty] by (simp add: ls_line_def size_word_def)
  then show "ls_line e dir True True x = spaced (entry_words e dir x)"
    unfolding words quoted_words [OF ws(2)] by (subst spaced_append) simp_all
  have "list_all is_word ?tail" using dt(3,4) size_word_word by (simp add: is_word_def)
  then show "list_all is_word (entry_words e dir x)" unfolding words using closed_words [OF ws(4,2)] by simp
qed

lemma entry_read:
  assumes "entry_listable e dir x"
  shows "list_words (entry_words e dir x @ rest) 0 [] li =
    (if length (fst x) \<le> 40
     then list_words rest 0 [] (li\<lparr>li_names := li_names li @ [shown_name x], li_entries := li_entries li @ [shown_entry e dir x]\<rparr>)
     else Inl (Logic_error ''basic_string::_M_create''))"
proof -
  obtain m where m: "e_mtime e (path_append dir (fst x)) = Some m" "listable_time m"
    using assms by (auto simp: entry_listable_def split: option.splits)
  from m(2) obtain d t where dt: "stream_words m = [d, t]" "m = d @ '' '' @ t" "is_word d" "is_word t" by (rule listable_timeD)
  have "listable (fst x)" using assms by (simp add: entry_listable_def)
  then obtain ws where ws: "stream_words (fst x) = ws" "ws \<noteq> []" "spaced ws = fst x"
      "list_all (\<lambda>w. last w \<noteq> quotation) (butlast ws)"
    by (rule listableD)
  have len: "length (size_word (snd x)) \<le> 15" using assms by (simp add: entry_listable_def size_word_length)
  have words: "entry_words e dir x @ rest =
      (quotation # hd (closed ws)) # tl (closed ws) @ size_word (snd x) # (quotation # d) # (t @ [quotation]) # rest"
    using m(1) dt(1) ws(1) by (simp add: entry_words_def Let_def)
  let ?sp = "replicate (max 1 (40 - length (fst x))) (CHR '' '')"
  have name: "quoted_name (tl (closed ws) @ r) (hd (closed ws)) [] = Some (fst x, r)" for r
    using quoted_name_read [OF ws(2,4)] ws(3) by simp
  have sp: "column_spaces 40 (length (fst x)) = (if length (fst x) \<le> 40 then Inr ?sp else Inl (Logic_error ''basic_string::_M_create''))"
    by (auto simp: column_spaces_def max_def)
  have sz: "column_spaces 15 (length (size_word (snd x))) = Inr (replicate (max 1 (15 - length (size_word (snd x)))) (CHR '' ''))"
    using len by (auto simp: column_spaces_def max_def)
  have column: "\<exists>h. size_column (fst x @ ?sp) (size_word (snd x)) (li\<lparr>li_names := li_names li @ [fst x]\<rparr>) =
      Inr (h, li\<lparr>li_names := li_names li @ [shown_name x]\<rparr>) \<and> h @ m = shown_entry e dir x"
  proof (cases "snd x")
    case (File b)
    have "size_word (snd x) \<noteq> ''-''" using nat_to_string_digits [of "length b"] File by (auto simp: size_word_def in_char_range_def char_code_def)
    with sz m(1) File show ?thesis by (simp add: size_column_def shown_entry_def shown_name_def)
  next
    case (Dir es)
    then have "size_word (snd x) = ''-''" by (simp add: size_word_def)
    with sz m(1) Dir show ?thesis by (simp add: size_column_def shown_entry_def shown_name_def max_def)
  qed
  then obtain h where h: "size_column (fst x @ ?sp) (size_word (snd x)) (li\<lparr>li_names := li_names li @ [fst x]\<rparr>) =
      Inr (h, li\<lparr>li_names := li_names li @ [shown_name x]\<rparr>)" "h @ d @ '' '' @ t = shown_entry e dir x"
    using dt(2) by auto
  show ?thesis
  proof (cases "length (fst x) \<le> 40")
    case True
    with h show ?thesis unfolding words by (simp add: name sp)
  next
    case False
    then show ?thesis unfolding words by (simp add: name sp)
  qed
qed


section \<open>Listings\<close>

definition visible :: "ServerContext \<Rightarrow> path \<Rightarrow> (string \<times> node) list \<Rightarrow> (string \<times> node) list" where
  "visible sc dir = filter (\<lambda>x. is_path_forbidden sc (path_append dir (fst x)) = Inr False)"

lemma ls_entries_lines:
  "ls_entries e sc dir True True es = Inr ls \<Longrightarrow> ls = map (ls_line e dir True True) (visible sc dir es)"
proof (induction es arbitrary: ls)
  case (Cons x es)
  then show ?case
    by (cases "ls_entries e sc dir True True es") (auto simp: visible_def split: sum.splits if_splits)
qed (simp add: visible_def)

lemma word_no_newline: "is_word w \<Longrightarrow> newline \<notin> set w"
  by (auto simp: is_word_def list_all_iff)

lemma spaced_no_newline: "list_all is_word ws \<Longrightarrow> newline \<notin> set (spaced ws)"
proof (induction ws rule: spaced.induct)
  case (3 w v vs)
  moreover have "newline \<noteq> CHR '' ''" by (simp add: newline_def)
  ultimately show ?case by (simp add: word_no_newline)
qed (simp_all add: word_no_newline)

lemma entry_words_nonempty [simp]: "entry_words e dir x \<noteq> []"
  by (simp add: entry_words_def Let_def)

lemma listing_plain:
  assumes "list_all (entry_listable e dir) es"
  shows "plain_lines (map (ls_line e dir True True) es)"
  unfolding plain_lines_def list_all_iff
proof (intro ballI conjI)
  fix l assume "l \<in> set (map (ls_line e dir True True) es)"
  then obtain x where l: "l = ls_line e dir True True x" and x: "entry_listable e dir x" using assms by (auto simp: list_all_iff)
  show "l \<noteq> []" by (simp add: l ls_line_def)
  show "newline \<notin> set l" using spaced_no_newline [OF ls_line_words(2) [OF x]] by (simp add: l ls_line_words(1) [OF x])
qed

lemma listing_words:
  assumes "list_all (entry_listable e dir) es"
  shows "stream_words (unlines (map (ls_line e dir True True) es) @ [newline]) = concat (map (entry_words e dir) es)"
  using assms
proof (induction es)
  case (Cons x es)
  then have x: "entry_listable e dir x" by simp
  with Cons stream_spaced [OF ls_line_words(2) [OF x] entry_words_nonempty, of newline] show ?case
    by (simp add: unlines_def ls_line_words(1))
qed (simp add: unlines_def)

lemma listing_read:
  assumes "list_all (entry_listable e dir) es"
  shows "list_words (concat (map (entry_words e dir) es)) 0 [] li =
    (if list_all (\<lambda>x. length (fst x) \<le> 40) es
     then Inr (li\<lparr>li_names := li_names li @ map shown_name es, li_entries := li_entries li @ map (shown_entry e dir) es\<rparr>)
     else Inl (Logic_error ''basic_string::_M_create''))"
  using assms by (induction es arbitrary: li) (simp_all add: entry_read)

section \<open>Properties\<close>

text \<open>
  C35: listings arrive. When the server lists a directory with sizes and times, the response is
  accepted by the client's analyser, and its reading of the body gives the menu exactly the
  entries that are not hidden, in order, directories with a slash, each with its size and time:
  for names with single spaces only, in which no word but the last ends in a quotation mark. But
  when one of the names has more than 40 characters, the number of spaces to fill its column
  wraps around and the client ends with an exception.
\<close>

theorem listing_understood:
  assumes "list_all (entry_listable e dir) es" and "ls_entries e sc dir True True es = Inr ls"
  shows "\<exists>body. analyseMultilineResponse ''ls'' (server_response ok ''ls'' ls) old = Some (OK, server_response ok ''ls'' ls, body) \<and>
    list_words (stream_words body) 0 [] li =
      (if list_all (\<lambda>x. length (fst x) \<le> 40) (visible sc dir es)
       then Inr (li\<lparr>li_names := li_names li @ map shown_name (visible sc dir es),
                    li_entries := li_entries li @ map (shown_entry e dir) (visible sc dir es)\<rparr>)
       else Inl (Logic_error ''basic_string::_M_create''))"
proof -
  let ?vs = "visible sc dir es"
  have vs: "list_all (entry_listable e dir) ?vs" using assms(1) by (auto simp: visible_def list_all_iff)
  have ls: "ls = map (ls_line e dir True True) ?vs" using assms(2) by (rule ls_entries_lines)
  have "error_of_code (code_value ok) = OK" by (subst error_of_code_value(2)) (rule refl)
  then have "analyseMultilineResponse ''ls'' (server_response ok ''ls'' ls) old =
      Some (OK, server_response ok ''ls'' ls, unlines ls @ [newline])"
    using multiple_lines [of ok ls] listing_plain [OF vs] ls by simp
  then show ?thesis using listing_words [OF vs] listing_read [OF vs, of li] ls by simp
qed

definition listed_env :: env where
  "listed_env = \<lparr>e_crypt = sample_crypt, e_toml_parse = (\<lambda>_. None), e_toml_print = (\<lambda>_. []), e_mtime = (\<lambda>_. Some ''24.01.2022 18:30:00'')\<rparr>"

definition listed_entries :: "(string \<times> node) list" where
  "listed_entries = [(''.tds'', Dir []), (''my pictures'', Dir []), (''a.txt'', File ''abc'')]"

lemmas listed_path_defs = listed_entries_def sample_world_def is_path_forbidden_def path_append_def is_absolute_def
  has_filename_def starts_with_def

theorem listing_understood_witness:
  "\<exists>ls body. ls_entries listed_env (w_server sample_world) ''/srv'' True True listed_entries = Inr ls \<and>
     analyseMultilineResponse ''ls'' (server_response ok ''ls'' ls) [] = Some (OK, server_response ok ''ls'' ls, body) \<and>
     map_sum id li_names (list_words (stream_words body) 0 [] (initial_listing ''/'')) = Inr [''my pictures/'', ''a.txt'']"
proof -
  have "listable ''.tds''" "listable ''my pictures''" "listable ''a.txt''" "listable_time ''24.01.2022 18:30:00''" by code_simp+
  then have ok: "list_all (entry_listable listed_env ''/srv'') listed_entries"
    by (simp add: entry_listable_def listed_entries_def listed_env_def)
  have vis: "map shown_name (visible (w_server sample_world) ''/srv'' listed_entries) = [''my pictures/'', ''a.txt'']"
    "list_all (\<lambda>x. length (fst x) \<le> 40) (visible (w_server sample_world) ''/srv'' listed_entries)"
    by (simp_all add: visible_def shown_name_def listed_path_defs)
  obtain ls where ls: "ls_entries listed_env (w_server sample_world) ''/srv'' True True listed_entries = Inr ls"
    by (simp add: listed_path_defs)
  from listing_understood [OF ok ls, of "[]" "initial_listing ''/''"] ls vis show ?thesis
    by (auto simp: initial_listing_def)
qed

end
