(* ===== verification/Command_Effects.thy ===== *)
theory Command_Effects
  imports Command_Executor
begin

text \<open>
  What the file commands do to the disk, seen as a map from locations to entries: creating a
  directory adds one entry, removing a name deletes the subtree, renaming and moving transfer it;
  and what another client has locked stays where it is.
\<close>

section \<open>File system operations on a canonical directory\<close>

text \<open>A directory as commands see it: its canonical path, and its location in the tree.\<close>

definition directory_at :: "disk \<Rightarrow> loc \<Rightarrow> bool" where
  "directory_at d l \<longleftrightarrow> list_all plain_name l \<and> obs (tree d) l = Some Directory \<and> obs (tree d) [] = Some Directory"

lemma directory_at_root: "wf_node (tree d) \<Longrightarrow> obs (tree d) l = Some Directory \<Longrightarrow> directory_at d l"
proof -
  assume wf: "wf_node (tree d)" and dir: "obs (tree d) l = Some Directory"
  have "list_all plain_name l" using wf_plain_names [OF wf] dir by (auto simp: obs_def)
  moreover have "obs (tree d) [] = Some Directory" using dir obs_prefix_closed [of "tree d" l "[]"] obs_parent [of "tree d" "[]"] by (cases l) auto
  ultimately show ?thesis using dir by (simp add: directory_at_def)
qed

lemma resolve_directory: "directory_at d l \<Longrightarrow> resolve d (canonical_of l) = Inr l"
  by (simp add: directory_at_def resolve_canonical)

lemma plain_nameD: "plain_name n \<Longrightarrow> n \<noteq> [] \<and> sep \<notin> set n"
  by (auto simp: plain_name_def)

lemma resolve_entry:
  assumes "directory_at d l" and "plain_name n"
  shows "resolve d (path_append (canonical_of l) n) = (if obs (tree d) (l @ [n]) = None then Inl ENOENT else Inr (l @ [n]))"
  using resolve_path_append [OF canonical_nonempty, of n d l] resolve_directory [OF assms(1)] walk_single_plain [OF assms(2)]
    assms plain_nameD [OF assms(2)] by (simp add: directory_at_def)

lemma entry_exists:
  assumes "directory_at d l" and "plain_name n"
  shows "fs_exists d (path_append (canonical_of l) n) \<longleftrightarrow> obs (tree d) (l @ [n]) \<noteq> None"
  using resolve_entry [OF assms] by (simp add: fs_exists_def node_at_def obs_def)

lemma entry_parent:
  assumes "directory_at d l" and "plain_name n"
  shows "resolve_parent d (path_append (canonical_of l) n) = Inr l" and "last_component (path_append (canonical_of l) n) = n"
    and "\<not> ends_in_sep (path_append (canonical_of l) n)"
proof -
  have n: "n \<noteq> []" "sep \<notin> set n" using plain_nameD [OF assms(2)] by simp_all
  show "resolve_parent d (path_append (canonical_of l) n) = Inr l"
    using resolve_parent_path_append [OF canonical_nonempty n(2,1) resolve_directory [OF assms(1)]] assms(1) by (simp add: directory_at_def)
  show "last_component (path_append (canonical_of l) n) = n" by (rule last_component_path_append [OF canonical_nonempty n(2,1)])
  have "last (path_append (canonical_of l) n) = last n" using n by (cases n) (auto simp: path_append_def)
  moreover have "last n \<noteq> sep" using last_in_set [OF n(1)] n(2) by metis
  ultimately show "\<not> ends_in_sep (path_append (canonical_of l) n)" by (simp add: ends_in_sep_def)
qed

text \<open>The operations on the map of entries.\<close>

definition without :: "(loc \<Rightarrow> entry option) \<Rightarrow> loc \<Rightarrow> loc \<Rightarrow> entry option" where
  "without m x = (\<lambda>y. if prefix x y then None else m y)"

definition moved :: "(loc \<Rightarrow> entry option) \<Rightarrow> loc \<Rightarrow> loc \<Rightarrow> loc \<Rightarrow> entry option" where
  "moved m src dst = (\<lambda>y. if prefix dst y then m (src @ drop (length dst) y) else without m src y)"

lemma remove_all_run:
  assumes "directory_at d l" and "plain_name n" and "lookup (tree d) (l @ [n]) = Some x"
  shows "\<exists>d'. fs_remove_all d (path_append (canonical_of l) n) = (Inr (node_count x), d') \<and>
    obs (tree d') = without (obs (tree d)) (l @ [n]) \<and> working_dir d' = working_dir d"
proof -
  let ?p = "path_append (canonical_of l) n"
  have ne: "n \<noteq> ''.''" "n \<noteq> ''..''" using assms(2) by (simp_all add: plain_name_def)
  have here: "resolve d ?p = Inr (l @ [n])" using resolve_entry [OF assms(1,2)] assms(3) by (simp add: obs_def)
  have remove: "remove_path e ?p k = (Inr (k + 1), e\<lparr>tree := del_entry l n (tree e)\<rparr>)" if "resolve e ?p = Inr (l @ [n])" for e k
    using that ne entry_parent(2) [OF assms(1,2)] by (simp add: remove_path_def)
  have dir: "obs (tree d) l = Some Directory" using assms(1) by (simp add: directory_at_def)
  show ?thesis
  proof (cases x)
    case (File b)
    with here assms(3) remove [OF here, of 0] show ?thesis
      by (auto simp: fs_remove_all_def without_def obs_del_entry [OF dir])
  next
    case (Dir es)
    let ?e = "d\<lparr>tree := map_dir (l @ [n]) (\<lambda>_. []) (tree d)\<rparr>"
    have sub: "obs (tree d) (l @ [n]) = Some Directory" using assms(3) Dir by (simp add: obs_def)
    note clear = obs_clear_dir [OF sub]
    have "directory_at ?e l" using assms(1) clear [of "[]"] clear [of l] by (auto simp: directory_at_def strict_prefix_def)
    then have "resolve ?e ?p = Inr (l @ [n])" using resolve_entry [of ?e l n] assms(2) sub by (simp add: clear)
    note step = remove [OF this, of "node_count (Dir es) - 1"]
    have dir': "obs (tree ?e) l = Some Directory" using dir by (auto simp: clear strict_prefix_def)
    have "obs (del_entry l n (tree ?e)) = without (obs (tree d)) (l @ [n])"
      using obs_del_entry [OF dir'] by (auto simp: fun_eq_iff without_def clear strict_prefix_def)
    then show ?thesis using here assms(3) Dir step by (simp add: fs_remove_all_def)
  qed
qed

lemma rename_run:
  assumes "directory_at d l" and "plain_name n" and "directory_at d k" and "plain_name m"
    and "obs (tree d) (l @ [n]) \<noteq> None" and "obs (tree d) (k @ [m]) = None" and "\<not> prefix (l @ [n]) (k @ [m])"
  shows "\<exists>d'. fs_rename d (path_append (canonical_of l) n) (path_append (canonical_of k) m) = (None, d') \<and>
    obs (tree d') = moved (obs (tree d)) (l @ [n]) (k @ [m]) \<and> working_dir d' = working_dir d"
proof -
  obtain x where x: "lookup (tree d) (l @ [n]) = Some x" using assms(5) by (auto simp: obs_def)
  have none: "lookup (tree d) (k @ [m]) = None" using assms(6) by (simp add: obs_def)
  have res: "resolve d (path_append (canonical_of l) n) = Inr (l @ [n])" using resolve_entry [OF assms(1,2)] assms(5) by simp
  have dirs: "obs (tree d) l = Some Directory" "obs (tree d) k = Some Directory" using assms(1,3) by (simp_all add: directory_at_def)
  let ?t = "move_entry (tree d) (l @ [n]) x k m"
  have kdir: "obs (del_entry l n (tree d)) k = Some Directory"
    using dirs assms(7) by (auto simp: obs_del_entry [OF dirs(1)] prefix_def)
  have "obs ?t = moved (obs (tree d)) (l @ [n]) (k @ [m])"
    using obs_append [of "tree d" "l @ [n]"] x
    by (auto simp: fun_eq_iff move_entry_def moved_def without_def obs_put_entry [OF kdir] obs_del_entry [OF dirs(1)])
  moreover have "fs_rename d (path_append (canonical_of l) n) (path_append (canonical_of k) m) = (None, d\<lparr>tree := ?t\<rparr>)"
    using res x none assms(2,4,7) entry_parent [OF assms(1,2)] entry_parent [OF assms(3,4)]
    by (auto simp: fs_rename_def rename_onto_def Let_def split: node.splits)
  ultimately show ?thesis by auto
qed


section \<open>Canonical paths and locks\<close>

lemma join_with_append: "xs \<noteq> [] \<Longrightarrow> ys \<noteq> [] \<Longrightarrow> join_with sep (xs @ ys) = join_with sep xs @ sep # join_with sep ys"
  by (induction xs) auto

lemma canonical_extend:
  assumes "x \<noteq> []"
  shows "\<exists>r. canonical_of (x @ z) = canonical_of x @ r"
  using assms join_with_append [of x z] by (cases z) (auto simp: canonical_of_def)

lemma canonical_append:
  assumes "list_all plain_name l" and "plain_name n"
  shows "path_append (canonical_of l) n = canonical_of (l @ [n])"
proof (cases "l = []")
  case True
  then show ?thesis using assms(2) by (cases n) (auto simp: path_append_def canonical_of_def plain_name_def has_filename_def)
next
  case False
  have word: "last l \<noteq> []" "sep \<notin> set (last l)" using assms(1) False plain_nameD by (auto simp: list_all_iff)
  have "last (join_with sep l) = last (last l) \<and> join_with sep l \<noteq> []" using False word(1)
  proof (induction l rule: rev_induct)
    case (snoc a l)
    then show ?case by (cases "l = []") (simp_all add: join_with_append)
  qed simp
  moreover have "last (last l) \<noteq> sep" using last_in_set [OF word(1)] word(2) by metis
  ultimately have "has_filename (canonical_of l)" by (simp add: has_filename_def canonical_of_def)
  moreover have "\<not> is_absolute n" using plain_nameD [OF assms(2)] by (cases n) auto
  ultimately show ?thesis using False join_with_append [of l "[n]"] by (simp add: path_append_def canonical_of_def)
qed

lemma prefix_starts_with: "x \<noteq> [] \<Longrightarrow> prefix x k \<Longrightarrow> starts_with (canonical_of k) (canonical_of x)"
  using canonical_extend [of x] by (auto simp: prefix_def starts_with_prefix)

section \<open>The commands\<close>

definition stands_in :: "exec \<Rightarrow> loc \<Rightarrow> bool" where
  "stands_in st l \<longleftrightarrow> get_current_path st = (Inr (canonical_of l), st) \<and> directory_at (the_disk st) l"

abbreviation entries :: "exec \<Rightarrow> loc \<Rightarrow> entry option" where
  "entries st \<equiv> obs (tree (the_disk st))"

abbreviation with_disk :: "disk \<Rightarrow> exec \<Rightarrow> exec" where
  "with_disk d st \<equiv> on_world (set_disk d) st"

definition entry_locked :: "exec \<Rightarrow> loc \<Rightarrow> bool" where
  "entry_locked st x \<longleftrightarrow> (\<exists>k\<in>set (live_locks (ex_world st)). starts_with (get_locked_path k) (canonical_of x))"

lemma stands_inD:
  assumes "stands_in st l" and "plain_name n"
  shows "path_append (canonical_of l) n = canonical_of (l @ [n])"
    and "fs_exists (the_disk st) (canonical_of (l @ [n])) \<longleftrightarrow> entries st (l @ [n]) \<noteq> None"
    and "is_path_locked (ex_world st) (canonical_of (l @ [n])) = Inr (entry_locked st (l @ [n]))"
    and "get_current_path st = (Inr (canonical_of l), st)"
proof -
  have l: "list_all plain_name l" "directory_at (the_disk st) l" using assms(1) by (simp_all add: stands_in_def directory_at_def)
  show c: "path_append (canonical_of l) n = canonical_of (l @ [n])" by (rule canonical_append [OF l(1) assms(2)])
  show "fs_exists (the_disk st) (canonical_of (l @ [n])) \<longleftrightarrow> entries st (l @ [n]) \<noteq> None"
    using entry_exists [OF l(2) assms(2)] by (simp add: c)
  show "is_path_locked (ex_world st) (canonical_of (l @ [n])) = Inr (entry_locked st (l @ [n]))"
    using any_locked_absolute [of "canonical_of (l @ [n])"] by (simp add: is_path_locked_def entry_locked_def canonical_of_def)
  show "get_current_path st = (Inr (canonical_of l), st)" using assms(1) by (simp add: stands_in_def)
qed

lemma mkdir_effect:
  assumes "stands_in st l" and "plain_name n"
  shows "if entries st (l @ [n]) \<noteq> None
    then execute_mkdir (Some n) rb st = (Inl (ProtocolError file_already_exists ''this directory already exists''), st)
    else \<exists>d. execute_mkdir (Some n) rb st = (Inr rb, with_disk d st) \<and> obs (tree d) = (entries st)(l @ [n] \<mapsto> Directory)"
proof (cases "entries st (l @ [n]) = None")
  case True
  note facts = stands_inD [OF assms]
  have "directory_at (the_disk st) l" using assms(1) by (simp add: stands_in_def)
  then obtain d where "fs_create_directory (the_disk st) (canonical_of (l @ [n])) = (Inr True, d)"
    "obs (tree d) = (entries st)(l @ [n] \<mapsto> Directory)"
    using create_directory_run [OF resolve_directory [of "the_disk st" l] _ canonical_nonempty assms(2) True] facts(1)
    by (auto simp: directory_at_def)
  then show ?thesis using facts True
    by (auto simp: execute_mkdir_def bind_def need_def ret_def gets_def on_disk_def the_disk_def)
next
  case False
  with stands_inD [OF assms] show ?thesis by (simp add: execute_mkdir_def bind_def need_def ret_def gets_def raise_def)
qed

lemma rm_effect:
  assumes "stands_in st l" and "plain_name n"
  shows "case lookup (tree (the_disk st)) (l @ [n]) of
      None \<Rightarrow> execute_rm (Some n) rb st = (Inl (protocol_error not_found), st)
    | Some x \<Rightarrow>
        if entry_locked st (l @ [n]) then execute_rm (Some n) rb st = (Inl (protocol_error in_use), st)
        else \<exists>d. execute_rm (Some n) rb st = (Inr (add_line (nat_to_string (node_count x)) rb), with_disk d st) \<and>
               obs (tree d) = without (entries st) (l @ [n])"
proof (cases "lookup (tree (the_disk st)) (l @ [n])")
  case None
  with stands_inD [OF assms] show ?thesis by (simp add: execute_rm_def bind_def need_def ret_def gets_def raise_def obs_def)
next
  case (Some x)
  note facts = stands_inD [OF assms]
  have dir: "directory_at (the_disk st) l" using assms(1) by (simp add: stands_in_def)
  obtain d where "fs_remove_all (the_disk st) (canonical_of (l @ [n])) = (Inr (node_count x), d)"
    "obs (tree d) = without (entries st) (l @ [n])"
    using remove_all_run [OF dir assms(2) Some] facts(1) by auto
  moreover have "entries st (l @ [n]) \<noteq> None" using Some by (simp add: obs_def)
  ultimately show ?thesis using facts Some
    by (auto simp: execute_rm_def bind_def need_def ret_def gets_def raise_def from_sum_def on_disk_def the_disk_def)
qed

lemma path_elems_entry:
  assumes "directory_at d l" and "plain_name n"
  shows "path_elems (path_append (canonical_of l) n) = [sep] # l @ [n]"
proof -
  have plain: "list_all plain_name (l @ [n])" using assms by (simp add: directory_at_def)
  have c: "path_append (canonical_of l) n = canonical_of (l @ [n])"
    using canonical_append [OF _ assms(2), of l] assms(1) by (simp add: directory_at_def)
  have words: "\<forall>w\<in>set (l @ [n]). sep \<notin> set w" "\<forall>w\<in>set (l @ [n]). w \<noteq> []"
    using plain plain_nameD unfolding list_all_iff by blast+
  have "split_on sep (canonical_of (l @ [n])) = [] # l @ [n]"
    using split_on_join [OF _ words(1)] split_on_append [of sep "[]" "join_with sep (l @ [n])"] by (simp add: canonical_of_def split_on_no_sep)
  moreover have "filter (\<lambda>w. w \<noteq> []) (l @ [n]) = l @ [n]" using words(2) by (simp add: filter_id_conv)
  ultimately have "names_of (canonical_of (l @ [n])) = l @ [n]" by (simp add: names_of_def)
  then show ?thesis using entry_parent(3) [OF assms] unfolding c
    by (simp add: path_elems_def ends_in_sep_def) (simp add: canonical_of_def)
qed

lemma rename_effect:
  assumes "stands_in st l" and "plain_name n" and "plain_name m" and "n \<noteq> m"
    and "entries st (l @ [n]) \<noteq> None" and "\<not> entry_locked st (l @ [n])"
  shows "if entries st (l @ [m]) \<noteq> None
    then execute_rename (Some n) (Some m) rb st = (Inl (protocol_error file_already_exists), st)
    else \<exists>d. execute_rename (Some n) (Some m) rb st = (Inr rb, with_disk d st) \<and>
           obs (tree d) = moved (entries st) (l @ [n]) (l @ [m])"
proof -
  note n = stands_inD [OF assms(1,2)] and m = stands_inD [OF assms(1,3)]
  have dir: "directory_at (the_disk st) l" using assms(1) by (simp add: stands_in_def)
  have differ: "\<not> path_eq (canonical_of (l @ [n])) (canonical_of (l @ [m]))"
    using path_elems_entry [OF dir assms(2)] path_elems_entry [OF dir assms(3)] n(1) m(1) assms(4) by (simp add: path_eq_def)
  show ?thesis
  proof (cases "entries st (l @ [m]) = None")
    case True
    obtain d where "fs_rename (the_disk st) (canonical_of (l @ [n])) (canonical_of (l @ [m])) = (None, d)"
      "obs (tree d) = moved (entries st) (l @ [n]) (l @ [m])"
      using rename_run [OF dir assms(2) dir assms(3,5) True] assms(4) n(1) m(1) by auto
    with n m assms(5,6) differ True show ?thesis
      by (auto simp: execute_rename_def bind_def need_def ret_def gets_def from_sum_def andthen_def on_disk_def the_disk_def check_errc_def)
  next
    case False
    with n m assms(5,6) differ show ?thesis
      by (simp add: execute_rename_def bind_def need_def ret_def gets_def raise_def from_sum_def)
  qed
qed

lemma mv_effect:
  assumes "stands_in st l" and "plain_name n" and "directory_at (the_disk st) k"
    and "entries st (l @ [n]) \<noteq> None" and "\<not> entry_locked st (l @ [n])" and "\<not> prefix (l @ [n]) k"
  shows "if entries st (k @ [n]) \<noteq> None
    then execute_mv (Some (canonical_of k)) (Some n) rb st = (Inl (protocol_error file_already_exists), st)
    else \<exists>d. execute_mv (Some (canonical_of k)) (Some n) rb st = (Inr rb, with_disk d st) \<and>
           obs (tree d) = moved (entries st) (l @ [n]) (k @ [n])"
proof -
  note n = stands_inD [OF assms(1,2)]
  have dir: "directory_at (the_disk st) l" using assms(1) by (simp add: stands_in_def)
  have target: "path_append (canonical_of k) n = canonical_of (k @ [n])"
    using canonical_append [OF _ assms(2), of k] assms(3) by (simp add: directory_at_def)
  have there: "fs_exists (the_disk st) (canonical_of (k @ [n])) \<longleftrightarrow> entries st (k @ [n]) \<noteq> None"
    using entry_exists [OF assms(3,2)] by (simp add: target)
  show ?thesis
  proof (cases "entries st (k @ [n]) = None")
    case True
    have "\<not> prefix (l @ [n]) (k @ [n])" using assms(4,6) True by (auto simp: prefix_snoc)
    then obtain d where "fs_rename (the_disk st) (canonical_of (l @ [n])) (canonical_of (k @ [n])) = (None, d)"
      "obs (tree d) = moved (entries st) (l @ [n]) (k @ [n])"
      using rename_run [OF dir assms(2,3,2,4) True] n(1) target by auto
    with n target there assms(5) True show ?thesis
      by (auto simp: execute_mv_def bind_def value_of_def ret_def gets_def from_sum_def andthen_def on_disk_def the_disk_def
          check_errc_def relative_path_to_def)
  next
    case False
    with n target there assms(5) show ?thesis
      by (simp add: execute_mv_def bind_def value_of_def ret_def gets_def raise_def from_sum_def)
  qed
qed

lemma copy_target_free:
  "\<not> fs_exists d (copy_target d dir name c p) \<and>
   (copy_target d dir name c p = p \<or> (\<exists>j. copy_target d dir name c p = path_append dir (copy_name name j)))"
proof (induction d dir name c p rule: copy_target.induct)
  case (1 d dir name c p)
  show ?case
  proof (cases "fs_exists d p")
    case True
    with 1 show ?thesis by (subst (1 2 3) copy_target.simps) auto
  next
    case False
    then show ?thesis by (simp add: copy_target.simps [of d dir name c p])
  qed
qed

lemma plain_copy_name: "plain_name n \<Longrightarrow> plain_name (copy_name n j)"
proof -
  assume n: "plain_name n"
  have "sep \<notin> set (nat_to_string j)" using nat_to_string_digits [of j] by (auto simp: in_char_range_def char_code_def)
  then show ?thesis using n by (auto simp: plain_name_def copy_name_def append_eq_Cons_conv)
qed

text \<open>A copy lands under a name that was free in the target directory.\<close>

lemma cp_effect:
  assumes "stands_in st l" and "plain_name n" and "directory_at (the_disk st) k" and "entries st (l @ [n]) = Some (Regular b)"
  shows "\<exists>m d. (m = n \<or> (\<exists>j. m = copy_name n j)) \<and> entries st (k @ [m]) = None \<and>
    execute_cp (Some (canonical_of k)) (Some n) rb st = (Inr rb, with_disk d st) \<and>
    obs (tree d) = (entries st)(k @ [m] \<mapsto> Regular b)"
proof -
  let ?d = "the_disk st"
  note facts = stands_inD [OF assms(1,2)]
  have dir: "directory_at ?d l" using assms(1) by (simp add: stands_in_def)
  let ?q = "copy_target ?d (canonical_of k) n 1 (path_append (canonical_of k) n)"
  obtain m where m: "m = n \<or> (\<exists>j. m = copy_name n j)" "?q = path_append (canonical_of k) m" "\<not> fs_exists ?d ?q"
    using copy_target_free [of ?d "canonical_of k" n 1 "path_append (canonical_of k) n"] by blast
  have plain: "plain_name m" using m(1) plain_copy_name [OF assms(2)] assms(2) by blast
  have free: "entries st (k @ [m]) = None" using entry_exists [OF assms(3) plain] m(2,3) by simp
  have kdir: "entries st k = Some Directory" using assms(3) by (simp add: directory_at_def)
  have src: "resolve ?d (canonical_of (l @ [n])) = Inr (l @ [n])" "lookup (tree ?d) (l @ [n]) = Some (File b)"
    using resolve_entry [OF dir assms(2)] assms(4) facts(1) by (auto simp: obs_def elim: entry_of.elims)
  let ?e = "?d\<lparr>tree := put_entry k m (File b) (tree ?d)\<rparr>"
  have "obs (tree ?e) = (entries st)(k @ [m] \<mapsto> Regular b)"
  proof
    fix x
    have "entries st x = None" if "prefix (k @ [m]) x" using obs_prefix_closed [of "tree ?d" x] that free by blast
    with obs_of_file [of k m x b] show "obs (tree ?e) x = ((entries st)(k @ [m] \<mapsto> Regular b)) x"
      by (auto simp: obs_put_entry [OF kdir])
  qed
  moreover have "fs_copy_file ?d (canonical_of (l @ [n])) ?q = (None, ?e)"
    using src entry_parent [OF assms(3) plain] plain m(2,3) by (simp add: fs_copy_file_def fs_exists_def)
  ultimately show ?thesis using m(1) free facts(1,4)
    by (intro exI [of _ m] exI [of _ ?e])
      (auto simp: execute_cp_def bind_def value_of_def ret_def gets_def from_sum_def andthen_def on_disk_def the_disk_def
        check_errc_def relative_path_to_def)
qed

lemma locked_refused:
  assumes "stands_in st l" and "plain_name n" and "entry_locked st (l @ [n])" and "entries st (l @ [n]) \<noteq> None"
  shows "execute_rm (Some n) rb st = (Inl (protocol_error in_use), st)"
    and "execute_rename (Some n) (Some m) rb st = (Inl (protocol_error in_use), st)"
    and "execute_mv (Some k) (Some n) rb st = (Inl (protocol_error in_use), st)"
  using stands_inD [OF assms(1,2)] assms(3,4)
  by (simp_all add: execute_rm_def execute_rename_def execute_mv_def bind_def need_def value_of_def ret_def gets_def raise_def from_sum_def)

lemma missing_refused:
  assumes "stands_in st l" and "plain_name n" and "entries st (l @ [n]) = None"
  shows "execute_rm (Some n) rb st = (Inl (protocol_error not_found), st)"
    and "execute_rename (Some n) (Some m) rb st = (Inl (protocol_error not_found), st)"
  using stands_inD [OF assms(1,2)] assms(3)
  by (simp_all add: execute_rm_def execute_rename_def bind_def need_def ret_def gets_def raise_def)

lemma rename_same:
  assumes "stands_in st l" and "plain_name n" and "\<not> entry_locked st (l @ [n])" and "entries st (l @ [n]) \<noteq> None"
  shows "execute_rename (Some n) (Some n) rb st = (Inr rb, st)"
  using stands_inD [OF assms(1,2)] assms(3,4)
  by (simp add: execute_rename_def bind_def need_def ret_def gets_def from_sum_def path_eq_def)

lemma lock_not_below:
  assumes "lk \<in> set (live_locks (ex_world st))" and "get_locked_path lk = canonical_of x" and "\<not> entry_locked st y" and "y \<noteq> []"
  shows "\<not> prefix y x"
  using assms prefix_starts_with [of y x] by (auto simp: entry_locked_def)

lemma moved_elsewhere:
  assumes "\<not> prefix src x" and "m dst = None" and "m x \<noteq> None" and "\<And>y. prefix dst y \<Longrightarrow> m y = None"
  shows "moved m src dst x = m x"
  using assms by (auto simp: moved_def without_def)

section \<open>Properties\<close>



text \<open>A client in the root of the server; another one stands in \<open>docs\<close>.\<close>

definition shared_session :: exec where
  "shared_session = \<lparr>ex_world = sample_world
     \<lparr>w_server := (w_server sample_world)\<lparr>m_path_locks := [1, 2]\<rparr>,
      w_heap := \<lparr>auth_objects = Map.empty,
        lock_objects = [1 \<mapsto> PathLock ''/srv/docs'', 2 \<mapsto> PathLock ''/srv''], next_oid = 3\<rparr>\<rparr>,
     ex_client = new_client_context\<lparr>m_current_path_lock := Some 2\<rparr>\<rparr>"

lemma shared_session_disk: "the_disk shared_session = sample_disk"
  by (simp add: shared_session_def the_disk_def sample_world_def)

lemma shared_session_entries:
  "lookup (tree sample_disk) [''srv'', ''pub''] = Some (Dir [])"
  "lookup (tree sample_disk) [''srv'', ''docs''] = Some (Dir [(''a'', File ''hello'')])"
  "directory_at sample_disk [''srv'']" "directory_at sample_disk [''srv'', ''docs'']"
  by (simp_all add: sample_disk_def directory_at_def obs_def plain_name_def)

lemma shared_session_facts:
  "stands_in shared_session [''srv'']" "directory_at (the_disk shared_session) [''srv'', ''docs'']"
  "live_locks (ex_world shared_session) = [PathLock ''/srv/docs'', PathLock ''/srv'']"
  "plain_name ''pub''" "plain_name ''docs''" "plain_name ''x''"
  using shared_session_entries
  by (simp_all add: stands_in_def shared_session_disk)
    (simp_all add: shared_session_def get_current_path_def path_lock_of_def canonical_of_def ret_def sample_world_def
      live_locks_def List.map_filter_def new_client_context_def plain_name_def)



lemma resolve_parent_of_directory:
  assumes "directory_at d l" and "l \<noteq> []"
  shows "resolve d (canonical_of l @ ''/..'') = Inr (butlast l)"
proof -
  have "walk (tree d) [] (split_on sep (canonical_of l)) = Inr l"
    using resolve_directory [OF assms(1)] by (simp add: resolve_def start_dir_def canonical_of_def)
  moreover have "split_on sep (canonical_of l @ ''/..'') = split_on sep (canonical_of l) @ [''..'']"
    using split_on_append_general [of sep "canonical_of l" "''..''"] by (simp add: split_on_no_sep)
  ultimately have "walk (tree d) [] (split_on sep (canonical_of l @ ''/..'')) = walk (tree d) l [''..'']"
    by (simp add: walk_append)
  with assms(1) show ?thesis by (simp add: resolve_def start_dir_def directory_at_def canonical_of_def)
qed


lemma construct_command_name: "construct_command n = Some c \<Longrightarrow> command_name c = n"
  by (auto simp: construct_command_def command_table_def split: if_splits)





end
