(* ===== verification/End_To_End.thy ===== *)
theory End_To_End
  imports Client_Server Client_Session Command_Effects Command_Safety
begin

text \<open>
  A command from the console client to the disk of the server and back: the request the client
  writes (\<open>tdpservice.cpp\<close>), the input loop of the connection (\<open>client.cpp\<close>), the dispatch and the
  execution (\<open>execution/mkdir.cpp\<close>), the response and what the client makes of it.
\<close>

section \<open>The command on the server\<close>

definition mkdir_request :: "string \<Rightarrow> bytes" where
  "mkdir_request n = encode_request ''mkdir'' [''name:'' @ quoted_text n]"

abbreviation may_write :: "AuthToken \<Rightarrow> bool" where
  "may_write a \<equiv> perms_and perm_write (at_perms a) = perm_write"

text \<open>The answer of the server: permission first, then whether the name is free.\<close>

definition mkdir_code :: "AuthToken \<Rightarrow> bool \<Rightarrow> ProtocolCode" where
  "mkdir_code a free = (if \<not> may_write a then not_enough_perms else if free then ok else file_already_exists)"

definition mkdir_lines :: "AuthToken \<Rightarrow> bool \<Rightarrow> string list" where
  "mkdir_lines a free = (if \<not> may_write a then [''not enough permissions''] else if free then [] else [''this directory already exists''])"

lemma mkdir_lines_facts:
  "plain_lines (mkdir_lines a free)" "if mkdir_code a free = ok then mkdir_lines a free = [] else length (mkdir_lines a free) = 1"
  by (simp_all add: mkdir_lines_def mkdir_code_def plain_lines_def newline_def)

lemma mkdir_parsed:
  assumes "plain_name n"
  shows "parse_fields (Mkdir None) [\<lparr>f_name = ''name'', f_value = string_value n\<rparr>] st = (Inr (Mkdir (Some n)), st)"
proof -
  have "path_eq n (filename n)" using assms plain_nameD path_eq_filename by blast
  then show ?thesis
    by (simp add: parse_mkdir_def only_name_field_def plain_name_field_def name_value_def get_string_def action_defs)
qed

lemma run_mkdir:
  assumes "stands_in st l" and "is_authorized (ex_client st)" and "get_auth_token st = (Inr a, st)" and "plain_name n"
    and "free = (entries st (l @ [n]) = None)"
  shows "if mkdir_code a free = ok
    then \<exists>d. run_command e ''mkdir'' [\<lparr>f_name = ''name'', f_value = string_value n\<rparr>] st =
           (Inr (make_response (server_response ok ''mkdir'' [])), with_disk d st) \<and> obs (tree d) = (entries st)(l @ [n] \<mapsto> Directory)
    else run_command e ''mkdir'' [\<lparr>f_name = ''name'', f_value = string_value n\<rparr>] st =
           (Inl (ProtocolError (mkdir_code a free) (hd (mkdir_lines a free))), st)"
proof -
  let ?rb = "set_command_name ''mkdir'' (set_code ok new_builder)"
  have dispatch: "set_command ''mkdir'' st = (if may_write a then (Inr (Mkdir None, ?rb), st) else (Inl (protocol_error not_enough_perms), st))"
    using assms(2,3)
    by (simp add: set_command_def construct_command_def command_table_def check_authorization_def check_permissions_def action_defs)
  have "get_response ?rb = make_response (server_response ok ''mkdir'' [])" by (simp add: server_response_def get_response_def make_response_def)
  with dispatch mkdir_parsed [OF assms(4)] mkdir_effect [OF assms(1,4), of ?rb] assms(5) show ?thesis
    by (auto simp: run_command_def mkdir_code_def mkdir_lines_def bind_def ret_def protocol_error_def split: if_splits)
qed

section \<open>The connection\<close>

lemma mkdir_request_read:
  assumes "newline \<notin> set n" and "length n < 2041"
  shows "commit_bytes (new_interpreter k) (mkdir_request n) =
    (Inr (), (new_interpreter k)\<lparr>m_request := Some \<lparr>r_name = ''mkdir'', r_fields = [\<lparr>f_name = ''name'', f_value = string_value n\<rparr>]\<rparr>\<rparr>, [])"
  unfolding mkdir_request_def
proof (rule request_read)
  have "short_line (''name'' @ CHR '':'' # quoted_text n)"
    using assms lower_names by (intro fitting_line) (simp_all add: quoted_text_def BUF_MAX_SIZE_def)
  then show "list_all short_line [''mkdir'', ''name:'' @ quoted_text n]"
    by (simp add: short_line_def newline_def max_line_length_def)
qed (use quoted_field [OF lower_names(1), of n] in simp_all)

lemma handle_mkdir:
  assumes "m_mode (context_of s) = mode_command" and "c_interpreter (ss_client s) = new_interpreter k" and "newline \<notin> set n" and "length n < 2041"
    and "stands_in (exec_of s) l" and "is_authorized (context_of s)" and "get_auth_token (exec_of s) = (Inr a, exec_of s)" and "plain_name n"
    and "free = (entries (exec_of s) (l @ [n]) = None)"
  shows "\<exists>s'. handle_input e s (mkdir_request n) = (Inr (), s') \<and>
    c_sender (ss_client s') = add_response (make_response (server_response (mkdir_code a free) ''mkdir'' (mkdir_lines a free))) (c_sender (ss_client s)) \<and>
    obs (tree (w_disk (ss_world s'))) =
      (if mkdir_code a free = ok then (entries (exec_of s))(l @ [n] \<mapsto> Directory) else entries (exec_of s))"
proof -
  let ?q = "\<lparr>r_name = ''mkdir'', r_fields = [\<lparr>f_name = ''name'', f_value = string_value n\<rparr>]\<rparr>"
  obtain it where it: "get_request ((new_interpreter k)\<lparr>m_request := Some ?q\<rparr>) = Inr (?q, it)"
    by (simp add: get_request_def)
  let ?s = "set_interpreter it s"
  have same: "exec_of ?s = exec_of s" by (simp add: exec_of_def)
  have turn: "handle_input e s (mkdir_request n) = (case execute_command e ?q ?s of (Inl err, s') \<Rightarrow> (Inl err, s') | (Inr _, s') \<Rightarrow> (Inr (), s'))"
    using assms(1,2) mkdir_request_read [OF assms(3,4), of k] it
    by (subst handle_input.simps) (auto simp: input_step_def handle_request_def has_available_request_def split: prod.splits sum.splits)
  have "is_authorized (ex_client (exec_of s))" using assms(6) by (simp add: exec_of_def)
  note run = run_mkdir [OF assms(5) this assms(7-9), of e]
  note edits = on_conn_def set_context_def put_response_def with_exec_def set_interpreter_def
  show ?thesis
  proof (cases "mkdir_code a free = ok")
    case True
    then obtain d where d: "run_command e ''mkdir'' [\<lparr>f_name = ''name'', f_value = string_value n\<rparr>] (exec_of s) =
        (Inr (make_response (server_response ok ''mkdir'' [])), with_disk d (exec_of s))" "obs (tree d) = (entries (exec_of s))(l @ [n] \<mapsto> Directory)"
      using run by auto
    have "mkdir_lines a free = []" using mkdir_lines_facts(2) [of a free] True by simp
    with d turn same assms(1) True show ?thesis
      by (simp add: execute_command_def Let_def on_world_def exec_of_def edits world_simps)
  next
    case False
    then obtain msg where msg: "mkdir_lines a free = [msg]" using mkdir_lines_facts(2) [of a free] by (cases "mkdir_lines a free") auto
    have "error_response (mkdir_code a free) ''mkdir'' msg = make_response (server_response (mkdir_code a free) ''mkdir'' [msg])"
      by (simp add: error_response_def server_response_def get_response_def make_response_def)
    with run False msg turn same show ?thesis by (simp add: execute_command_def exec_of_def edits the_disk_def)
  qed
qed

section \<open>Properties\<close>

text \<open>
  C12: creating a directory, from the client to the disk and back. A client that is logged in and
  stands in a directory sends \<open>mkdir\<close> with a name its console accepts. The server reads the request,
  answers it with one response behind those already queued, and the directory is there exactly if the answer is the
  code of success, which it is exactly for a user with the right to write and a name that was free; otherwise the disk
  is as it was. Whoever receives this answer to this request reports success exactly when the
  directory was created, and shows the server's code if it is below 410.
\<close>

theorem mkdir_end_to_end:
  assumes "m_mode (context_of s) = mode_command" and "c_interpreter (ss_client s) = new_interpreter k"
    and "stands_in (exec_of s) l" and "is_authorized (context_of s)" and "get_auth_token (exec_of s) = (Inr a, exec_of s)"
    and "plain_name n" and "newline \<notin> set n" and "length n < 2041"
  shows "\<exists>s' code ls. handle_input e s (mkdir_request n) = (Inr (), s') \<and>
    c_sender (ss_client s') = add_response (make_response (server_response code ''mkdir'' ls)) (c_sender (ss_client s)) \<and>
    (code = ok \<longleftrightarrow> may_write a \<and> entries (exec_of s) (l @ [n]) = None) \<and> (if code = ok then ls = [] else length ls = 1) \<and>
    obs (tree (w_disk (ss_world s'))) = (if code = ok then (entries (exec_of s))(l @ [n] \<mapsto> Directory) else entries (exec_of s)) \<and>
    (\<forall>t c. exchangeWithServer (mkdir_request n) 0 False (connectionToServer t) = (Inr True, c) \<and>
       x_data c = server_response code ''mkdir'' ls \<longrightarrow>
       (\<exists>t'. tdp_mkdir n t = (Inr (code = ok), t') \<and>
          error_code t' = (if code_value code < 410 then error_of_code (code_value code) else E_RESPONSE)))"
proof -
  define free where "free = (entries (exec_of s) (l @ [n]) = None)"
  let ?code = "mkdir_code a free" and ?ls = "mkdir_lines a free"
  from handle_mkdir [OF assms(1,2,7,8,3-6) free_def]
  obtain s' where "handle_input e s (mkdir_request n) = (Inr (), s')"
    "c_sender (ss_client s') = add_response (make_response (server_response ?code ''mkdir'' ?ls)) (c_sender (ss_client s))"
    "obs (tree (w_disk (ss_world s'))) = (if ?code = ok then (entries (exec_of s))(l @ [n] \<mapsto> Directory) else entries (exec_of s))"
    by blast
  moreover have "?code = ok \<longleftrightarrow> may_write a \<and> entries (exec_of s) (l @ [n]) = None" by (simp add: mkdir_code_def free_def)
  moreover have "\<exists>t'. tdp_mkdir n t = (Inr (?code = ok), t') \<and>
        error_code t' = (if code_value ?code < 410 then error_of_code (code_value ?code) else E_RESPONSE)"
    if "exchangeWithServer (mkdir_request n) 0 False (connectionToServer t) = (Inr True, c)" "x_data c = server_response ?code ''mkdir'' ?ls" for t c
    using mkdir_outcome [OF assms(8) that(1) [unfolded mkdir_request_def] that(2) mkdir_lines_facts] by blast
  ultimately show ?thesis using mkdir_lines_facts(2) [of a free] by blast
qed

definition ann_connection :: session where
  "ann_connection = \<lparr>ss_world = ex_world sample_session, ss_client = (new_client 0)\<lparr>c_context := ex_client sample_session\<rparr>\<rparr>"

lemma ann_exec: "exec_of ann_connection = sample_session"
  by (simp add: ann_connection_def exec_of_def)

theorem mkdir_end_to_end_witness:
  "\<exists>s'. handle_input sample_env ann_connection (mkdir_request ''new'') = (Inr (), s') \<and>
     c_sender (ss_client s') = add_response (make_response (server_response ok ''mkdir'' [])) new_sender \<and>
     obs (tree (w_disk (ss_world s'))) [''srv'', ''docs'', ''new''] = Some Directory"
proof -
  let ?a = "\<lparr>at_username = ''ann'', at_perms = perm_all\<rparr>"
  have "directory_at sample_disk [''srv'', ''docs'']" by (rule shared_session_entries)
  then have here: "stands_in (exec_of ann_connection) [''srv'', ''docs'']"
    by (simp add: ann_exec stands_in_def session_eval canonical_of_def ret_def)
  have token: "get_auth_token (exec_of ann_connection) = (Inr ?a, exec_of ann_connection)"
    unfolding ann_exec by (simp add: session_eval ret_def)
  have auth: "is_authorized (context_of ann_connection)"
    and mode: "m_mode (context_of ann_connection) = mode_command" "c_interpreter (ss_client ann_connection) = new_interpreter 0"
    and name: "plain_name ''new''" "newline \<notin> set ''new''" "length ''new'' < 2041"
    by (simp_all add: ann_connection_def new_client_def session_eval newline_def)
  have free: "may_write ?a" "entries (exec_of ann_connection) ([''srv'', ''docs''] @ [''new'']) = None"
    by (simp_all add: ann_exec session_eval)
  have sender: "c_sender (ss_client ann_connection) = new_sender" by (simp add: ann_connection_def new_client_def)
  from mkdir_end_to_end [OF mode here auth token name, of sample_env] free
  obtain s' where "handle_input sample_env ann_connection (mkdir_request ''new'') = (Inr (), s')"
    "c_sender (ss_client s') = add_response (make_response (server_response ok ''mkdir'' [])) (c_sender (ss_client ann_connection))"
    "obs (tree (w_disk (ss_world s'))) = (entries (exec_of ann_connection))([''srv'', ''docs''] @ [''new''] \<mapsto> Directory)" by auto
  then show ?thesis by (auto simp: sender)
qed

end
