(* ===== verification/Spec2Isabelle.thy ===== *)
theory Spec2Isabelle
  imports Server_Process Upload_Resume Console_Listing End_To_End
begin

text \<open>
  \<^bold>\<open>TinDox: a file server, its administration tool and its console client.\<close>

  \<^bold>\<open>The system.\<close> The server (\<open>src/server\<close>) shares a directory over TCP. A request is a command
  name, lines \<open>name:value\<close> and an empty line; a response is a code, the command name, lines and an
  empty line. Users are kept in a TOML file under \<open>.tds\<close> and have permissions; a logged-in client
  stands in a directory, which it locks, and may prepare one download and one upload. The same
  program initialises an instance, edits its users and runs it. The console client (\<open>src/cli\<close>) sends
  requests and analyses responses.

  \<^bold>\<open>How code is modelled.\<close> Classes are records, enumerations and variants datatypes, machine
  integers words (or integers with the conversion written out). An operation that may throw is an
  action (\<open>TDS_Prelude\<close>): it returns the exception or the result together with the state at that
  moment. Objects behind \<open>shared_ptr\<close>, \<open>unique_ptr\<close> and \<open>weak_ptr\<close> live in an explicit heap
  (\<open>Tokens\<close>); dereferencing a null pointer is an exception value of its own, so that its absence is
  a theorem. Loops are total functions with a termination proof, or structural recursions over
  the answers of the kernel. What the kernel answers (\<open>read\<close>, \<open>write\<close>, \<open>sendfile\<close>, \<open>epoll_wait\<close>,
  \<open>epoll_ctl\<close>, \<open>accept4\<close>), \<open>crypt\<close>, the TOML library, file times and the number of hardware
  threads are inputs of the definitions; no fuel is used.

  \<^bold>\<open>Theories of the server.\<close>

    \<^item> \<open>TDS_Prelude\<close>: actions, invariants of actions (\<open>keeps\<close>), strings and decimal numbers.
    \<^item> \<open>Errors\<close>: \<open>protocol_error.cpp\<close>, codes, messages, exceptions.
    \<^item> \<open>Permissions\<close>: \<open>user/permissions.cpp\<close>; letters and bit sets round trip.
    \<^item> \<open>Paths\<close>, \<open>Filesystem\<close>: the parts of \<open>std::filesystem\<close> and \<open>fstream\<close> the program uses, on a tree
      of directories and files. Every operation is related to a map from locations to entries
      (\<open>obs\<close>), which is what the properties speak of.
    \<^item> \<open>Protocol_Field\<close>, \<open>Interpreter\<close>: \<open>protocol/field.cpp\<close>, \<open>protocol_interpreter.cpp\<close>: grammar of
      fields, round trip of requests, independence of the cut into blocks, bounded memory. The locale
      \<open>byte_consumer\<close> of \<open>Byte_Stream\<close> states the contract of a consumer of input; the interpreter
      and the upload manager are its two interpretations.
    \<^item> \<open>User_Table\<close>: \<open>user/user_table.cpp\<close>, \<open>linux/hash.cpp\<close>: refinement of a map, users file.
    \<^item> \<open>Responses\<close>: \<open>response.cpp\<close>, \<open>response_builder.cpp\<close>, \<open>sender.cpp\<close>, \<open>receiver.cpp\<close>.
    \<^item> \<open>Tokens\<close>, \<open>Server_Context\<close>, \<open>Client_Context\<close>: \<open>protocol/*_token.cpp\<close>, \<open>path_lock.cpp\<close>,
      \<open>server_context.cpp\<close>, \<open>client_context.cpp\<close>: sessions, locks, ownership of heap objects. The
      lists of weak pointers share the locale of a registry, interpreted for sessions and for locks.
    \<^item> \<open>Commands\<close>, \<open>Command_Executor\<close>: \<open>protocol/execution/*\<close>, \<open>default_command_executor.hpp\<close>: the
      eighteen commands with their fields, and the dispatch with its checks.
    \<^item> \<open>Command_Safety\<close>, \<open>Command_Frame\<close>, \<open>Command_Effects\<close>: what a request keeps (ownership, sessions,
      tree), what it leaves alone (objects of other clients), and what the file commands do to the
      map of entries.
    \<^item> \<open>Transfers\<close>: \<open>download_manager.cpp\<close>, \<open>upload_manager.cpp\<close>, \<open>transfer_bytes.cpp\<close>.
    \<^item> \<open>Upload_Resume\<close>: an upload across two connections: the backup that the destructor of the upload
      manager writes, \<open>ul\<close> with \<open>retry\<close> that reads it, and the continuation of the partial file.
    \<^item> \<open>Client_Session\<close>, \<open>Session_Safety\<close>: \<open>server/client.cpp\<close>: the event handler of a connection, its
      termination and its invariant.
    \<^item> \<open>Config\<close>: \<open>config/*.cpp\<close>, \<open>ip/port.cpp\<close>, \<open>ip/address_v4.cpp\<close>, \<open>ip/endpoint_v4.cpp\<close>.
    \<^item> \<open>Server\<close>, \<open>Server_Safety\<close>: \<open>server/server.cpp\<close>, \<open>client_pool.cpp\<close>, \<open>client_service.cpp\<close>,
      \<open>client_service_supervisor.cpp\<close>, \<open>ip/tcp_listener.cpp\<close>, \<open>linux/signal_device.cpp\<close>: the step
      relation \<open>server_step\<close> interleaves connections and events of all services; the invariant
      of reachable states is proved by rule induction.
    \<^item> \<open>Devices\<close>: \<open>linux/*_device.cpp\<close>, \<open>linux/epoll_buffer.cpp\<close>, \<open>linux/terminal.cpp\<close>, the constructors of
      \<open>ip/tcp_socket.cpp\<close> and \<open>ip/tcp_listener.cpp\<close>: objects that own descriptors, and the set of open
      descriptors of the kernel; every run of their operations keeps each descriptor with one owner.
    \<^item> \<open>Server_Run\<close>: \<open>Server::configure\<close>, \<open>main_loop\<close>, \<open>launch\<close> and the destructor of \<open>server.cpp\<close>, with
      the events of the services between those of the main thread.
    \<^item> \<open>Admin_Cli\<close>: \<open>main.cpp\<close>, \<open>cli/*.cpp\<close>, \<open>cli/user_commands/*.cpp\<close>: the command line.
    \<^item> \<open>Server_Process\<close>: \<open>RunCommand::launch_server\<close>, the constructors of \<open>server.cpp\<close> and
      \<open>client_service_supervisor.cpp\<close> and the exit status of \<open>main.cpp\<close>: the command line, the devices and
      the server in one process. Members are scopes around the life of the server; the locale
      \<open>device_scope\<close> states what a class of devices promises, and its interpretations are the signals,
      the listener, the epoll devices and the pipe.

  \<^bold>\<open>Theories of the console client.\<close>

    \<^item> \<open>Response_Analyzer\<close>: \<open>responseanalyzer.cpp\<close>, \<open>connectionerror.h\<close>; positions are the rest of the
      buffer, and reading behind its end is a value of its own.
    \<^item> \<open>Console_Connection\<close>: \<open>connection.cpp\<close>; the phases of an exchange are its invariant. A call that
      has not returned when the answers of the kernel end has the result \<open>Waiting\<close>.
    \<^item> \<open>Tdp_Service\<close>: \<open>tdpservice.cpp\<close>, one method per command.
    \<^item> \<open>Client_Server\<close>: client and server together: the interpreter reads what the client sends, the
      client understands what the server answers.
    \<^item> \<open>Console_Tui\<close>: \<open>tui.cpp\<close>, \<open>modalinputwin.cpp\<close>, \<open>modalwarningwin.cpp\<close>: the handlers of the
      buttons and menus as functions of the events delivered by the widget library, the decisions to
      reconnect, and the login loop.
    \<^item> \<open>End_To_End\<close>: \<open>mkdir\<close> from the client through the connection and the executor of the server to the
      disk, and the response back to what the client reports.
    \<^item> \<open>Console_Listing\<close>: a listing from the server's \<open>ls\<close> to the client's menu.

  \<^bold>\<open>What is shown.\<close> In every reachable state of the server each connection is well-formed, no heap
  object is shared or lost, the limit of clients is kept and a user has at most one session;
  no event or request dereferences a null pointer, and the input loop ends on all inputs.
  Requests change the disk only with the right permission; the file commands act as insertions,
  deletions, transfers and copies on the map of entries, overwrite nothing and spare what others have
  locked; uploads and downloads deliver exactly the bytes they should, also when an upload was broken
  off and resumed. However the program ends, its descriptors are closed and no session is left. Parsers and printers
  round trip. Where the code does not do what it means to (an absolute path field leaves the root,
  input behind a running download is lost, an upload of the client hangs after a failed call, a
  download is not resumed, a name of more than 40 characters ends the client, a server that cannot be
  configured reports success), the property states what it does.

  \<^bold>\<open>Bounds.\<close> Sizes and offsets are 64-bit words; hypotheses of the form \<open>length content < 2 ^ 64\<close> say
  that a file size fits. The download theorem of \<open>Transfers\<close> needs files below 2 GiB, since the code
  narrows a byte count to \<open>int\<close>. The limits 16 lines, 2048 bytes, 3 attempts, 32 places are those of the
  sources.

  \<^bold>\<open>Not modelled.\<close> Threads as such (methods of the server context run one at a time, as under
  their mutexes; services interleave between events), the start and the joining of the worker
  threads (their number is counted), logging and text on standard error, symbolic links and permissions of the file system, the screens of
  the console client (layout and colours, and the third-party library of widgets that delivers its
  events), and the desktop and mobile clients, which are separate programs in other languages.
\<close>

end
